(* ===== verification/Prelude.thy ===== *)
theory Prelude
  imports Main "HOL-Library.Word" "HOL-Library.Multiset" "HOL-Library.List_Lexorder"
    "HOL-Library.Char_ord" "HOL-Library.Option_ord"
begin

section \<open>Shared types, machine arithmetic and generic lemmas\<close>

text \<open>
  The vocabulary every component theory uses: the machine integers of the source at their
  width, Rust's checked and saturating arithmetic on them, big-endian byte strings, fallible
  results as a sum type, and the library lemmas on lists and maps that several components
  share. Rust's \<open>Result<T, E>\<close> is \<open>'e + 'a\<close> with \<open>Inl\<close> for the error; the question mark
  operator is \<open>res_bind\<close>.
\<close>

type_synonym u8 = "8 word"
type_synonym u32 = "32 word"
type_synonym u64 = "64 word"
type_synonym i64 = "64 word"
type_synonym bytes = "u8 list"
type_synonym ('e, 'a) result = "'e + 'a"

named_theorems codec_simps \<open>evaluation rules for byte encodings\<close>
named_theorems arith_defs \<open>definitions of the checked and saturating operations\<close>

subsection \<open>Results\<close>

definition res_bind :: "('e, 'a) result \<Rightarrow> ('a \<Rightarrow> ('e, 'b) result) \<Rightarrow> ('e, 'b) result" where
  "res_bind r f = (case r of Inl e \<Rightarrow> Inl e | Inr a \<Rightarrow> f a)"

lemma res_bind_simps [simp]:
  "res_bind (Inl e) f = Inl e"
  "res_bind (Inr a) f = f a"
  by (simp_all add: res_bind_def)

lemma res_bind_Inr_iff:
  "res_bind r f = Inr b \<longleftrightarrow> (\<exists>a. r = Inr a \<and> f a = Inr b)"
  by (cases r) auto

lemma res_bind_Inl_iff:
  "res_bind r f = Inl e \<longleftrightarrow> r = Inl e \<or> (\<exists>a. r = Inr a \<and> f a = Inl e)"
  by (cases r) auto

lemma res_bind_cong [fundef_cong]:
  "r = r' \<Longrightarrow> (\<And>a. r' = Inr a \<Longrightarrow> f a = g a) \<Longrightarrow> res_bind r f = res_bind r' g"
  by (cases r') auto

definition ok_or :: "'e \<Rightarrow> 'a option \<Rightarrow> ('e, 'a) result" where
  "ok_or e x = (case x of None \<Rightarrow> Inl e | Some a \<Rightarrow> Inr a)"

lemma ok_or_simps [simp]:
  "ok_or e None = Inl e"
  "ok_or e (Some a) = Inr a"
  by (simp_all add: ok_or_def)

lemma ok_or_Inr_iff [simp]: "ok_or e x = Inr a \<longleftrightarrow> x = Some a"
  by (cases x) auto

lemma ok_or_Inl_iff: "ok_or e x = Inl e' \<longleftrightarrow> x = None \<and> e' = e"
  by (cases x) auto

definition ok :: "('e, 'a) result \<Rightarrow> 'a option" where
  "ok r = (case r of Inl _ \<Rightarrow> None | Inr a \<Rightarrow> Some a)"

lemma ok_simps [simp]:
  "ok (Inl e) = None"
  "ok (Inr a) = Some a"
  by (simp_all add: ok_def)

text \<open>
  An operation on a state that can fail returns the state it leaves together with its result: what
  it wrote before the failure stays written.
\<close>

definition st_bind ::
  "'s \<times> ('e, 'a) result \<Rightarrow> ('a \<Rightarrow> 's \<Rightarrow> 's \<times> ('e, 'b) result) \<Rightarrow> 's \<times> ('e, 'b) result"
where
  "st_bind m f = (case m of (s, Inl e) \<Rightarrow> (s, Inl e) | (s, Inr a) \<Rightarrow> f a s)"

lemma st_bind_simps [simp]:
  "st_bind (s, Inl e) f = (s, Inl e)"
  "st_bind (s, Inr a) f = f a s"
  by (simp_all add: st_bind_def)

lemma st_bind_cong [fundef_cong]:
  "m = m' \<Longrightarrow> (\<And>a s. m' = (s, Inr a) \<Longrightarrow> f a s = g a s) \<Longrightarrow> st_bind m f = st_bind m' g"
  by (cases m'; cases "snd m'") auto

lemma st_bind_Inr_iff:
  "st_bind m f = (s', Inr b) \<longleftrightarrow> (\<exists>s a. m = (s, Inr a) \<and> f a s = (s', Inr b))"
  by (cases m; cases "snd m") auto

subsection \<open>Checked and saturating arithmetic\<close>

text \<open>\<open>u64::checked_add\<close> and its kin, at any width; \<open>i64\<close> values are words read by \<open>sint\<close>.\<close>

definition checked_add :: "'a::len word \<Rightarrow> 'a word \<Rightarrow> 'a word option" where
  [arith_defs]: "checked_add a b = (if unat a + unat b < 2 ^ LENGTH('a) then Some (a + b) else None)"

definition checked_sub :: "'a::len word \<Rightarrow> 'a word \<Rightarrow> 'a word option" where
  [arith_defs]: "checked_sub a b = (if b \<le> a then Some (a - b) else None)"

definition checked_mul :: "'a::len word \<Rightarrow> 'a word \<Rightarrow> 'a word option" where
  [arith_defs]: "checked_mul a b = (if unat a * unat b < 2 ^ LENGTH('a) then Some (a * b) else None)"

definition saturating_add :: "'a::len word \<Rightarrow> 'a word \<Rightarrow> 'a word" where
  [arith_defs]: "saturating_add a b = (if unat a + unat b < 2 ^ LENGTH('a) then a + b else - 1)"

definition saturating_sub :: "'a::len word \<Rightarrow> 'a word \<Rightarrow> 'a word" where
  [arith_defs]: "saturating_sub a b = (if b \<le> a then a - b else 0)"

definition saturating_mul :: "'a::len word \<Rightarrow> 'a word \<Rightarrow> 'a word" where
  [arith_defs]: "saturating_mul a b = (if unat a * unat b < 2 ^ LENGTH('a) then a * b else - 1)"

definition i64_min :: int where
  [arith_defs]: "i64_min = - (2 ^ 63)"

definition i64_max :: int where
  [arith_defs]: "i64_max = 2 ^ 63 - 1"

definition in_i64 :: "int \<Rightarrow> bool" where
  [arith_defs]: "in_i64 x \<longleftrightarrow> i64_min \<le> x \<and> x \<le> i64_max"

definition checked_add_i64 :: "i64 \<Rightarrow> i64 \<Rightarrow> i64 option" where
  [arith_defs]: "checked_add_i64 a b = (if in_i64 (sint a + sint b) then Some (a + b) else None)"

definition checked_sub_i64 :: "i64 \<Rightarrow> i64 \<Rightarrow> i64 option" where
  [arith_defs]: "checked_sub_i64 a b = (if in_i64 (sint a - sint b) then Some (a - b) else None)"

definition saturating_add_i64 :: "i64 \<Rightarrow> i64 \<Rightarrow> i64" where
  [arith_defs]: "saturating_add_i64 a b =
     (if in_i64 (sint a + sint b) then a + b
      else if sint b < 0 then word_of_int i64_min else word_of_int i64_max)"

definition saturating_sub_i64 :: "i64 \<Rightarrow> i64 \<Rightarrow> i64" where
  [arith_defs]: "saturating_sub_i64 a b =
     (if in_i64 (sint a - sint b) then a - b
      else if sint b < 0 then word_of_int i64_max else word_of_int i64_min)"

lemma unat_saturating_add:
  "unat (saturating_add a (b :: 'a::len word)) = min (unat a + unat b) (2 ^ LENGTH('a) - 1)"
proof (cases "unat a + unat b < 2 ^ LENGTH('a)")
  case True
  then show ?thesis
    by (auto simp: saturating_add_def unat_word_ariths)
next
  case False
  then show ?thesis
    by (simp add: saturating_add_def unsigned_minus_1_eq_mask mask_eq_exp_minus_1)
qed

lemma unat_saturating_mul:
  "unat (saturating_mul a (b :: 'a::len word)) = min (unat a * unat b) (2 ^ LENGTH('a) - 1)"
proof (cases "unat a * unat b < 2 ^ LENGTH('a)")
  case True
  then show ?thesis
    by (auto simp: saturating_mul_def unat_word_ariths)
next
  case False
  then show ?thesis
    by (simp add: saturating_mul_def unsigned_minus_1_eq_mask mask_eq_exp_minus_1)
qed

lemma unat_saturating_sub: "unat (saturating_sub a b) = unat a - unat b"
  by (auto simp: saturating_sub_def unat_sub word_le_nat_alt)

lemma unat_bound: "unat (w :: 'a::len word) < 2 ^ LENGTH('a)"
  by (rule unsigned_less)

lemma word_eq_by_unat:
  fixes a b :: "'a::len word"
  assumes "n < 2 ^ LENGTH('a)" and "unat a = n mod 2 ^ LENGTH('a)"
  shows "a = b \<longleftrightarrow> unat b = n"
  using assms by (auto simp: word_unat_eq_iff)

lemma checked_add_Some_iff:
  "checked_add a (b :: 'a::len word) = Some c \<longleftrightarrow> unat c = unat a + unat b"
  using unat_bound [of c] word_eq_by_unat [of "unat a + unat b" "a + b" c]
  by (auto simp: checked_add_def unat_word_ariths simp del: unsigned_less)

lemma checked_mul_Some_iff:
  "checked_mul a (b :: 'a::len word) = Some c \<longleftrightarrow> unat c = unat a * unat b"
  using unat_bound [of c] word_eq_by_unat [of "unat a * unat b" "a * b" c]
  by (auto simp: checked_mul_def unat_word_ariths simp del: unsigned_less)

lemma sint_i64_bounds: "in_i64 (sint (w :: i64))"
  using sint_greater_eq [of w] sint_less [of w] by (simp add: in_i64_def i64_min_def i64_max_def)

lemma unat_sint_i64:
  "int (unat (w :: i64)) = (if sint w < 0 then sint w + 2 ^ 64 else sint w)"
proof -
  have b: "- (2 ^ 63) \<le> sint w" "sint w < 2 ^ 63"
    using sint_greater_eq [of w] sint_less [of w] by simp_all
  have u: "int (unat w) = sint w mod 2 ^ 64"
    by (simp add: uint_sint take_bit_eq_mod)
  show ?thesis
  proof (cases "sint w < 0")
    case True
    have "sint w mod 2 ^ 64 = (sint w + 2 ^ 64) mod 2 ^ 64" by simp
    also have "\<dots> = sint w + 2 ^ 64"
      using b True by (intro mod_pos_pos_trivial) simp_all
    finally show ?thesis using u True by simp
  next
    case False
    with b u show ?thesis by (simp add: mod_pos_pos_trivial)
  qed
qed

lemma sint_word_of_int_i64: "in_i64 x \<Longrightarrow> sint (word_of_int x :: i64) = x"
  by (simp add: in_i64_def i64_min_def i64_max_def signed_of_int signed_take_bit_int_eq_self)

lemma sint_i64_add: "in_i64 (sint a + sint b) \<Longrightarrow> sint (a + b :: i64) = sint a + sint b"
  using sint_word_of_int_i64 [of "sint a + sint b"]
  by simp

lemma sint_i64_sub: "in_i64 (sint a - sint b) \<Longrightarrow> sint (a - b :: i64) = sint a - sint b"
  using sint_word_of_int_i64 [of "sint a - sint b"]
  by simp

lemma sint_eq_iff: "sint (a :: 'a::len word) = sint b \<longleftrightarrow> a = b"
  by (auto dest: signed_word_eqI)

lemma checked_add_i64_Some_iff: "checked_add_i64 a b = Some c \<longleftrightarrow> sint c = sint a + sint b"
  using sint_i64_bounds [of c] sint_i64_add [of a b]
  by (auto simp: checked_add_i64_def simp flip: sint_eq_iff)

lemma checked_sub_i64_Some_iff: "checked_sub_i64 a b = Some c \<longleftrightarrow> sint c = sint a - sint b"
  using sint_i64_bounds [of c] sint_i64_sub [of a b]
  by (auto simp: checked_sub_i64_def simp flip: sint_eq_iff)

subsection \<open>Big-endian bytes\<close>

text \<open>\<open>uN::to_be_bytes\<close> and \<open>uN::from_be_bytes\<close>: the most significant byte comes first.\<close>

fun be_bytes :: "nat \<Rightarrow> nat \<Rightarrow> bytes" where
  "be_bytes 0 n = []"
| "be_bytes (Suc k) n = be_bytes k (n div 256) @ [word_of_nat (n mod 256)]"

definition be_val :: "bytes \<Rightarrow> nat" where
  "be_val bs = foldl (\<lambda>a b. a * 256 + unat b) 0 bs"

definition to_be_bytes :: "u64 \<Rightarrow> bytes" where
  [codec_simps]: "to_be_bytes w = be_bytes 8 (unat w)"

definition from_be_bytes :: "bytes \<Rightarrow> u64" where
  [codec_simps]: "from_be_bytes bs = word_of_nat (be_val bs)"

lemma length_be_bytes [simp]: "length (be_bytes k n) = k"
  by (induction k arbitrary: n) auto

lemma length_to_be_bytes [simp]: "length (to_be_bytes w) = 8"
  by (simp add: to_be_bytes_def)

lemma be_val_snoc: "be_val (bs @ [b]) = be_val bs * 256 + unat b"
  by (simp add: be_val_def)

lemma be_val_Nil [simp]: "be_val [] = 0"
  by (simp add: be_val_def)

lemma unat_u8_of_mod [simp]: "unat (word_of_nat (n mod 256) :: u8) = n mod 256"
  by (simp add: unsigned_of_nat take_bit_eq_mod)

lemma be_val_be_bytes: "be_val (be_bytes k n) = n mod 256 ^ k"
proof (induction k arbitrary: n)
  case 0
  then show ?case by simp
next
  case (Suc k)
  have "be_val (be_bytes (Suc k) n) = (n div 256 mod 256 ^ k) * 256 + n mod 256"
    by (simp add: be_val_snoc Suc.IH)
  also have "\<dots> = n mod (256 * 256 ^ k)"
    by (simp add: mod_mult2_eq)
  finally show ?case by simp
qed

lemma be_val_bound: "be_val bs < 256 ^ length bs"
proof (induction bs rule: rev_induct)
  case Nil
  then show ?case by simp
next
  case (snoc b bs)
  have "unat b < 256"
    using unat_bound [of b] by simp
  with snoc show ?case by (simp add: be_val_snoc)
qed

lemma be_bytes_be_val: "be_bytes (length bs) (be_val bs) = bs"
proof (induction bs rule: rev_induct)
  case Nil
  then show ?case by simp
next
  case (snoc b bs)
  have "unat b < 256"
    using unat_bound [of b] by simp
  with snoc show ?case by (simp add: be_val_snoc)
qed

lemma from_to_be_bytes [simp]: "from_be_bytes (to_be_bytes w) = w"
proof -
  have "unat w < 256 ^ 8"
    using unat_bound [of w] by simp
  then show ?thesis
    by (simp add: from_be_bytes_def to_be_bytes_def be_val_be_bytes)
qed

lemma to_from_be_bytes:
  assumes "length bs = 8"
  shows "to_be_bytes (from_be_bytes bs) = bs"
proof -
  have "be_val bs < 2 ^ 64"
    using be_val_bound [of bs] assms by simp
  then have "unat (word_of_nat (be_val bs) :: u64) = be_val bs"
    by (simp add: unsigned_of_nat take_bit_eq_mod)
  then show ?thesis
    using be_bytes_be_val [of bs] assms by (simp add: to_be_bytes_def from_be_bytes_def)
qed

lemma to_be_bytes_inject [simp]: "to_be_bytes a = to_be_bytes b \<longleftrightarrow> a = b"
  by (metis from_to_be_bytes)

lemma word_less_iff_unat: "(a :: 'a::len word) < b \<longleftrightarrow> unat a < unat b"
  by (simp add: word_less_nat_alt)

text \<open>Byte order is numeric order: what makes big-endian keys iterate in order.\<close>

lemma append_less_same_length:
  fixes xs ys :: "'a::linorder list"
  assumes "length xs = length ys"
  shows "xs @ us < ys @ vs \<longleftrightarrow> xs < ys \<or> xs = ys \<and> us < vs"
  using assms by (induction xs ys rule: list_induct2) auto

lemma divmod_less_iff: "(m::nat) < n \<longleftrightarrow> m div k < n div k \<or> m div k = n div k \<and> m mod k < n mod k"
proof (cases "m div k = n div k")
  case True
  then have a: "n div k * k + m mod k = m"
    using div_mult_mod_eq [of m k] by metis
  have b: "n div k * k + n mod k = n"
    by (rule div_mult_mod_eq)
  have "m < n \<longleftrightarrow> m mod k < n mod k"
    using nat_add_left_cancel_less [of "n div k * k" "m mod k" "n mod k"] unfolding a b .
  with True show ?thesis by simp
next
  case False
  show ?thesis
  proof
    assume "m < n" then have "m div k \<le> n div k" by (simp add: div_le_mono)
    with False show "m div k < n div k \<or> m div k = n div k \<and> m mod k < n mod k" by simp
  next
    assume "m div k < n div k \<or> m div k = n div k \<and> m mod k < n mod k"
    with False have "\<not> n div k \<le> m div k" by simp
    then have "\<not> n \<le> m" by (blast intro: div_le_mono)
    then show "m < n" by simp
  qed
qed

lemma be_bytes_less_iff:
  assumes "m < 256 ^ k" and "n < 256 ^ k"
  shows "be_bytes k m < be_bytes k n \<longleftrightarrow> m < n"
  using assms
proof (induction k arbitrary: m n)
  case 0
  then show ?case by simp
next
  case (Suc k)
  let ?lo = "\<lambda>i. word_of_nat (i mod 256) :: u8"
  have bound: "m div 256 < 256 ^ k" "n div 256 < 256 ^ k"
    using Suc.prems by (simp_all add: less_mult_imp_div_less mult.commute)
  have eq: "be_bytes k (m div 256) = be_bytes k (n div 256) \<longleftrightarrow> m div 256 = n div 256"
    using bound by (metis be_val_be_bytes mod_less)
  have lo: "?lo m < ?lo n \<longleftrightarrow> m mod 256 < n mod 256"
    by (simp add: word_less_iff_unat)
  have "be_bytes (Suc k) m < be_bytes (Suc k) n \<longleftrightarrow>
      m div 256 < n div 256 \<or> m div 256 = n div 256 \<and> m mod 256 < n mod 256"
    by (simp add: append_less_same_length Suc.IH [OF bound] eq lo)
  also have "\<dots> \<longleftrightarrow> m < n"
    by (rule divmod_less_iff [symmetric])
  finally show ?case .
qed

lemma to_be_bytes_less_iff: "to_be_bytes a < to_be_bytes b \<longleftrightarrow> a < b"
proof -
  have "unat a < 256 ^ 8" "unat b < 256 ^ 8"
    using unat_bound [of a] unat_bound [of b] by simp_all
  then show ?thesis
    by (simp add: to_be_bytes_def be_bytes_less_iff word_less_iff_unat)
qed

end
