(* ===== verification/Number_Source.thy ===== *)
theory Number_Source
  imports Prelude
begin

section \<open>The interface of a sequence-number source\<close>

text \<open>
  What the services rely on when they draw a number: a number is above every number drawn
  before it. \<open>issue\<close> is one successful draw (\<open>None\<close> when it fails), \<open>high\<close> the last number
  handed out and \<open>invar\<close> the provider's invariant. The two counters of the program,
  \<open>Two_Phase_Counter\<close> and \<open>Server_Counter\<close>, interpret it on their own operations.
\<close>

fun draws :: "('s \<Rightarrow> (u64 \<times> 's) option) \<Rightarrow> nat \<Rightarrow> 's \<Rightarrow> (u64 list \<times> 's) option" where
  "draws issue 0 s = Some ([], s)"
| "draws issue (Suc n) s =
     (case issue s of
        None \<Rightarrow> None
      | Some (i, s') \<Rightarrow>
          (case draws issue n s' of
             None \<Rightarrow> None
           | Some (is, s'') \<Rightarrow> Some (i # is, s'')))"

locale number_source =
  fixes issue :: "'s \<Rightarrow> (u64 \<times> 's) option"
    and high :: "'s \<Rightarrow> u64"
    and invar :: "'s \<Rightarrow> bool"
  assumes issue_fresh: "invar s \<Longrightarrow> issue s = Some (i, s') \<Longrightarrow> high s < i"
    and issue_high: "invar s \<Longrightarrow> issue s = Some (i, s') \<Longrightarrow> high s' = i"
    and issue_invar: "invar s \<Longrightarrow> issue s = Some (i, s') \<Longrightarrow> invar s'"
begin

lemma draws_increasing:
  "invar s \<Longrightarrow> draws issue n s = Some (is, s') \<Longrightarrow>
     sorted_wrt (<) is \<and> (\<forall>i \<in> set is. high s < i \<and> i \<le> high s') \<and> high s \<le> high s' \<and> invar s'"
proof (induction n arbitrary: s "is")
  case 0
  then show ?case by simp
next
  case (Suc n)
  then obtain i s1 is1 where step: "issue s = Some (i, s1)" "draws issue n s1 = Some (is1, s')"
    and is_eq: "is = i # is1"
    by (auto split: option.splits)
  note facts = issue_fresh [OF Suc.prems(1) step(1)] issue_high [OF Suc.prems(1) step(1)]
  have "sorted_wrt (<) is1 \<and> (\<forall>i \<in> set is1. high s1 < i \<and> i \<le> high s') \<and> high s1 \<le> high s' \<and> invar s'"
    using Suc.IH [OF issue_invar [OF Suc.prems(1) step(1)] step(2)] .
  with facts is_eq show ?case by auto
qed

lemma draws_distinct:
  "invar s \<Longrightarrow> draws issue n s = Some (is, s') \<Longrightarrow> distinct is"
  using draws_increasing [of s n "is" s'] by (metis strict_sorted_iff)

lemma issue_above:
  "invar s \<Longrightarrow> issue s = Some (i, s') \<Longrightarrow> j \<le> high s \<Longrightarrow> j < i"
  using issue_fresh by (blast intro: order_le_less_trans)

end

end
