(* ===== verification/Two_Phase_Counter.thy ===== *)
theory Two_Phase_Counter
  imports Prelude Number_Source
begin

section \<open>The two-phase event counter\<close>

text \<open>
  \<open>sync/two_phase_counter.rs\<close>: every write draws a sequence number and gives it back when the
  write is visible; readers only ever see the frontier below which nothing is still in flight.
  The \<open>State\<close> behind the lock is the record \<open>counter\<close>; the \<open>commit\<close> and \<open>release\<close> closures it
  holds are the caller's, so \<open>commit\<close> is a parameter (it may fail) and the calls made to each
  are kept in the two log fields. Dropping a \<open>Permit\<close> is \<open>retire\<close>; its error is swallowed by the
  source, so \<open>release\<close> has no outcome here. Every operation holds the lock for its whole
  duration, so an execution is a sequence of them: the relation \<open>counter_step\<close>.
\<close>

record counter =
  dispatched :: u64
  pending :: "u64 list"
  commit_log :: "u64 list"
  release_log :: "u64 list"

record permit =
  permit_retired :: u64
  permit_id :: u64

datatype 'e counter_error = CounterArithmetic | CommitFailed 'e

definition counter_new :: "u64 \<Rightarrow> counter" where
  "counter_new init = \<lparr>dispatched = init, pending = [], commit_log = [], release_log = []\<rparr>"

definition retired :: "counter \<Rightarrow> u64" where
  "retired c = (case pending c of [] \<Rightarrow> dispatched c | p # _ \<Rightarrow> saturating_sub p 1)"

text \<open>\<open>VecDeque::binary_search\<close> on the sorted numbers in flight: the index of the match.\<close>

fun pending_index :: "u64 list \<Rightarrow> u64 \<Rightarrow> nat option" where
  "pending_index [] i = None"
| "pending_index (p # ps) i = (if p = i then Some 0 else map_option Suc (pending_index ps i))"

definition is_pending :: "counter \<Rightarrow> u64 \<Rightarrow> bool" where
  "is_pending c i \<longleftrightarrow> i \<in> set (pending c)"

definition dispatch ::
  "(u64 \<Rightarrow> ('e, unit) result) \<Rightarrow> counter \<Rightarrow> ('e counter_error, u64 \<times> u64) result \<times> counter"
where
  "dispatch commit c =
     (case checked_add (dispatched c) 1 of
        None \<Rightarrow> (Inl CounterArithmetic, c)
      | Some d \<Rightarrow>
          let c1 = c\<lparr>commit_log := commit_log c @ [d]\<rparr> in
          (case commit d of
             Inl e \<Rightarrow> (Inl (CommitFailed e), c1)
           | Inr _ \<Rightarrow> (Inr (retired c, d), c1\<lparr>pending := pending c @ [d], dispatched := d\<rparr>)))"

definition counter_next ::
  "(u64 \<Rightarrow> ('e, unit) result) \<Rightarrow> counter \<Rightarrow> ('e counter_error, permit) result \<times> counter"
where
  "counter_next commit c =
     (case dispatch commit c of
        (Inl e, c') \<Rightarrow> (Inl e, c')
      | (Inr (r, i), c') \<Rightarrow> (Inr \<lparr>permit_retired = r, permit_id = i\<rparr>, c'))"

definition retire :: "counter \<Rightarrow> u64 \<Rightarrow> counter" where
  "retire c i =
     (case pending_index (pending c) i of
        None \<Rightarrow> c
      | Some index \<Rightarrow>
          let rest = take index (pending c) @ drop (Suc index) (pending c);
              c1 = c\<lparr>pending := rest\<rparr>
          in if index \<noteq> 0 then c1
             else c1\<lparr>release_log :=
                       release_log c @ [if rest = [] then dispatched c else i]\<rparr>)"

definition counter_current :: "counter \<Rightarrow> u64" where
  "counter_current c = retired c"

definition counter_range :: "counter \<Rightarrow> u64 \<times> u64" where
  "counter_range c = (retired c, dispatched c)"

definition permit_drop :: "counter \<Rightarrow> permit \<Rightarrow> counter" where
  "permit_drop c p = retire c (permit_id p)"

subsection \<open>Executions\<close>

text \<open>A state is the counter and the permits not yet dropped.\<close>

inductive counter_step ::
  "(u64 \<Rightarrow> ('e, unit) result) \<Rightarrow> counter \<times> permit list \<Rightarrow> counter \<times> permit list \<Rightarrow> bool"
  for commit where
  draw: "counter_next commit c = (Inr p, c') \<Longrightarrow> counter_step commit (c, ps) (c', p # ps)"
| draw_fails: "counter_next commit c = (Inl e, c') \<Longrightarrow> counter_step commit (c, ps) (c', ps)"
| drop: "p \<in> set ps \<Longrightarrow> counter_step commit (c, ps) (permit_drop c p, remove1 p ps)"

inductive counter_run ::
  "(u64 \<Rightarrow> ('e, unit) result) \<Rightarrow> u64 \<Rightarrow> counter \<times> permit list \<Rightarrow> bool"
  for commit init where
  start: "counter_run commit init (counter_new init, [])"
| step: "counter_run commit init s \<Longrightarrow> counter_step commit s t \<Longrightarrow> counter_run commit init t"

text \<open>
  The invariant: the numbers in flight are those of the live permits, in increasing order,
  above the initial value and at most the last one drawn, and no released number is above
  the frontier.
\<close>

definition counter_inv :: "u64 \<Rightarrow> counter \<times> permit list \<Rightarrow> bool" where
  "counter_inv init s \<longleftrightarrow>
     (let (c, ps) = s in
        sorted_wrt (<) (pending c) \<and>
        mset (map permit_id ps) = mset (pending c) \<and>
        (\<forall>i \<in> set (pending c). init < i \<and> i \<le> dispatched c) \<and>
        init \<le> dispatched c \<and>
        (\<forall>r \<in> set (release_log c). r \<le> retired c))"

lemma pending_index_None: "pending_index ps i = None \<longleftrightarrow> i \<notin> set ps"
  by (induction ps) auto

lemma pending_index_Some:
  "pending_index ps i = Some n \<Longrightarrow>
     n < length ps \<and> ps ! n = i \<and> take n ps @ drop (Suc n) ps = remove1 i ps"
  by (induction ps arbitrary: n) (auto split: if_splits)

lemma pending_index_0: "pending_index ps i = Some 0 \<Longrightarrow> \<exists>qs. ps = i # qs"
  by (cases ps) (auto split: if_splits)

lemma pending_retire: "pending (retire c i) = remove1 i (pending c)"
  using pending_index_Some [of "pending c" i]
  by (auto simp: retire_def Let_def remove1_idem pending_index_None split: option.split)

lemma dispatched_retire [simp]: "dispatched (retire c i) = dispatched c"
  by (simp add: retire_def Let_def split: option.split)

lemma sorted_wrt_less_remove1: "sorted_wrt (<) xs \<Longrightarrow> sorted_wrt (<) (remove1 (x :: 'a::linorder) xs)"
  by (induction xs) (auto dest: notin_set_remove1)

lemma le_pred_iff: "0 < (p :: u64) \<Longrightarrow> n \<le> saturating_sub p 1 \<longleftrightarrow> n < p"
  by (simp add: word_le_nat_alt word_less_nat_alt unat_saturating_sub) linarith

lemma le_retired_iff:
  assumes "sorted_wrt (<) (pending c)" and "\<forall>i \<in> set (pending c). init < i \<and> i \<le> dispatched c"
  shows "n \<le> retired c \<longleftrightarrow> n \<le> dispatched c \<and> (\<forall>i \<in> set (pending c). n < i)"
proof (cases "pending c")
  case Nil
  then show ?thesis by (simp add: retired_def)
next
  case (Cons p ps)
  then have "init < p" "p \<le> dispatched c" "\<forall>i \<in> set ps. p < i"
    using assms by auto
  moreover from this have "0 < p"
    using word_zero_le [of init] order_le_less_trans by blast
  ultimately show ?thesis
    using Cons by (auto simp: retired_def le_pred_iff)
qed

lemma counter_invD:
  assumes "counter_inv init (c, ps)"
  shows "sorted_wrt (<) (pending c)" "mset (map permit_id ps) = mset (pending c)"
    "\<forall>i \<in> set (pending c). init < i \<and> i \<le> dispatched c" "init \<le> dispatched c"
    "\<forall>r \<in> set (release_log c). r \<le> retired c"
  using assms by (auto simp: counter_inv_def)

lemma checked_add_one_greater:
  assumes "checked_add (d :: u64) 1 = Some e"
  shows "d < e" and "unat e = unat d + 1"
  using assms by (auto simp: checked_add_Some_iff word_less_nat_alt)

lemma counter_next_Inr:
  assumes "counter_next commit c = (Inr p, c')"
  obtains d where "checked_add (dispatched c) 1 = Some d" "commit d = Inr ()"
    "p = \<lparr>permit_retired = retired c, permit_id = d\<rparr>"
    "c' = c\<lparr>commit_log := commit_log c @ [d], pending := pending c @ [d], dispatched := d\<rparr>"
  using assms
  by (auto simp: counter_next_def dispatch_def Let_def split: option.splits sum.splits prod.splits)

lemma counter_next_Inl:
  assumes "counter_next commit c = (Inl e, c')"
  shows "pending c' = pending c" "dispatched c' = dispatched c" "release_log c' = release_log c"
    "retired c' = retired c"
  using assms
  by (auto simp: counter_next_def dispatch_def Let_def retired_def
      split: option.splits sum.splits prod.splits list.split)

lemma counter_inv_draw:
  assumes inv: "counter_inv init (c, ps)" and next_ok: "counter_next commit c = (Inr p, c')"
  shows "counter_inv init (c', p # ps) \<and> retired c \<le> retired c' \<and> dispatched c < permit_id p"
proof -
  obtain d where d: "checked_add (dispatched c) 1 = Some d"
    and p: "p = \<lparr>permit_retired = retired c, permit_id = d\<rparr>"
    and c': "c' = c\<lparr>commit_log := commit_log c @ [d], pending := pending c @ [d], dispatched := d\<rparr>"
    using next_ok by (rule counter_next_Inr)
  note I = counter_invD [OF inv]
  have less: "dispatched c < d"
    by (rule checked_add_one_greater [OF d])
  have c'_sel: "pending c' = pending c @ [d]" "dispatched c' = d" "release_log c' = release_log c"
    by (simp_all add: c')
  have sorted: "sorted_wrt (<) (pending c')" and range: "\<forall>i \<in> set (pending c'). init < i \<and> i \<le> dispatched c'"
    using I(1,3,4) less by (auto simp: c'_sel sorted_wrt_append)
  have mono: "n \<le> retired c'" if "n \<le> retired c" for n
    using that le_retired_iff [OF I(1,3)] less by (auto simp: le_retired_iff [OF sorted range] c'_sel)
  show ?thesis
    using sorted range mono I(2,4,5) less by (auto simp: counter_inv_def p c'_sel)
qed

lemma counter_inv_retire:
  assumes inv: "counter_inv init (c, ps)" and p: "p \<in> set ps"
  shows "counter_inv init (permit_drop c p, remove1 p ps) \<and> retired c \<le> retired (permit_drop c p)"
proof -
  let ?c = "retire c (permit_id p)"
  note I = counter_invD [OF inv]
  have mem: "permit_id p \<in> set (pending c)"
    using p I(2) by (metis image_eqI set_map set_mset_mset)
  have pend: "pending ?c = remove1 (permit_id p) (pending c)"
    by (rule pending_retire)
  have sorted: "sorted_wrt (<) (pending ?c)" and range: "\<forall>i \<in> set (pending ?c). init < i \<and> i \<le> dispatched ?c"
    using I(1,3) by (auto simp: pend sorted_wrt_less_remove1 dest: notin_set_remove1)
  have mono: "n \<le> retired ?c" if "n \<le> retired c" for n
    using that le_retired_iff [OF I(1,3)]
    by (auto simp: le_retired_iff [OF sorted range] pend dest: notin_set_remove1)
  have mset: "mset (map permit_id (remove1 p ps)) = mset (pending ?c)"
    using p I(2) by (simp add: pend image_mset_Diff)
  have released: "r \<le> retired ?c" if "r \<in> set (release_log ?c)" for r
  proof (cases "r \<in> set (release_log c)")
    case True
    then show ?thesis using I(5) mono by blast
  next
    case False
    with that have first: "pending_index (pending c) (permit_id p) = Some 0"
      and r: "r = (if pending ?c = [] then dispatched c else permit_id p)"
      by (auto simp: retire_def Let_def split: option.splits if_splits)
    then obtain qs where "pending c = permit_id p # qs"
      using pending_index_0 by blast
    with I(1,3) show ?thesis
      by (auto simp: le_retired_iff [OF sorted range] r pend)
  qed
  show ?thesis
    using sorted range mono mset released I(4) by (auto simp: counter_inv_def permit_drop_def)
qed

lemma counter_step_inv:
  assumes "counter_step commit s t" and "counter_inv init s"
  shows "counter_inv init t \<and> retired (fst s) \<le> retired (fst t)"
  using assms
proof (cases rule: counter_step.cases)
  case (draw c p c' ps)
  then show ?thesis using counter_inv_draw [of init c ps commit p c'] assms(2) by simp
next
  case (draw_fails c e c' ps)
  then show ?thesis
    using assms(2) counter_next_Inl [OF draw_fails(3)] by (simp add: counter_inv_def)
next
  case (drop p ps c)
  then show ?thesis using counter_inv_retire [of init c ps p] assms(2) by simp
qed

lemma counter_run_inv: "counter_run commit init s \<Longrightarrow> counter_inv init s"
proof (induction rule: counter_run.induct)
  case start
  show ?case by (simp add: counter_inv_def counter_new_def)
next
  case (step s t)
  then show ?case using counter_step_inv by blast
qed

subsection \<open>Properties\<close>

text \<open>C31: At every moment of every execution the number readers see is exact: a number is at or
  below \<open>current()\<close> if and only if it has been drawn and no permit up to it is still held.\<close>

theorem counter_frontier_exact:
  assumes "counter_run commit init (c, ps)"
  shows "n \<le> counter_current c \<longleftrightarrow> n \<le> dispatched c \<and> (\<forall>p \<in> set ps. n < permit_id p)"
proof -
  note I = counter_invD [OF counter_run_inv [OF assms]]
  have "set (pending c) = permit_id ` set ps"
    using I(2) by (metis set_map set_mset_mset)
  then show ?thesis
    using le_retired_iff [OF I(1,3)] by (simp add: counter_current_def)
qed

lemma counter_run_two_draws:
  "counter_run (\<lambda>_. Inr () :: (string, unit) result) 5
     (\<lparr>dispatched = 7, pending = [6, 7], commit_log = [6, 7], release_log = []\<rparr>,
      [\<lparr>permit_retired = 5, permit_id = 7\<rparr>, \<lparr>permit_retired = 5, permit_id = 6\<rparr>])"
  (is "counter_run ?commit 5 ?s2")
proof -
  let ?s1 = "(\<lparr>dispatched = 6, pending = [6], commit_log = [6], release_log = []\<rparr>,
      [\<lparr>permit_retired = 5, permit_id = 6\<rparr>])"
  note defs = counter_next_def dispatch_def counter_new_def retired_def arith_defs
  have "counter_step ?commit (counter_new 5, []) ?s1"
    by (rule counter_step.draw) (simp add: defs)
  moreover have "counter_step ?commit ?s1 ?s2"
    by (rule counter_step.draw) (simp add: defs)
  ultimately show ?thesis
    by (blast intro: counter_run.intros)
qed

theorem counter_frontier_exact_witness:
  "let c = \<lparr>dispatched = 7, pending = [6, 7], commit_log = [6, 7], release_log = []\<rparr> in
     5 \<le> counter_current c \<and> \<not> 6 \<le> counter_current c"
  using counter_frontier_exact [OF counter_run_two_draws] by (simp add: Let_def)

text \<open>The frontier never moves backwards: no step of any execution lowers what readers see,
  and a draw hands out a number above every number drawn before.\<close>

theorem counter_frontier_monotone:
  assumes "counter_run commit init (c, ps)" and "counter_step commit (c, ps) (c', ps')"
  shows "counter_current c \<le> counter_current c' \<and> dispatched c \<le> dispatched c' \<and>
    (\<forall>p. ps' = p # ps \<longrightarrow> dispatched c < permit_id p \<and> permit_id p = dispatched c')"
proof -
  note inv = counter_run_inv [OF assms(1)]
  have mono: "counter_current c \<le> counter_current c'"
    using counter_step_inv [OF assms(2) inv] by (simp add: counter_current_def)
  from assms(2) show ?thesis
  proof (cases rule: counter_step.cases)
    case (draw p)
    have "permit_id p = dispatched c'"
      using draw(2) by (auto elim: counter_next_Inr)
    moreover have "dispatched c < permit_id p"
      using counter_inv_draw [OF inv draw(2)] by simp
    ultimately show ?thesis using draw mono by auto
  next
    case (draw_fails e)
    then show ?thesis using mono counter_next_Inl [OF draw_fails(2)] by simp
  next
    case (drop p)
    then have "length ps' < length ps"
      using length_pos_if_in_set [of p ps] by (simp add: length_remove1)
    with drop mono show ?thesis by (auto simp: permit_drop_def)
  qed
qed

theorem counter_frontier_monotone_witness:
  "counter_current \<lparr>dispatched = 7, pending = [6, 7], commit_log = [6, 7], release_log = []\<rparr> \<le>
   counter_current (permit_drop
     \<lparr>dispatched = 7, pending = [6, 7], commit_log = [6, 7], release_log = []\<rparr>
     \<lparr>permit_retired = 5, permit_id = 7\<rparr>)"
proof -
  let ?c = "\<lparr>dispatched = 7, pending = [6, 7], commit_log = [6, 7], release_log = []\<rparr> :: counter"
  let ?p = "\<lparr>permit_retired = 5, permit_id = 7\<rparr> :: permit"
  let ?q = "\<lparr>permit_retired = 5, permit_id = 6\<rparr> :: permit"
  have "counter_step (\<lambda>_. Inr () :: (string, unit) result) (?c, [?p, ?q])
      (permit_drop ?c ?p, remove1 ?p [?p, ?q])"
    by (rule counter_step.drop) simp
  from counter_frontier_monotone [OF counter_run_two_draws this] show ?thesis
    by blast
qed

text \<open>A released number is safe to persist: every number the counter ever passed to
  \<open>release\<close> is at or below the frontier, so all writes up to it are complete.\<close>

theorem counter_release_safe:
  assumes "counter_run commit init (c, ps)" and "r \<in> set (release_log c)"
  shows "r \<le> counter_current c \<and> (\<forall>p \<in> set ps. r < permit_id p)"
proof -
  have "r \<le> retired c"
    using counter_invD(5) [OF counter_run_inv [OF assms(1)]] assms(2) by blast
  moreover note I = counter_invD [OF counter_run_inv [OF assms(1)]]
  have "set (pending c) = permit_id ` set ps"
    using I(2) by (metis set_map set_mset_mset)
  ultimately show ?thesis
    using le_retired_iff [OF I(1,3)] by (simp add: counter_current_def)
qed

theorem counter_release_safe_witness:
  "6 \<in> set (release_log (permit_drop
      \<lparr>dispatched = 7, pending = [6, 7], commit_log = [6, 7], release_log = []\<rparr>
      \<lparr>permit_retired = 5, permit_id = 6\<rparr>)) \<and>
   6 \<le> counter_current (permit_drop
      \<lparr>dispatched = 7, pending = [6, 7], commit_log = [6, 7], release_log = []\<rparr>
      \<lparr>permit_retired = 5, permit_id = 6\<rparr>)"
proof -
  let ?c = "\<lparr>dispatched = 7, pending = [6, 7], commit_log = [6, 7], release_log = []\<rparr> :: counter"
  let ?p = "\<lparr>permit_retired = 5, permit_id = 7\<rparr> :: permit"
  let ?q = "\<lparr>permit_retired = 5, permit_id = 6\<rparr> :: permit"
  have "counter_step (\<lambda>_. Inr () :: (string, unit) result) (?c, [?p, ?q])
      (permit_drop ?c ?q, remove1 ?q [?p, ?q])"
    by (rule counter_step.drop) simp
  then have run: "counter_run (\<lambda>_. Inr () :: (string, unit) result) 5
      (permit_drop ?c ?q, remove1 ?q [?p, ?q])"
    using counter_run_two_draws by (blast intro: counter_run.step)
  have mem: "6 \<in> set (release_log (permit_drop ?c ?q))"
    by (simp add: permit_drop_def retire_def Let_def)
  show ?thesis
    using counter_release_safe [OF run mem] mem by simp
qed

text \<open>The counter as a number source.\<close>

definition counter_issue :: "(u64 \<Rightarrow> ('e, unit) result) \<Rightarrow> counter \<Rightarrow> (u64 \<times> counter) option" where
  "counter_issue commit c =
     (case counter_next commit c of (Inl _, _) \<Rightarrow> None | (Inr p, c') \<Rightarrow> Some (permit_id p, c'))"

lemma counter_issue_Some:
  assumes "counter_issue commit c = Some (i, c')"
  shows "dispatched c < i" and "dispatched c' = i"
  using assms
  by (auto simp: counter_issue_def split: prod.splits sum.splits
      elim!: counter_next_Inr dest: checked_add_one_greater)

interpretation two_phase: number_source "counter_issue commit" dispatched "\<lambda>_. True"
  by unfold_locales (auto dest: counter_issue_Some)

end
