(* ===== verification/Room_Version.thy ===== *)
theory Room_Version
  imports Prelude
begin

section \<open>Room versions\<close>

text \<open>
  \<open>matrix/state_res/room_version.rs\<close>: the feature flags of the twelve room versions, each
  constant written, as in the source, as the difference to the version before it.
\<close>

datatype room_disposition = Stable | Unstable

datatype event_format_version = EventFormatV1 | EventFormatV2 | EventFormatV3

datatype state_resolution_version = StateResV1 | StateResV2

record room_version =
  disposition :: room_disposition
  event_format :: event_format_version
  state_res :: state_resolution_version
  enforce_key_validity :: bool
  special_case_aliases_auth :: bool
  strict_canonicaljson :: bool
  limit_notifications_power_levels :: bool
  extra_redaction_checks :: bool
  allow_knocking :: bool
  restricted_join_rules :: bool
  knock_restricted_join_rule :: bool
  integer_power_levels :: bool
  use_room_create_sender :: bool
  explicitly_privilege_room_creators :: bool
  additional_room_creators :: bool
  room_create_event_id_as_room_id :: bool
  state_res_v2_1 :: bool

datatype room_version_id = V1 | V2 | V3 | V4 | V5 | V6 | V7 | V8 | V9 | V10 | V11 | V12
  | OtherVersion string

definition RV1 :: room_version where
  "RV1 = \<lparr>disposition = Stable, event_format = EventFormatV1, state_res = StateResV1,
     enforce_key_validity = False, special_case_aliases_auth = True, strict_canonicaljson = False,
     limit_notifications_power_levels = False, extra_redaction_checks = True,
     allow_knocking = False, restricted_join_rules = False, knock_restricted_join_rule = False,
     integer_power_levels = False, use_room_create_sender = False,
     explicitly_privilege_room_creators = False, additional_room_creators = False,
     room_create_event_id_as_room_id = False, state_res_v2_1 = False\<rparr>"

definition RV2 :: room_version where
  "RV2 = RV1\<lparr>state_res := StateResV2\<rparr>"

definition RV3 :: room_version where
  "RV3 = RV2\<lparr>event_format := EventFormatV2, extra_redaction_checks := False\<rparr>"

definition RV4 :: room_version where
  "RV4 = RV3\<lparr>event_format := EventFormatV3\<rparr>"

definition RV5 :: room_version where
  "RV5 = RV4\<lparr>enforce_key_validity := True\<rparr>"

definition RV6 :: room_version where
  "RV6 = RV5\<lparr>special_case_aliases_auth := False, strict_canonicaljson := True,
     limit_notifications_power_levels := True\<rparr>"

definition RV7 :: room_version where
  "RV7 = RV6\<lparr>allow_knocking := True\<rparr>"

definition RV8 :: room_version where
  "RV8 = RV7\<lparr>restricted_join_rules := True\<rparr>"

definition RV9 :: room_version where
  "RV9 = RV8"

definition RV10 :: room_version where
  "RV10 = RV9\<lparr>knock_restricted_join_rule := True, integer_power_levels := True\<rparr>"

definition RV11 :: room_version where
  "RV11 = RV10\<lparr>use_room_create_sender := True\<rparr>"

definition RV12 :: room_version where
  "RV12 = RV11\<lparr>explicitly_privilege_room_creators := True, additional_room_creators := True,
     room_create_event_id_as_room_id := True, state_res_v2_1 := True\<rparr>"

lemmas room_version_defs = RV1_def RV2_def RV3_def RV4_def RV5_def RV6_def RV7_def RV8_def
  RV9_def RV10_def RV11_def RV12_def

text \<open>The error is the unsupported version.\<close>

fun room_version_new :: "room_version_id \<Rightarrow> (room_version_id, room_version) result" where
  "room_version_new V1 = Inr RV1"
| "room_version_new V2 = Inr RV2"
| "room_version_new V3 = Inr RV3"
| "room_version_new V4 = Inr RV4"
| "room_version_new V5 = Inr RV5"
| "room_version_new V6 = Inr RV6"
| "room_version_new V7 = Inr RV7"
| "room_version_new V8 = Inr RV8"
| "room_version_new V9 = Inr RV9"
| "room_version_new V10 = Inr RV10"
| "room_version_new V11 = Inr RV11"
| "room_version_new V12 = Inr RV12"
| "room_version_new (OtherVersion v) = Inl (OtherVersion v)"

definition supported_versions :: "room_version_id list" where
  "supported_versions = [V1, V2, V3, V4, V5, V6, V7, V8, V9, V10, V11, V12]"

definition is_supported :: "room_version_id \<Rightarrow> bool" where
  "is_supported v = (case room_version_new v of Inl _ \<Rightarrow> False | Inr _ \<Rightarrow> True)"

lemma is_supported_iff: "is_supported v \<longleftrightarrow> v \<in> set supported_versions"
  by (cases v) (simp_all add: is_supported_def supported_versions_def)

text \<open>
  The versions the constructor can produce satisfy the dependencies between flags that the
  rest of the code relies on: creators are privileged only where the create event's sender is
  the creator, additional creators only where creators are privileged, and knock-restricted
  rooms only where both restricted joins and knocking exist.
\<close>

definition coherent_version :: "room_version \<Rightarrow> bool" where
  "coherent_version rv \<longleftrightarrow>
     (explicitly_privilege_room_creators rv \<longrightarrow> use_room_create_sender rv \<and> integer_power_levels rv) \<and>
     (additional_room_creators rv \<longrightarrow> explicitly_privilege_room_creators rv) \<and>
     (knock_restricted_join_rule rv \<longrightarrow> restricted_join_rules rv \<and> allow_knocking rv) \<and>
     (room_create_event_id_as_room_id rv \<longleftrightarrow> state_res_v2_1 rv)"

lemma room_version_new_coherent: "room_version_new v = Inr rv \<Longrightarrow> coherent_version rv"
  by (cases v) (auto simp: coherent_version_def room_version_defs)

end
