(* ===== verification/Matrix_Event.thy ===== *)
theory Matrix_Event
  imports Room_Version
begin

section \<open>Events and what is read from them\<close>

text \<open>
  The \<open>Event\<close> trait of \<open>matrix/event.rs\<close>, the errors of \<open>state_res/error.rs\<close>, the power level
  contents of \<open>state_res/power_levels.rs\<close> and the helpers of \<open>state_res/mod.rs\<close> that read them.

  An event's content is raw JSON text. Parsing it is the work of \<open>serde_json\<close> and of the types
  of the \<open>ruma\<close> crate, which are not part of the repository: they are the fields of the record
  \<open>ruma\<close>, a parameter of every definition that reads a content, and the type of contents is
  the variable \<open>'c\<close>. A parser answers \<open>None\<close> where \<open>from_json_str\<close> is an error. A struct field
  that may be absent is an option; a field of type \<open>Option<Raw<T>>\<close> that the code deserializes
  later is a nested option, \<open>None\<close> when absent and \<open>Some None\<close> when it is present and does not
  deserialize. The defaults the source gives to absent fields are written out here.
\<close>

type_synonym user_id = string
type_synonym room_id = string
type_synonym event_id = string
type_synonym server_name = string

datatype event_type = RoomCreate | RoomMember | RoomPowerLevels | RoomJoinRules
  | RoomThirdPartyInvite | RoomRedaction | RoomAliases | OtherType string

fun event_type_to_string :: "event_type \<Rightarrow> string" where
  "event_type_to_string RoomCreate = ''m.room.create''"
| "event_type_to_string RoomMember = ''m.room.member''"
| "event_type_to_string RoomPowerLevels = ''m.room.power_levels''"
| "event_type_to_string RoomJoinRules = ''m.room.join_rules''"
| "event_type_to_string RoomThirdPartyInvite = ''m.room.third_party_invite''"
| "event_type_to_string RoomRedaction = ''m.room.redaction''"
| "event_type_to_string RoomAliases = ''m.room.aliases''"
| "event_type_to_string (OtherType s) = s"

type_synonym state_key_pair = "event_type \<times> string"
type_synonym 'a state_map = "state_key_pair \<rightharpoonup> 'a"

record 'c event =
  event_id :: event_id
  room_id :: room_id
  sender :: user_id
  origin_server_ts :: nat
  event_type :: event_type
  content :: 'c
  state_key :: "string option"
  prev_events :: "event_id list"
  auth_events :: "event_id list"
  redacts :: "event_id option"

datatype auth_error = SerdeJson | Unsupported room_version_id | NotFound event_id | InvalidPdu
  | Panicked

text \<open>\<open>EventTypeExt::with_state_key\<close> turns a timeline type into the state type of the same name.\<close>

definition with_state_key :: "event_type \<Rightarrow> string \<Rightarrow> state_key_pair" where
  "with_state_key t k = (t, k)"

datatype membership_state = Ban | Invite | Join | Knock | Leave | CustomMembership string

text \<open>The code matches \<open>Restricted(_)\<close> and \<open>KnockRestricted(_)\<close> without reading their rules.\<close>

datatype join_rule = JoinRuleInvite | JoinRuleKnock | JoinRulePrivate | JoinRulePublic
  | JoinRuleRestricted | JoinRuleKnockRestricted | JoinRuleCustom string

subsection \<open>User power\<close>

datatype user_power = Level int | Infinite

instantiation user_power :: linorder
begin

fun less_eq_user_power :: "user_power \<Rightarrow> user_power \<Rightarrow> bool" where
  "less_eq_user_power (Level a) (Level b) = (a \<le> b)"
| "less_eq_user_power (Level _) Infinite = True"
| "less_eq_user_power Infinite (Level _) = False"
| "less_eq_user_power Infinite Infinite = True"

definition less_user_power :: "user_power \<Rightarrow> user_power \<Rightarrow> bool" where
  "less_user_power a b \<longleftrightarrow> a \<le> b \<and> \<not> b \<le> a"

instance
proof
  fix x y z :: user_power
  show "x < y \<longleftrightarrow> x \<le> y \<and> \<not> y \<le> x"
    by (rule less_user_power_def)
  show "x \<le> x"
    by (cases x) simp_all
  show "x \<le> y \<Longrightarrow> y \<le> z \<Longrightarrow> x \<le> z"
    by (cases x; cases y; cases z) simp_all
  show "x \<le> y \<Longrightarrow> y \<le> x \<Longrightarrow> x = y"
    by (cases x; cases y) simp_all
  show "x \<le> y \<or> y \<le> x"
    by (cases x; cases y) auto
qed

end

lemma user_power_less_simps [simp]:
  "Level a < Level b \<longleftrightarrow> a < b"
  "Level a < Infinite"
  "\<not> Infinite < p"
  by (cases p; auto simp: less_user_power_def)+

lemma infinite_greatest [simp]: "p \<le> Infinite"
  by (cases p) simp_all

subsection \<open>Contents\<close>

record power_levels =
  pl_ban :: int
  pl_events :: "(event_type \<times> int) list"
  pl_events_default :: int
  pl_invite :: int
  pl_kick :: int
  pl_redact :: int
  pl_state_default :: int
  pl_users :: "(user_id \<times> int) list"
  pl_users_default :: int
  pl_notifications_room :: int

text \<open>\<open>IntRoomPowerLevelsEventContent\<close> as it comes off the wire, each field present or absent.\<close>

record int_power_levels =
  ipl_ban :: "int option"
  ipl_events :: "(event_type \<times> int) list option"
  ipl_events_default :: "int option"
  ipl_invite :: "int option"
  ipl_kick :: "int option"
  ipl_redact :: "int option"
  ipl_state_default :: "int option"
  ipl_users :: "(user_id \<times> int) list option"
  ipl_users_default :: "int option"
  ipl_notifications :: "int option option"

record raw_content_fields =
  raw_users :: "(user_id \<times> int) list option"
  raw_users_default :: "int option"

record power_levels_content_fields =
  plf_users :: "(user_id \<times> int) list"
  plf_users_default :: int

record signed_content =
  mxid :: user_id
  token :: string

record 'c member_fields =
  mf_membership :: "membership_state option option"
  mf_third_party_invite :: "'c option option"
  mf_join_authorised :: "user_id option option"

record 'c create_fields =
  cf_room_version :: "room_version_id option option"
  cf_creator :: "'c option"
  cf_additional_creators :: "user_id list option option"

record third_party_content =
  tpc_public_keys :: "string list option"
  tpc_public_key :: string

datatype canonical_json = CanonicalString string | CanonicalObject "(string \<times> canonical_json) list"
  | CanonicalOther

type_synonym canonical_object = "(string \<times> canonical_json) list"

text \<open>The parameter: what the code calls of \<open>serde_json\<close> and \<open>ruma\<close>.\<close>

record 'c ruma =
  user_server_name :: "user_id \<Rightarrow> server_name"
  room_server_name :: "room_id \<Rightarrow> server_name option"
  event_server_name :: "event_id \<Rightarrow> server_name option"
  parse_event_id :: "string \<Rightarrow> event_id option"
  parse_user_id :: "string \<Rightarrow> user_id option"
  default_power_level :: int
  empty_object :: 'c
  de_membership :: "'c \<Rightarrow> membership_state option"
  de_third_party_invite :: "'c \<Rightarrow> 'c option option option"
  de_member_fields :: "'c \<Rightarrow> 'c member_fields option"
  de_signed :: "'c \<Rightarrow> signed_content option"
  de_room_member :: "'c \<Rightarrow> membership_state option"
  de_create_fields :: "'c \<Rightarrow> 'c create_fields option"
  de_federate :: "'c \<Rightarrow> bool option option"
  de_room_create :: "'c \<Rightarrow> user_id option option"
  de_create_creator :: "'c \<Rightarrow> user_id option option"
  de_additional_creators :: "'c \<Rightarrow> user_id list option option"
  de_power_levels :: "'c \<Rightarrow> power_levels option"
  de_int_power_levels :: "'c \<Rightarrow> int_power_levels option"
  de_v1_fields :: "'c \<Rightarrow> raw_content_fields option"
  de_int_fields :: "'c \<Rightarrow> raw_content_fields option"
  de_v1_invite :: "'c \<Rightarrow> int option option"
  de_int_invite :: "'c \<Rightarrow> int option option"
  de_v1_redact :: "'c \<Rightarrow> int option option"
  de_int_redact :: "'c \<Rightarrow> int option option"
  de_join_rules :: "'c \<Rightarrow> join_rule option"
  de_third_party_content :: "'c \<Rightarrow> third_party_content option"
  decode_key :: "string \<Rightarrow> bytes option"
  de_canonical :: "'c \<Rightarrow> canonical_object option"
  canonical_for_signing :: "canonical_object \<Rightarrow> string option"
  parse_base64 :: "string \<Rightarrow> bytes option"
  verify_ed25519 :: "bytes \<Rightarrow> bytes \<Rightarrow> string \<Rightarrow> bool"

definition unwrap_or :: "'a \<Rightarrow> 'a option \<Rightarrow> 'a" where
  "unwrap_or d x = (case x of None \<Rightarrow> d | Some a \<Rightarrow> a)"

lemma unwrap_or_simps [simp]:
  "unwrap_or d None = d"
  "unwrap_or d (Some a) = a"
  by (simp_all add: unwrap_or_def)

subsection \<open>Reading power levels\<close>

definition int_power_levels_into :: "'c ruma \<Rightarrow> int_power_levels \<Rightarrow> power_levels" where
  "int_power_levels_into R c =
     \<lparr>pl_ban = unwrap_or (default_power_level R) (ipl_ban c),
      pl_events = unwrap_or [] (ipl_events c),
      pl_events_default = unwrap_or 0 (ipl_events_default c),
      pl_invite = unwrap_or 0 (ipl_invite c),
      pl_kick = unwrap_or (default_power_level R) (ipl_kick c),
      pl_redact = unwrap_or (default_power_level R) (ipl_redact c),
      pl_state_default = unwrap_or (default_power_level R) (ipl_state_default c),
      pl_users = unwrap_or [] (ipl_users c),
      pl_users_default = unwrap_or 0 (ipl_users_default c),
      pl_notifications_room =
        (case ipl_notifications c of
           None \<Rightarrow> default_power_level R
         | Some room \<Rightarrow> unwrap_or (default_power_level R) room)\<rparr>"

definition deserialize_integer_power_levels :: "'c ruma \<Rightarrow> 'c \<Rightarrow> power_levels option" where
  "deserialize_integer_power_levels R c = map_option (int_power_levels_into R) (de_int_power_levels R c)"

definition deserialize_legacy_power_levels :: "'c ruma \<Rightarrow> 'c \<Rightarrow> power_levels option" where
  "deserialize_legacy_power_levels R c = de_power_levels R c"

definition deserialize_power_levels :: "'c ruma \<Rightarrow> 'c \<Rightarrow> room_version \<Rightarrow> power_levels option" where
  "deserialize_power_levels R c rv =
     (if integer_power_levels rv then deserialize_integer_power_levels R c
      else deserialize_legacy_power_levels R c)"

definition fields_into :: "raw_content_fields \<Rightarrow> power_levels_content_fields" where
  "fields_into r = \<lparr>plf_users = unwrap_or [] (raw_users r),
     plf_users_default = unwrap_or 0 (raw_users_default r)\<rparr>"

definition deserialize_power_levels_content_fields ::
  "'c ruma \<Rightarrow> 'c \<Rightarrow> room_version \<Rightarrow> (auth_error, power_levels_content_fields) result"
where
  "deserialize_power_levels_content_fields R c rv =
     ok_or SerdeJson (map_option fields_into
       (if integer_power_levels rv then de_int_fields R c else de_v1_fields R c))"

definition deserialize_power_levels_content_invite ::
  "'c ruma \<Rightarrow> 'c \<Rightarrow> room_version \<Rightarrow> (auth_error, int) result"
where
  "deserialize_power_levels_content_invite R c rv =
     ok_or SerdeJson (map_option (unwrap_or 0)
       (if integer_power_levels rv then de_int_invite R c else de_v1_invite R c))"

definition deserialize_power_levels_content_redact ::
  "'c ruma \<Rightarrow> 'c \<Rightarrow> room_version \<Rightarrow> (auth_error, int) result"
where
  "deserialize_power_levels_content_redact R c rv =
     ok_or SerdeJson (map_option (unwrap_or (default_power_level R))
       (if integer_power_levels rv then de_int_redact R c else de_v1_redact R c))"

text \<open>
  \<open>slice::binary_search_by\<close>: halve the range until the comparison is equal or the range is
  empty.
\<close>

datatype ordering = OrdLess | OrdEqual | OrdGreater

definition ord_cmp :: "'a::linorder \<Rightarrow> 'a \<Rightarrow> ordering" where
  "ord_cmp a b = (if a < b then OrdLess else if a = b then OrdEqual else OrdGreater)"

function binary_search_by :: "('a \<Rightarrow> ordering) \<Rightarrow> 'a list \<Rightarrow> nat \<Rightarrow> nat \<Rightarrow> nat option" where
  "binary_search_by cmp xs lo hi =
     (if hi \<le> lo then None
      else let mid = lo + (hi - lo) div 2 in
        (case cmp (xs ! mid) of
           OrdEqual \<Rightarrow> Some mid
         | OrdLess \<Rightarrow> binary_search_by cmp xs (Suc mid) hi
         | OrdGreater \<Rightarrow> binary_search_by cmp xs lo mid))"
  by pat_completeness auto
termination
  by (relation "measure (\<lambda>(cmp, xs, lo, hi). hi - lo)") auto

declare binary_search_by.simps [simp del]

definition get_user_power :: "power_levels_content_fields \<Rightarrow> user_id \<Rightarrow> int option" where
  "get_user_power f u =
     (case binary_search_by (\<lambda>item. ord_cmp (fst item) u) (plf_users f) 0 (length (plf_users f)) of
        None \<Rightarrow> None
      | Some idx \<Rightarrow> if idx < length (plf_users f) then Some (snd (plf_users f ! idx)) else None)"

lemma binary_search_by_Some:
  "binary_search_by cmp xs lo hi = Some i \<Longrightarrow> lo \<le> i \<and> i < hi \<and> cmp (xs ! i) = OrdEqual"
proof (induction cmp xs lo hi rule: binary_search_by.induct)
  case (1 cmp xs lo hi)
  let ?mid = "lo + (hi - lo) div 2"
  have range: "lo < hi"
    using "1.prems" by (auto simp: binary_search_by.simps [of cmp xs lo hi] split: if_splits)
  show ?case
  proof (cases "cmp (xs ! ?mid)")
    case OrdLess
    then have "binary_search_by cmp xs (Suc ?mid) hi = Some i"
      using "1.prems" range by (simp add: binary_search_by.simps [of cmp xs lo hi] Let_def)
    with "1.IH"(1) [of ?mid] OrdLess range show ?thesis by simp
  next
    case OrdEqual
    with "1.prems" range show ?thesis
      by (auto simp: binary_search_by.simps [of cmp xs lo hi] Let_def)
  next
    case OrdGreater
    then have "binary_search_by cmp xs lo ?mid = Some i"
      using "1.prems" range by (simp add: binary_search_by.simps [of cmp xs lo hi] Let_def)
    with "1.IH"(2) [of ?mid] OrdGreater range show ?thesis by auto
  qed
qed

lemma binary_search_by_None:
  fixes key :: "'a \<Rightarrow> 'k::linorder"
  assumes "sorted_wrt (\<lambda>a b. key a < key b) xs" and "hi \<le> length xs"
    and "binary_search_by (\<lambda>x. ord_cmp (key x) u) xs lo hi = None" and "lo \<le> j" and "j < hi"
  shows "key (xs ! j) \<noteq> u"
  using assms
proof (induction "\<lambda>x. ord_cmp (key x) u" xs lo hi rule: binary_search_by.induct)
  case (1 xs lo hi)
  let ?cmp = "\<lambda>x. ord_cmp (key x) u"
  let ?mid = "lo + (hi - lo) div 2"
  have range: "lo < hi" "?mid < hi" "?mid < length xs"
    using "1.prems" by auto
  have mono: "i < k \<Longrightarrow> k < length xs \<Longrightarrow> key (xs ! i) < key (xs ! k)" for i k
    using "1.prems"(1) by (rule sorted_wrt_nth_less)
  show ?case
  proof (cases "?cmp (xs ! ?mid)")
    case OrdLess
    then have less: "key (xs ! ?mid) < u"
      by (auto simp: ord_cmp_def split: if_splits)
    have rec: "binary_search_by ?cmp xs (Suc ?mid) hi = None"
      using "1.prems"(3) range OrdLess
      by (simp add: binary_search_by.simps [of ?cmp xs lo hi] Let_def)
    show ?thesis
    proof (cases "j \<le> ?mid")
      case True
      then have "key (xs ! j) \<le> key (xs ! ?mid)"
        using mono [of j ?mid] range by (cases "j = ?mid") auto
      with less show ?thesis by auto
    next
      case False
      with "1.hyps"(1) [of ?mid] OrdLess rec range "1.prems" show ?thesis by simp
    qed
  next
    case OrdEqual
    with "1.prems"(3) range show ?thesis
      by (simp add: binary_search_by.simps [of ?cmp xs lo hi] Let_def)
  next
    case OrdGreater
    then have greater: "u < key (xs ! ?mid)"
      by (auto simp: ord_cmp_def split: if_splits)
    have rec: "binary_search_by ?cmp xs lo ?mid = None"
      using "1.prems"(3) range OrdGreater
      by (simp add: binary_search_by.simps [of ?cmp xs lo hi] Let_def)
    show ?thesis
    proof (cases "j < ?mid")
      case True
      with "1.hyps"(2) [of ?mid] OrdGreater rec range "1.prems" show ?thesis by simp
    next
      case False
      then have "key (xs ! ?mid) \<le> key (xs ! j)"
        using mono [of ?mid j] "1.prems" by (cases "j = ?mid") auto
      with greater show ?thesis by auto
    qed
  qed
qed

text \<open>The users come out of a \<open>BTreeMap\<close>: strictly increasing by user.\<close>

definition sorted_users :: "(user_id \<times> int) list \<Rightarrow> bool" where
  "sorted_users us \<longleftrightarrow> sorted_wrt (\<lambda>a b. fst a < fst b) us"

lemma sorted_users_distinct: "sorted_users us \<Longrightarrow> distinct (map fst us)"
  unfolding sorted_users_def
  by (induction us) auto

lemma get_user_power_eq_map_of:
  assumes "sorted_users (plf_users f)"
  shows "get_user_power f u = map_of (plf_users f) u"
proof (cases "binary_search_by (\<lambda>item. ord_cmp (fst item) u) (plf_users f) 0 (length (plf_users f))")
  case None
  have "fst (plf_users f ! j) \<noteq> u" if "j < length (plf_users f)" for j
    using binary_search_by_None [OF assms [unfolded sorted_users_def] _ None] that by simp
  then have "u \<notin> fst ` set (plf_users f)"
    by (metis imageE in_set_conv_nth)
  with None show ?thesis
    by (simp add: get_user_power_def) (metis map_of_eq_None_iff)
next
  case (Some idx)
  then have idx: "idx < length (plf_users f)" "fst (plf_users f ! idx) = u"
    using binary_search_by_Some [OF Some] by (auto simp: ord_cmp_def split: if_splits)
  then have "(u, snd (plf_users f ! idx)) \<in> set (plf_users f)"
    by (metis nth_mem prod.collapse)
  with sorted_users_distinct [OF assms] have "map_of (plf_users f) u = Some (snd (plf_users f ! idx))"
    by (simp add: map_of_is_SomeI)
  with Some idx show ?thesis by (simp add: get_user_power_def)
qed

definition privileged_creators :: "'c ruma \<Rightarrow> room_version \<Rightarrow> 'c event \<Rightarrow> user_id list" where
  "privileged_creators R rv create_event =
     (if \<not> explicitly_privilege_room_creators rv then []
      else sender create_event #
        (if additional_room_creators rv then
           (case de_additional_creators R (content create_event) of
              None \<Rightarrow> []
            | Some cs \<Rightarrow> unwrap_or [] cs)
         else []))"

subsection \<open>Helpers of state resolution\<close>

fun strip_prefix :: "char \<Rightarrow> string \<Rightarrow> string option" where
  "strip_prefix c [] = None"
| "strip_prefix c (x # xs) = (if x = c then Some xs else None)"

definition create_event_id_of :: "'c ruma \<Rightarrow> room_id \<Rightarrow> event_id option" where
  "create_event_id_of R r =
     (if room_server_name R r \<noteq> None then None
      else case strip_prefix (CHR ''!'') r of
        None \<Rightarrow> None
      | Some opaque \<Rightarrow> parse_event_id R (CHR ''$'' # opaque))"

definition room_id_derives_from :: "'c ruma \<Rightarrow> room_id \<Rightarrow> 'c event \<Rightarrow> bool" where
  "room_id_derives_from R r create_event =
     (case create_event_id_of R r of None \<Rightarrow> False | Some i \<Rightarrow> i = event_id create_event)"

definition is_type_and_key :: "'c event \<Rightarrow> event_type \<Rightarrow> string \<Rightarrow> bool" where
  "is_type_and_key ev t k \<longleftrightarrow> event_type ev = t \<and> state_key ev = Some k"

definition is_power_event :: "'c ruma \<Rightarrow> 'c event \<Rightarrow> bool" where
  "is_power_event R ev =
     (case event_type ev of
        RoomPowerLevels \<Rightarrow> state_key ev = Some []
      | RoomJoinRules \<Rightarrow> state_key ev = Some []
      | RoomCreate \<Rightarrow> state_key ev = Some []
      | RoomMember \<Rightarrow>
          (case de_room_member R (content ev) of
             None \<Rightarrow> False
           | Some m \<Rightarrow> (m = Leave \<or> m = Ban) \<and> Some (sender ev) \<noteq> state_key ev)
      | _ \<Rightarrow> False)"

end
