(* ===== verification/Event_Auth.thy ===== *)
theory Event_Auth
  imports Matrix_Event
begin

section \<open>Authorization of events\<close>

text \<open>
  The authorization rules: \<open>state_res/event_auth.rs\<close> (\<open>auth_types_for_event\<close>, \<open>auth_check\<close>),
  \<open>event_auth/membership.rs\<close> (\<open>valid_membership_change\<close>, \<open>verify_third_party_invite\<close>) and
  \<open>event_auth/levels.rs\<close> (\<open>can_send_event\<close>, \<open>check_power_levels\<close>, \<open>check_redaction\<close>).
  \<open>fetch_state\<close>, a future in the source, is a function from a state key to the event the state
  holds there. The verdict is \<open>Inr True\<close> or \<open>Inr False\<close>, an error \<open>Inl\<close>; the one \<open>expect\<close> of the
  code is \<open>Inl Panicked\<close>. Log lines are left out.
\<close>

subsection \<open>The state an event is checked against\<close>

definition push_unique :: "'a list \<Rightarrow> 'a \<Rightarrow> 'a list" where
  "push_unique xs x = (if x \<in> set xs then xs else xs @ [x])"

definition member_auth_types ::
  "'c ruma \<Rightarrow> state_key_pair list \<Rightarrow> string \<Rightarrow> 'c member_fields \<Rightarrow> state_key_pair list"
where
  "member_auth_types R types k mf =
     (case mf_membership mf of
        Some (Some membership) \<Rightarrow>
          let types1 =
                (if membership \<in> {Join, Invite, Knock} then
                   let t = push_unique types (RoomJoinRules, []) in
                   (case mf_join_authorised mf of
                      Some (Some u) \<Rightarrow> push_unique t (RoomMember, u)
                    | _ \<Rightarrow> t)
                 else types);
              types2 = push_unique types1 (RoomMember, k)
          in if membership = Invite then
               (case mf_third_party_invite mf of
                  Some (Some signed_raw) \<Rightarrow>
                    (case de_signed R signed_raw of
                       Some s \<Rightarrow> push_unique types2 (RoomThirdPartyInvite, token s)
                     | None \<Rightarrow> types2)
                | _ \<Rightarrow> types2)
             else types2
      | _ \<Rightarrow> types)"

definition auth_types_for_event ::
  "'c ruma \<Rightarrow> room_version \<Rightarrow> event_type \<Rightarrow> user_id \<Rightarrow> string option \<Rightarrow> 'c \<Rightarrow>
     (auth_error, state_key_pair list) result"
where
  "auth_types_for_event R rv kind user key c =
     (if kind = RoomCreate then Inr []
      else
        let types =
              [(RoomPowerLevels, []), (RoomMember, user)] @
              (if room_create_event_id_as_room_id rv then [] else [(RoomCreate, [])])
        in if kind = RoomMember then
             (case key of
                None \<Rightarrow> Inr types
              | Some k \<Rightarrow>
                  res_bind (ok_or SerdeJson (de_member_fields R c))
                    (\<lambda>mf. Inr (member_auth_types R types k mf)))
           else Inr types)"

subsection \<open>Power levels\<close>

definition get_send_level ::
  "'c ruma \<Rightarrow> event_type \<Rightarrow> string option \<Rightarrow> 'c event option \<Rightarrow> int"
where
  "get_send_level R t key power_lvl =
     (case Option.bind power_lvl (\<lambda>ple. de_power_levels R (content ple)) of
        Some c \<Rightarrow>
          (case map_of (pl_events c) t of
             Some level \<Rightarrow> level
           | None \<Rightarrow> if key \<noteq> None then pl_state_default c else pl_events_default c)
      | None \<Rightarrow> if key \<noteq> None then 50 else 0)"

definition starts_with_at :: "string option \<Rightarrow> bool" where
  "starts_with_at key = (case key of Some (c # _) \<Rightarrow> c = CHR ''@'' | _ \<Rightarrow> False)"

definition can_send_event ::
  "'c ruma \<Rightarrow> 'c event \<Rightarrow> 'c event option \<Rightarrow> user_power \<Rightarrow> bool"
where
  "can_send_event R ev ple user_level =
     (if user_level < Level (get_send_level R (event_type ev) (state_key ev) ple) then False
      else if starts_with_at (state_key ev) \<and> state_key ev \<noteq> Some (sender ev) then False
      else True)"

text \<open>\<open>level(x) > user_level\<close> of the source, on optional levels with \<open>None\<close> lowest.\<close>

definition too_big :: "int option \<Rightarrow> user_power \<Rightarrow> bool" where
  "too_big level user_level \<longleftrightarrow> Some user_level < map_option Level level"

definition unchanged :: "int option \<Rightarrow> int option \<Rightarrow> bool" where
  "unchanged old new \<longleftrightarrow> old \<noteq> None \<and> new \<noteq> None \<and> old = new"

text \<open>
  The loops over the users and the event types return \<open>Some(false)\<close> at the first offending
  key, so they are conjunctions over the keys of both lists.
\<close>

definition check_user_levels ::
  "(user_id \<times> int) list \<Rightarrow> (user_id \<times> int) list \<Rightarrow> user_id \<Rightarrow> user_power \<Rightarrow> bool"
where
  "check_user_levels old_users new_users self user_level =
     list_all (\<lambda>u.
       let old = map_of old_users u; new = map_of new_users u in
       unchanged old new \<or>
       (\<not> (u \<noteq> self \<and> map_option Level old = Some user_level) \<and>
        \<not> (too_big old user_level \<or> too_big new user_level)))
     (map fst old_users @ map fst new_users)"

definition check_event_levels ::
  "(event_type \<times> int) list \<Rightarrow> (event_type \<times> int) list \<Rightarrow> user_power \<Rightarrow> bool"
where
  "check_event_levels old_events new_events user_level =
     list_all (\<lambda>t.
       let old = map_of old_events t; new = map_of new_events t in
       unchanged old new \<or> \<not> (too_big old user_level \<or> too_big new user_level))
     (map fst old_events @ map fst new_events)"

definition check_level_change :: "user_power \<Rightarrow> int \<times> int \<Rightarrow> bool" where
  "check_level_change user_level p =
     (case p of (old, new) \<Rightarrow>
        old = new \<or> \<not> (too_big (Some old) user_level \<or> too_big (Some new) user_level))"

definition check_default_levels :: "power_levels \<Rightarrow> power_levels \<Rightarrow> user_power \<Rightarrow> bool" where
  "check_default_levels old new user_level =
     list_all (check_level_change user_level)
       [(pl_users_default old, pl_users_default new),
        (pl_events_default old, pl_events_default new),
        (pl_state_default old, pl_state_default new),
        (pl_ban old, pl_ban new),
        (pl_redact old, pl_redact new),
        (pl_kick old, pl_kick new),
        (pl_invite old, pl_invite new)]"

definition check_power_levels ::
  "'c ruma \<Rightarrow> room_version \<Rightarrow> 'c event \<Rightarrow> 'c event option \<Rightarrow> user_power \<Rightarrow> user_id list \<Rightarrow> bool option"
where
  "check_power_levels R rv power_event previous user_level creators =
     (if state_key power_event \<noteq> Some [] then None
      else case deserialize_power_levels R (content power_event) rv of
        None \<Rightarrow> None
      | Some new \<Rightarrow>
          if list_ex (\<lambda>c. map_of (pl_users new) c \<noteq> None) creators then Some False
          else (case previous of
            None \<Rightarrow> Some True
          | Some current \<Rightarrow>
              (case deserialize_power_levels R (content current) rv of
                 None \<Rightarrow> None
               | Some old \<Rightarrow>
                   if \<not> check_user_levels (pl_users old) (pl_users new) (sender power_event) user_level
                   then Some False
                   else if \<not> check_event_levels (pl_events old) (pl_events new) user_level
                   then Some False
                   else if limit_notifications_power_levels rv \<and>
                     \<not> check_level_change user_level
                         (pl_notifications_room old, pl_notifications_room new)
                   then Some False
                   else if \<not> check_default_levels old new user_level then Some False
                   else Some True)))"

definition check_redaction :: "'c ruma \<Rightarrow> 'c event \<Rightarrow> user_power \<Rightarrow> int \<Rightarrow> bool" where
  "check_redaction R ev user_level redact_level =
     (if Level redact_level \<le> user_level then True
      else event_server_name R (event_id ev) = Option.bind (redacts ev) (event_server_name R))"

subsection \<open>Third-party invites\<close>

definition starts_with :: "string \<Rightarrow> string \<Rightarrow> bool" where
  "starts_with p s \<longleftrightarrow> take (length p) s = p"

definition ed25519_signatures :: "'c ruma \<Rightarrow> canonical_object \<Rightarrow> bytes list" where
  "ed25519_signatures R by_entity =
     List.map_filter
       (\<lambda>(key_id, s). case s of CanonicalString b \<Rightarrow> parse_base64 R b | _ \<Rightarrow> None)
       (filter (\<lambda>(key_id, s). starts_with ''ed25519:'' key_id)
         (concat (List.map_filter
           (\<lambda>(_, keys). case keys of CanonicalObject ks \<Rightarrow> Some ks | _ \<Rightarrow> None) by_entity)))"

definition signed_by_any :: "'c ruma \<Rightarrow> 'c \<Rightarrow> bytes list \<Rightarrow> bool" where
  "signed_by_any R signed_raw public_keys =
     (case de_canonical R signed_raw of
        None \<Rightarrow> False
      | Some obj \<Rightarrow>
          (case canonical_for_signing R obj of
             None \<Rightarrow> False
           | Some canonical \<Rightarrow>
               (case map_of obj ''signatures'' of
                  Some (CanonicalObject by_entity) \<Rightarrow>
                    list_ex (\<lambda>sig. list_ex (\<lambda>key. verify_ed25519 R key sig canonical) public_keys)
                      (ed25519_signatures R by_entity)
                | _ \<Rightarrow> False)))"

definition third_party_keys :: "'c ruma \<Rightarrow> third_party_content \<Rightarrow> bytes list" where
  "third_party_keys R c =
     List.map_filter (decode_key R) (unwrap_or [] (tpc_public_keys c) @ [tpc_public_key c])"

definition verify_third_party_invite ::
  "'c ruma \<Rightarrow> user_id option \<Rightarrow> user_id \<Rightarrow> 'c \<Rightarrow> 'c event option \<Rightarrow> bool"
where
  "verify_third_party_invite R target_user user signed_raw current =
     (case de_signed R signed_raw of
        None \<Rightarrow> False
      | Some s \<Rightarrow>
          if target_user \<noteq> Some (mxid s) then False
          else (case current of
            None \<Rightarrow> False
          | Some tpid \<Rightarrow>
              if state_key tpid \<noteq> Some (token s) then False
              else if user \<noteq> sender tpid then False
              else (case de_third_party_content R (content tpid) of
                None \<Rightarrow> False
              | Some c \<Rightarrow> signed_by_any R signed_raw (third_party_keys R c))))"

subsection \<open>Membership changes\<close>

text \<open>
  What \<open>valid_membership_change\<close> has read before it branches on the new membership, in the order
  it reads it.
\<close>

record membership_context =
  mc_target :: user_id
  mc_sender :: user_id
  mc_sender_membership :: membership_state
  mc_target_membership :: membership_state
  mc_levels :: power_levels
  mc_sender_power :: "user_power option"
  mc_target_power :: "user_power option"
  mc_join_rule :: join_rule
  mc_join_auth_valid :: bool

definition power_at_least :: "user_power option \<Rightarrow> int \<Rightarrow> bool" where
  "power_at_least p l = (case p of None \<Rightarrow> False | Some q \<Rightarrow> Level l \<le> q)"

definition power_below :: "user_power option \<Rightarrow> int \<Rightarrow> bool" where
  "power_below p l = (case p of None \<Rightarrow> False | Some q \<Rightarrow> q < Level l)"

definition membership_of ::
  "'c ruma \<Rightarrow> 'c event option \<Rightarrow> (auth_error, membership_state) result"
where
  "membership_of R e =
     (case e of
        Some pdu \<Rightarrow> ok_or SerdeJson (de_membership R (content pdu))
      | None \<Rightarrow> Inr Leave)"

definition membership_power ::
  "power_levels \<Rightarrow> user_id list \<Rightarrow> user_id \<Rightarrow> bool \<Rightarrow> user_power option"
where
  "membership_power levels creators u use_default =
     (if u \<in> set creators then Some Infinite
      else map_option Level
        (case map_of (pl_users levels) u of
           Some l \<Rightarrow> Some l
         | None \<Rightarrow> if use_default then Some (pl_users_default levels) else None))"

definition join_auth_is_valid ::
  "'c ruma \<Rightarrow> room_version \<Rightarrow> user_id list \<Rightarrow> 'c event option \<Rightarrow> user_id option \<Rightarrow> membership_state \<Rightarrow>
     (auth_error, bool) result"
where
  "join_auth_is_valid R rv creators power_levels_event user_for_join_auth auth_membership =
     (case user_for_join_auth of
        None \<Rightarrow> Inr False
      | Some u \<Rightarrow>
          (case power_levels_event of
             Some pl \<Rightarrow>
               res_bind (deserialize_power_levels_content_invite R (content pl) rv) (\<lambda>invite.
               res_bind (deserialize_power_levels_content_fields R (content pl) rv) (\<lambda>c.
                 let user_pl =
                       (if u \<in> set creators then Infinite
                        else case get_user_power c u of
                          Some level \<Rightarrow> Level level
                        | None \<Rightarrow> Level (plf_users_default c))
                 in Inr (auth_membership = Join \<and> Level invite \<le> user_pl)))
           | None \<Rightarrow>
               let user_pl = (if u \<in> set creators then Infinite else Level 0)
               in Inr (auth_membership = Join \<and> Level 0 \<le> user_pl)))"

definition creator_joins ::
  "'c ruma \<Rightarrow> room_version \<Rightarrow> membership_context \<Rightarrow> 'c event \<Rightarrow> 'c event \<Rightarrow>
     (auth_error, bool) result"
where
  "creator_joins R rv mc ev create_room =
     (if prev_events ev = [event_id create_room] then
        (if use_room_create_sender rv then
           Inr (sender create_room = mc_sender mc \<and> sender create_room = mc_target mc)
         else
           res_bind (ok_or SerdeJson (de_room_create R (content create_room))) (\<lambda>creator.
           res_bind (ok_or SerdeJson creator) (\<lambda>c.
             Inr (c = mc_sender mc \<and> c = mc_target mc))))
      else Inr False)"

definition join_allowed :: "room_version \<Rightarrow> membership_context \<Rightarrow> bool" where
  "join_allowed rv mc =
     (if mc_sender mc \<noteq> mc_target mc then False
      else if mc_target_membership mc = Ban then False
      else if (mc_join_rule mc = JoinRuleInvite \<or>
               allow_knocking rv \<and> mc_join_rule mc = JoinRuleKnock) \<and>
              (mc_target_membership mc = Join \<or> mc_target_membership mc = Invite) then True
      else if restricted_join_rules rv \<and> mc_join_rule mc = JoinRuleRestricted \<or>
              knock_restricted_join_rule rv \<and> mc_join_rule mc = JoinRuleKnockRestricted then
        (if mc_target_membership mc \<in> {Invite, Join} then True else mc_join_auth_valid mc)
      else mc_join_rule mc = JoinRulePublic)"

definition invite_allowed ::
  "'c ruma \<Rightarrow> membership_context \<Rightarrow> 'c option option \<Rightarrow> 'c event option \<Rightarrow> bool"
where
  "invite_allowed R mc third_party current =
     (case Option.bind third_party id of
        Some signed_raw \<Rightarrow>
          if mc_target_membership mc = Ban then False
          else verify_third_party_invite R (Some (mc_target mc)) (mc_sender mc) signed_raw current
      | None \<Rightarrow>
          if mc_sender_membership mc \<noteq> Join \<or> mc_target_membership mc = Join \<or>
             mc_target_membership mc = Ban then False
          else power_at_least (mc_sender_power mc) (pl_invite (mc_levels mc)))"

definition leave_allowed :: "membership_context \<Rightarrow> bool" where
  "leave_allowed mc =
     (if mc_sender mc = mc_target mc then
        mc_target_membership mc = Join \<or> mc_target_membership mc = Invite \<or>
        mc_target_membership mc = Knock
      else if mc_sender_membership mc \<noteq> Join \<or>
              mc_target_membership mc = Ban \<and>
              power_below (mc_sender_power mc) (pl_ban (mc_levels mc)) then False
      else power_at_least (mc_sender_power mc) (pl_kick (mc_levels mc)) \<and>
           mc_target_power mc < mc_sender_power mc)"

definition ban_allowed :: "membership_context \<Rightarrow> bool" where
  "ban_allowed mc =
     (if mc_sender_membership mc \<noteq> Join then False
      else power_at_least (mc_sender_power mc) (pl_ban (mc_levels mc)) \<and>
           mc_target_power mc < mc_sender_power mc)"

definition knock_allowed :: "room_version \<Rightarrow> membership_context \<Rightarrow> bool" where
  "knock_allowed rv mc =
     (if mc_join_rule mc \<notin> {JoinRuleKnockRestricted, JoinRuleKnock} then False
      else if mc_join_rule mc = JoinRuleKnockRestricted \<and> \<not> knock_restricted_join_rule rv then False
      else if mc_sender mc \<noteq> mc_target mc then False
      else mc_sender_membership mc \<notin> {Ban, Invite, Join})"

text \<open>The dispatch on the membership the event asks for.\<close>

definition membership_verdict ::
  "'c ruma \<Rightarrow> room_version \<Rightarrow> membership_state \<Rightarrow> membership_context \<Rightarrow> 'c event \<Rightarrow>
     'c option option \<Rightarrow> 'c event option \<Rightarrow> 'c event \<Rightarrow> (auth_error, bool) result"
where
  "membership_verdict R rv m mc ev third_party current_third_party create_room =
     (case m of
        Join \<Rightarrow> res_bind (creator_joins R rv mc ev create_room)
                  (\<lambda>is_creator. Inr (is_creator \<or> join_allowed rv mc))
      | Invite \<Rightarrow> Inr (invite_allowed R mc third_party current_third_party)
      | Leave \<Rightarrow> Inr (leave_allowed mc)
      | Ban \<Rightarrow> Inr (ban_allowed mc)
      | Knock \<Rightarrow> Inr (allow_knocking rv \<and> knock_allowed rv mc)
      | CustomMembership _ \<Rightarrow> Inr False)"

definition valid_membership_change ::
  "'c ruma \<Rightarrow> room_version \<Rightarrow> user_id \<Rightarrow> 'c event option \<Rightarrow> user_id \<Rightarrow> 'c event option \<Rightarrow> 'c event \<Rightarrow>
     'c event option \<Rightarrow> 'c event option \<Rightarrow> 'c event option \<Rightarrow> user_id option \<Rightarrow> membership_state \<Rightarrow>
     'c event \<Rightarrow> user_id list \<Rightarrow> (auth_error, bool) result"
where
  "valid_membership_change R rv target_user target_event user sender_event ev third_party_event
       power_event join_rules_event join_auth_user join_auth_membership create_room creators =
     res_bind (ok_or SerdeJson (de_membership R (content ev))) (\<lambda>target_membership.
     res_bind (ok_or SerdeJson (de_third_party_invite R (content ev))) (\<lambda>third_party.
     res_bind (membership_of R sender_event) (\<lambda>sender_membership.
     res_bind (membership_of R target_event) (\<lambda>target_current.
     res_bind (ok_or SerdeJson (de_power_levels R
       (case power_event of Some pl \<Rightarrow> content pl | None \<Rightarrow> empty_object R))) (\<lambda>levels.
     res_bind (case join_rules_event of
         Some jr \<Rightarrow> ok_or SerdeJson (de_join_rules R (content jr))
       | None \<Rightarrow> Inr JoinRuleInvite) (\<lambda>join_rule.
     res_bind (join_auth_is_valid R rv creators power_event join_auth_user join_auth_membership)
       (\<lambda>join_auth.
         membership_verdict R rv target_membership
           \<lparr>mc_target = target_user, mc_sender = user,
            mc_sender_membership = sender_membership, mc_target_membership = target_current,
            mc_levels = levels,
            mc_sender_power = membership_power levels creators user (sender_membership = Join),
            mc_target_power =
              membership_power levels creators target_user (target_membership = Join),
            mc_join_rule = join_rule, mc_join_auth_valid = join_auth\<rparr>
           ev third_party third_party_event create_room)))))))"

subsection \<open>The authorization check\<close>

definition check_room_create ::
  "'c ruma \<Rightarrow> room_version \<Rightarrow> 'c event \<Rightarrow> (auth_error, bool) result"
where
  "check_room_create R rv ev =
     (if prev_events ev \<noteq> [] then Inr False
      else if room_create_event_id_as_room_id rv \<and> \<not> room_id_derives_from R (room_id ev) ev
      then Inr False
      else if \<not> room_create_event_id_as_room_id rv \<and>
        room_server_name R (room_id ev) \<noteq> Some (user_server_name R (sender ev))
      then Inr False
      else res_bind (ok_or SerdeJson (de_create_fields R (content ev))) (\<lambda>cf.
        if cf_room_version cf = Some None then Inr False
        else if additional_room_creators rv \<and> cf_additional_creators cf = Some None then Inr False
        else if \<not> use_room_create_sender rv \<and> cf_creator cf = None then Inr False
        else Inr True))"

text \<open>Whether the event refers to the room's create event the way its version asks for.\<close>

definition create_reference_ok :: "'c ruma \<Rightarrow> room_version \<Rightarrow> 'c event \<Rightarrow> 'c event \<Rightarrow> bool" where
  "create_reference_ok R rv ev create_event =
     (let create_in_auth_events = event_id create_event \<in> set (auth_events ev) in
      if room_create_event_id_as_room_id rv then
        room_id_derives_from R (room_id ev) create_event \<and> \<not> create_in_auth_events
      else create_in_auth_events)"

text \<open>\<open>m.federate\<close> defaults to true.\<close>

definition federation_allows ::
  "'c ruma \<Rightarrow> 'c event \<Rightarrow> 'c event \<Rightarrow> (auth_error, bool) result"
where
  "federation_allows R ev create_event =
     res_bind (ok_or SerdeJson (de_federate R (content create_event))) (\<lambda>f.
       Inr (unwrap_or True f \<or>
            user_server_name R (sender create_event) = user_server_name R (sender ev)))"

definition check_room_member ::
  "'c ruma \<Rightarrow> room_version \<Rightarrow> 'c event \<Rightarrow> 'c event state_map \<Rightarrow> 'c event \<Rightarrow> user_id list \<Rightarrow>
     (auth_error, bool) result"
where
  "check_room_member R rv ev fetch_state create_event creators =
     (case state_key ev of
        None \<Rightarrow> Inr False
      | Some key \<Rightarrow>
          res_bind (ok_or SerdeJson (de_member_fields R (content ev))) (\<lambda>mf.
          if Option.bind (mf_membership mf) id = None then Inr False
          else res_bind (ok_or InvalidPdu (parse_user_id R key)) (\<lambda>target_user.
            let user_for_join_auth = Option.bind (mf_join_authorised mf) id;
                join_auth_event =
                  Option.bind user_for_join_auth (\<lambda>u. fetch_state (RoomMember, u));
                third_party_token =
                  map_option token (Option.bind (Option.bind (mf_third_party_invite mf) id) (de_signed R));
                join_auth_membership =
                  unwrap_or Leave
                    (Option.bind join_auth_event (\<lambda>mem. de_membership R (content mem)))
            in valid_membership_change R rv target_user (fetch_state (RoomMember, target_user))
                 (sender ev) (fetch_state (RoomMember, sender ev)) ev
                 (Option.bind third_party_token (\<lambda>t. fetch_state (RoomThirdPartyInvite, t)))
                 (fetch_state (RoomPowerLevels, [])) (fetch_state (RoomJoinRules, []))
                 user_for_join_auth join_auth_membership create_event creators)))"

definition sender_is_joined ::
  "'c ruma \<Rightarrow> 'c event option \<Rightarrow> (auth_error, bool) result"
where
  "sender_is_joined R sender_member_event =
     (case sender_member_event of
        None \<Rightarrow> Inr False
      | Some mem \<Rightarrow>
          res_bind (ok_or SerdeJson (de_member_fields R (content mem))) (\<lambda>mf.
          res_bind (ok_or Panicked (mf_membership mf)) (\<lambda>raw.
          res_bind (ok_or SerdeJson raw) (\<lambda>m. Inr (m = Join)))))"

definition sender_power_level ::
  "'c ruma \<Rightarrow> room_version \<Rightarrow> user_id \<Rightarrow> 'c event option \<Rightarrow> 'c event \<Rightarrow> user_id list \<Rightarrow>
     (auth_error, user_power) result"
where
  "sender_power_level R rv user power_event create_event creators =
     (if user \<in> set creators then Inr Infinite
      else case power_event of
        Some pl \<Rightarrow>
          res_bind (deserialize_power_levels_content_fields R (content pl) rv) (\<lambda>c.
            Inr (Level (unwrap_or (plf_users_default c) (get_user_power c user))))
      | None \<Rightarrow>
          let is_creator =
                (if use_room_create_sender rv then sender create_event = user
                 else de_room_create R (content create_event) = Some (Some user))
          in Inr (Level (if is_creator then 100 else 0)))"

definition check_send_third_party_invite ::
  "'c ruma \<Rightarrow> room_version \<Rightarrow> 'c event option \<Rightarrow> user_power \<Rightarrow> (auth_error, bool) result"
where
  "check_send_third_party_invite R rv power_event user_level =
     res_bind (case power_event of
         Some pl \<Rightarrow> deserialize_power_levels_content_invite R (content pl) rv
       | None \<Rightarrow> Inr 0) (\<lambda>invite_level. Inr (\<not> user_level < Level invite_level))"

definition redact_level_of ::
  "'c ruma \<Rightarrow> room_version \<Rightarrow> 'c event option \<Rightarrow> (auth_error, int) result"
where
  "redact_level_of R rv power_event =
     (case power_event of
        Some pl \<Rightarrow> deserialize_power_levels_content_redact R (content pl) rv
      | None \<Rightarrow> Inr 50)"

text \<open>The checks on an event whose sender is joined and has power \<open>user_level\<close>.\<close>

definition check_by_power ::
  "'c ruma \<Rightarrow> room_version \<Rightarrow> 'c event \<Rightarrow> 'c event option \<Rightarrow> user_power \<Rightarrow> user_id list \<Rightarrow>
     (auth_error, bool) result"
where
  "check_by_power R rv ev power_event user_level creators =
     (if event_type ev = RoomThirdPartyInvite then
        check_send_third_party_invite R rv power_event user_level
      else if \<not> can_send_event R ev power_event user_level then Inr False
      else if event_type ev = RoomPowerLevels \<and>
        check_power_levels R rv ev power_event user_level creators \<noteq> Some True then Inr False
      else if extra_redaction_checks rv \<and> event_type ev = RoomRedaction then
        res_bind (redact_level_of R rv power_event) (\<lambda>redact_level.
          Inr (check_redaction R ev user_level redact_level))
      else Inr True)"

definition ROOM_ALIASES_TYPE :: string where
  "ROOM_ALIASES_TYPE = ''m.room.aliases''"

definition auth_check ::
  "'c ruma \<Rightarrow> room_version \<Rightarrow> 'c event \<Rightarrow> 'c event state_map \<Rightarrow> (auth_error, bool) result"
where
  "auth_check R rv ev fetch_state =
     (if event_type ev = RoomCreate then check_room_create R rv ev
      else case fetch_state (RoomCreate, []) of
        None \<Rightarrow> Inr False
      | Some create_event \<Rightarrow>
          if \<not> create_reference_ok R rv ev create_event then Inr False
          else
            let creators = privileged_creators R rv create_event;
                power_event = fetch_state (RoomPowerLevels, [])
            in res_bind (federation_allows R ev create_event) (\<lambda>federated.
            if \<not> federated then Inr False
            else if special_case_aliases_auth rv \<and>
              event_type_to_string (event_type ev) = ROOM_ALIASES_TYPE then
              Inr (state_key ev = Some (user_server_name R (sender ev)))
            else if event_type ev = RoomMember then
              check_room_member R rv ev fetch_state create_event creators
            else res_bind (sender_is_joined R (fetch_state (RoomMember, sender ev))) (\<lambda>joined.
            if \<not> joined then Inr False
            else res_bind (sender_power_level R rv (sender ev) power_event create_event creators)
              (\<lambda>user_level. check_by_power R rv ev power_event user_level creators))))"

end
