(* ===== verification/Sample_Codec.thy ===== *)
theory Sample_Codec
  imports Matrix_Event
begin

section \<open>Contents for concrete runs\<close>

text \<open>
  An instance of the parser parameter on a small type of contents, one constructor per content
  the checks read, used to run the definitions on concrete rooms. \<open>ruma_laws\<close> names what the
  lemmas about events rely on of the parsers: the views of a membership content agree on the
  fields they share, and parsing a user id gives back the text.
\<close>

definition ruma_laws :: "'c ruma \<Rightarrow> bool" where
  "ruma_laws R \<longleftrightarrow>
     (\<forall>c mf. de_member_fields R c = Some mf \<longrightarrow>
        de_membership R c = Option.bind (mf_membership mf) id \<and>
        de_third_party_invite R c = Some (mf_third_party_invite mf)) \<and>
     (\<forall>s u. parse_user_id R s = Some u \<longrightarrow> u = s)"

lemma ruma_lawsD:
  assumes "ruma_laws R"
  shows "de_member_fields R c = Some mf \<Longrightarrow> de_membership R c = Option.bind (mf_membership mf) id"
    and "de_member_fields R c = Some mf \<Longrightarrow> de_third_party_invite R c = Some (mf_third_party_invite mf)"
    and "parse_user_id R s = Some u \<Longrightarrow> u = s"
  using assms by (auto simp: ruma_laws_def)

datatype sample_content =
    SEmpty
  | SBroken
  | SCreate "user_id option" "user_id list"
  | SMember membership_state "sample_content option" "user_id option"
  | SPower power_levels
  | SJoinRules join_rule
  | SSigned user_id string string
  | SThirdParty string

definition sample_levels :: power_levels where
  "sample_levels = \<lparr>pl_ban = 50, pl_events = [], pl_events_default = 0, pl_invite = 0, pl_kick = 50,
     pl_redact = 50, pl_state_default = 50, pl_users = [], pl_users_default = 0,
     pl_notifications_room = 50\<rparr>"

fun sample_power_levels :: "sample_content \<Rightarrow> power_levels option" where
  "sample_power_levels (SPower p) = Some p"
| "sample_power_levels SBroken = None"
| "sample_power_levels _ = Some sample_levels"

definition sample_int_levels :: "power_levels \<Rightarrow> int_power_levels" where
  "sample_int_levels p = \<lparr>ipl_ban = Some (pl_ban p), ipl_events = Some (pl_events p),
     ipl_events_default = Some (pl_events_default p), ipl_invite = Some (pl_invite p),
     ipl_kick = Some (pl_kick p), ipl_redact = Some (pl_redact p),
     ipl_state_default = Some (pl_state_default p), ipl_users = Some (pl_users p),
     ipl_users_default = Some (pl_users_default p),
     ipl_notifications = Some (Some (pl_notifications_room p))\<rparr>"

definition sample_fields :: "power_levels \<Rightarrow> raw_content_fields" where
  "sample_fields p = \<lparr>raw_users = Some (pl_users p), raw_users_default = Some (pl_users_default p)\<rparr>"

fun sample_membership :: "sample_content \<Rightarrow> membership_state option" where
  "sample_membership (SMember m _ _) = Some m"
| "sample_membership _ = None"

fun sample_member_fields :: "sample_content \<Rightarrow> sample_content member_fields option" where
  "sample_member_fields (SMember m t a) = Some \<lparr>mf_membership = Some (Some m),
     mf_third_party_invite = map_option Some t, mf_join_authorised = map_option Some a\<rparr>"
| "sample_member_fields SBroken = None"
| "sample_member_fields _ = Some \<lparr>mf_membership = None, mf_third_party_invite = None,
     mf_join_authorised = None\<rparr>"

fun sample_third_party :: "sample_content \<Rightarrow> sample_content option option option" where
  "sample_third_party (SMember m t a) = Some (map_option Some t)"
| "sample_third_party SBroken = None"
| "sample_third_party _ = Some None"

fun sample_create :: "sample_content \<Rightarrow> user_id option option" where
  "sample_create (SCreate c _) = Some c"
| "sample_create SBroken = None"
| "sample_create _ = Some None"

fun sample_additional :: "sample_content \<Rightarrow> user_id list option option" where
  "sample_additional (SCreate _ cs) = Some (Some cs)"
| "sample_additional SBroken = None"
| "sample_additional _ = Some None"

fun sample_create_fields :: "sample_content \<Rightarrow> sample_content create_fields option" where
  "sample_create_fields (SCreate c cs) = Some \<lparr>cf_room_version = None,
     cf_creator = map_option (\<lambda>_. SEmpty) c, cf_additional_creators = Some (Some cs)\<rparr>"
| "sample_create_fields SBroken = None"
| "sample_create_fields _ = Some \<lparr>cf_room_version = None, cf_creator = None,
     cf_additional_creators = None\<rparr>"

fun sample_signed :: "sample_content \<Rightarrow> signed_content option" where
  "sample_signed (SSigned u t _) = Some \<lparr>mxid = u, token = t\<rparr>"
| "sample_signed _ = None"

fun sample_canonical :: "sample_content \<Rightarrow> canonical_object option" where
  "sample_canonical (SSigned u t s) =
     Some [(''mxid'', CanonicalString u),
           (''signatures'', CanonicalObject
             [(''id.org'', CanonicalObject [(''ed25519:0'', CanonicalString s)])]),
           (''token'', CanonicalString t)]"
| "sample_canonical _ = None"

fun sample_join_rule :: "sample_content \<Rightarrow> join_rule option" where
  "sample_join_rule (SJoinRules j) = Some j"
| "sample_join_rule _ = None"

fun sample_third_party_content :: "sample_content \<Rightarrow> third_party_content option" where
  "sample_third_party_content (SThirdParty k) =
     Some \<lparr>tpc_public_keys = None, tpc_public_key = k\<rparr>"
| "sample_third_party_content _ = None"

definition after_colon :: "string \<Rightarrow> string option" where
  "after_colon s = (case dropWhile (\<lambda>c. c \<noteq> CHR '':'') s of [] \<Rightarrow> None | _ # r \<Rightarrow> Some r)"

definition starts_with_sigil :: "string \<Rightarrow> bool" where
  "starts_with_sigil s = (case s of [] \<Rightarrow> False | c # _ \<Rightarrow> c = CHR ''@'')"

definition string_bytes :: "string \<Rightarrow> bytes" where
  "string_bytes s = map of_char s"

definition sample_ruma :: "sample_content ruma" where
  "sample_ruma =
     \<lparr>user_server_name = (\<lambda>u. unwrap_or [] (after_colon u)),
      room_server_name = after_colon, event_server_name = after_colon, parse_event_id = Some,
      parse_user_id = (\<lambda>s. if starts_with_sigil s then Some s else None),
      default_power_level = 50, empty_object = SEmpty,
      de_membership = sample_membership, de_third_party_invite = sample_third_party,
      de_member_fields = sample_member_fields, de_signed = sample_signed,
      de_room_member = sample_membership, de_create_fields = sample_create_fields,
      de_federate = (\<lambda>c. if c = SBroken then None else Some None),
      de_room_create = sample_create, de_create_creator = sample_create,
      de_additional_creators = sample_additional,
      de_power_levels = sample_power_levels,
      de_int_power_levels = (\<lambda>c. map_option sample_int_levels (sample_power_levels c)),
      de_v1_fields = (\<lambda>c. map_option sample_fields (sample_power_levels c)),
      de_int_fields = (\<lambda>c. map_option sample_fields (sample_power_levels c)),
      de_v1_invite = (\<lambda>c. map_option (\<lambda>p. Some (pl_invite p)) (sample_power_levels c)),
      de_int_invite = (\<lambda>c. map_option (\<lambda>p. Some (pl_invite p)) (sample_power_levels c)),
      de_v1_redact = (\<lambda>c. map_option (\<lambda>p. Some (pl_redact p)) (sample_power_levels c)),
      de_int_redact = (\<lambda>c. map_option (\<lambda>p. Some (pl_redact p)) (sample_power_levels c)),
      de_join_rules = sample_join_rule, de_third_party_content = sample_third_party_content,
      decode_key = (\<lambda>s. Some (string_bytes s)), de_canonical = sample_canonical,
      canonical_for_signing = (\<lambda>_. Some ''signed''),
      parse_base64 = (\<lambda>s. Some (string_bytes s)),
      verify_ed25519 = (\<lambda>key sig text. key = sig)\<rparr>"

lemma sample_ruma_laws [simp]: "ruma_laws sample_ruma"
proof -
  have "sample_membership c = Option.bind (mf_membership mf) id \<and>
      sample_third_party c = Some (mf_third_party_invite mf)"
    if "sample_member_fields c = Some mf" for c mf
    using that by (cases c) auto
  then show ?thesis
    by (auto simp: ruma_laws_def sample_ruma_def split: if_splits)
qed

definition sample_event ::
  "event_id \<Rightarrow> user_id \<Rightarrow> event_type \<Rightarrow> sample_content \<Rightarrow> string option \<Rightarrow> event_id list \<Rightarrow>
     event_id list \<Rightarrow> sample_content event"
where
  "sample_event i u t c k prev auth =
     \<lparr>event_id = i, room_id = ''!r:a'', sender = u, origin_server_ts = 0, event_type = t,
      content = c, state_key = k, prev_events = prev, auth_events = auth, redacts = None\<rparr>"

text \<open>
  A room: alice (power 100) created it, bob (50) and carol (0) are joined, mallory is banned, and
  the join rule is public.
\<close>

definition sample_create_event :: "sample_content event" where
  "sample_create_event =
     sample_event ''$create'' ''@alice:a'' RoomCreate (SCreate (Some ''@alice:a'') []) (Some []) [] []"

definition sample_member :: "event_id \<Rightarrow> user_id \<Rightarrow> membership_state \<Rightarrow> sample_content event" where
  "sample_member i u m =
     sample_event i u RoomMember (SMember m None None) (Some u) [''$create''] [''$create'']"

definition sample_room_levels :: power_levels where
  "sample_room_levels =
     sample_levels\<lparr>pl_users := [(''@alice:a'', 100), (''@bob:a'', 50)]\<rparr>"

definition sample_room :: "sample_content event state_map" where
  "sample_room = map_of
     [((RoomCreate, []), sample_create_event),
      ((RoomMember, ''@alice:a''), sample_member ''$alice'' ''@alice:a'' Join),
      ((RoomMember, ''@bob:a''), sample_member ''$bob'' ''@bob:a'' Join),
      ((RoomMember, ''@carol:a''), sample_member ''$carol'' ''@carol:a'' Join),
      ((RoomMember, ''@mallory:a''), sample_member ''$mallory'' ''@mallory:a'' Ban),
      ((RoomPowerLevels, []), sample_event ''$power'' ''@alice:a'' RoomPowerLevels
         (SPower sample_room_levels) (Some []) [''$alice''] [''$create'', ''$alice'']),
      ((RoomJoinRules, []), sample_event ''$rules'' ''@alice:a'' RoomJoinRules
         (SJoinRules JoinRulePublic) (Some []) [''$power''] [''$create'', ''$alice'', ''$power'']),
      ((RoomThirdPartyInvite, ''tok''), sample_event ''$third'' ''@bob:a'' RoomThirdPartyInvite
         (SThirdParty ''key'') (Some ''tok'') [''$rules''] [''$create'', ''$bob'', ''$power''])]"

text \<open>An event sent to the room, naming its create event.\<close>

definition sample_sent ::
  "user_id \<Rightarrow> event_type \<Rightarrow> sample_content \<Rightarrow> string option \<Rightarrow> sample_content event"
where
  "sample_sent u t c k = sample_event ''$new'' u t c k [''$rules''] [''$create'']"

text \<open>
  The events of the room as the server stores them: after the power levels and the join rules bob
  joins, alice and bob set the topic, and alice bans bob. \<open>sample_rank\<close> is an order of the events in which
  each comes after its auth events.
\<close>

definition sample_store :: "(event_id \<times> sample_content event) list" where
  "sample_store = map (\<lambda>e. (event_id e, e))
     [sample_create_event,
      sample_event ''$alice'' ''@alice:a'' RoomMember (SMember Join None None) (Some ''@alice:a'')
        [''$create''] [''$create''],
      sample_event ''$power'' ''@alice:a'' RoomPowerLevels (SPower sample_room_levels) (Some [])
        [''$alice''] [''$create'', ''$alice''],
      sample_event ''$rules'' ''@alice:a'' RoomJoinRules (SJoinRules JoinRulePublic) (Some [])
        [''$power''] [''$create'', ''$alice'', ''$power''],
      sample_event ''$bob'' ''@bob:a'' RoomMember (SMember Join None None) (Some ''@bob:a'')
        [''$rules''] [''$create'', ''$power'', ''$rules''],
      sample_event ''$topicA'' ''@alice:a'' (OtherType ''m.room.topic'') SEmpty (Some [])
        [''$bob''] [''$create'', ''$alice'', ''$power''],
      sample_event ''$topicB'' ''@bob:a'' (OtherType ''m.room.topic'') SEmpty (Some [])
        [''$bob''] [''$create'', ''$bob'', ''$power''],
      sample_event ''$ban'' ''@alice:a'' RoomMember (SMember Ban None None) (Some ''@bob:a'')
        [''$bob''] [''$create'', ''$alice'', ''$power'', ''$bob'']]"

definition sample_fetch :: "event_id \<Rightarrow> sample_content event option" where
  "sample_fetch = map_of sample_store"

fun position :: "'a \<Rightarrow> 'a list \<Rightarrow> nat" where
  "position x [] = 0"
| "position x (y # ys) = (if x = y then 0 else Suc (position x ys))"

definition sample_rank :: "event_id \<Rightarrow> nat" where
  "sample_rank e = position e (map fst sample_store)"

lemma sample_rank_less:
  assumes "sample_fetch e = Some ev" and "a \<in> set (auth_events ev)"
  shows "sample_rank a < sample_rank e"
proof -
  have "(e, ev) \<in> set sample_store"
    using assms(1) by (simp add: sample_fetch_def map_of_SomeD)
  moreover have "list_all (\<lambda>(e, ev). list_all (\<lambda>a. sample_rank a < sample_rank e) (auth_events ev))
      sample_store"
    by code_simp
  ultimately show ?thesis
    using assms(2) by (auto simp: list_all_iff)
qed

end
