(* ===== verification/Event_Auth_Rules.thy ===== *)
theory Event_Auth_Rules
  imports Event_Auth Sample_Codec
begin

section \<open>What an accepted event guarantees\<close>

text \<open>
  The properties of \<open>auth_check\<close>: what the state must hold for an event to be accepted, and that
  the verdict depends on the state at the keys of \<open>auth_types_for_event\<close> only. The definitions
  below name the parts of the state the rules speak of.
\<close>

definition current_membership ::
  "'c ruma \<Rightarrow> 'c event state_map \<Rightarrow> user_id \<Rightarrow> membership_state option"
where
  "current_membership R st u =
     (case membership_of R (st (RoomMember, u)) of Inl _ \<Rightarrow> None | Inr m \<Rightarrow> Some m)"

definition current_levels :: "'c ruma \<Rightarrow> 'c event state_map \<Rightarrow> power_levels option" where
  "current_levels R st =
     de_power_levels R (case st (RoomPowerLevels, []) of Some pl \<Rightarrow> content pl | None \<Rightarrow> empty_object R)"

definition current_join_rule :: "'c ruma \<Rightarrow> 'c event state_map \<Rightarrow> join_rule option" where
  "current_join_rule R st =
     (case st (RoomJoinRules, []) of
        Some jr \<Rightarrow> de_join_rules R (content jr)
      | None \<Rightarrow> Some JoinRuleInvite)"

definition current_creators ::
  "'c ruma \<Rightarrow> room_version \<Rightarrow> 'c event state_map \<Rightarrow> user_id list"
where
  "current_creators R rv st =
     (case st (RoomCreate, []) of None \<Rightarrow> [] | Some ce \<Rightarrow> privileged_creators R rv ce)"

text \<open>
  The creator of a room: the sender of its create event, or in older versions the user its content names.
  The creator's own join directly after the create event is the one join the join rule does not decide.
\<close>

definition room_creator :: "'c ruma \<Rightarrow> room_version \<Rightarrow> 'c event \<Rightarrow> user_id option" where
  "room_creator R rv ce =
     (if use_room_create_sender rv then Some (sender ce) else Option.bind (de_room_create R (content ce)) id)"

definition creators_first_join :: "'c ruma \<Rightarrow> room_version \<Rightarrow> 'c event state_map \<Rightarrow> 'c event \<Rightarrow> bool" where
  "creators_first_join R rv st ev \<longleftrightarrow>
     (\<exists>ce. st (RoomCreate, []) = Some ce \<and> prev_events ev = [event_id ce] \<and>
        room_creator R rv ce = Some (sender ev) \<and> state_key ev = Some (sender ev) \<and>
        de_membership R (content ev) = Some Join)"

text \<open>Events sent to the sample room.\<close>

definition sample_topic :: "sample_content event" where
  "sample_topic = sample_sent ''@bob:a'' (OtherType ''m.room.topic'') SEmpty (Some [])"

definition sample_unban :: "sample_content event" where
  "sample_unban = sample_sent ''@bob:a'' RoomMember (SMember Leave None None) (Some ''@mallory:a'')"

definition sample_kick :: "sample_content event" where
  "sample_kick = sample_sent ''@bob:a'' RoomMember (SMember Leave None None) (Some ''@carol:a'')"

definition sample_join :: "sample_content event" where
  "sample_join = sample_sent ''@dave:a'' RoomMember (SMember Join None None) (Some ''@dave:a'')"

definition sample_invite :: "sample_content event" where
  "sample_invite = sample_sent ''@bob:a'' RoomMember
     (SMember Invite (Some (SSigned ''@dave:a'' ''tok'' ''key'')) None) (Some ''@dave:a'')"

definition sample_new_levels :: power_levels where
  "sample_new_levels =
     sample_room_levels\<lparr>pl_users := [(''@alice:a'', 100), (''@bob:a'', 50), (''@carol:a'', 50)]\<rparr>"

definition sample_promotion :: "sample_content event" where
  "sample_promotion =
     sample_sent ''@bob:a'' RoomPowerLevels (SPower sample_new_levels) (Some [])"

subsection \<open>Inversion\<close>

lemma auth_check_accepts:
  assumes "auth_check R rv ev st = Inr True" and "event_type ev \<noteq> RoomCreate"
  obtains create_event where "st (RoomCreate, []) = Some create_event"
    and "create_reference_ok R rv ev create_event"
    and "federation_allows R ev create_event = Inr True"
    and "(special_case_aliases_auth rv \<and> event_type_to_string (event_type ev) = ROOM_ALIASES_TYPE \<and>
           state_key ev = Some (user_server_name R (sender ev))) \<or>
         (event_type ev = RoomMember \<and>
           check_room_member R rv ev st create_event (privileged_creators R rv create_event)
             = Inr True) \<or>
         (event_type ev \<noteq> RoomMember \<and>
           sender_is_joined R (st (RoomMember, sender ev)) = Inr True \<and>
           (\<exists>p. sender_power_level R rv (sender ev) (st (RoomPowerLevels, [])) create_event
               (privileged_creators R rv create_event) = Inr p \<and>
             check_by_power R rv ev (st (RoomPowerLevels, [])) p
               (privileged_creators R rv create_event) = Inr True))"
  using assms
  by (auto simp: auth_check_def Let_def res_bind_Inr_iff split: option.splits if_splits)

text \<open>What the membership rules see of the state when they accept.\<close>

lemma member_check_accepts:
  assumes "ruma_laws R"
    and "check_room_member R rv ev st create_event creators = Inr True"
  obtains key m mc mf where "state_key ev = Some key" and "mc_target mc = key"
    and "mc_sender mc = sender ev"
    and "de_member_fields R (content ev) = Some mf"
    and "de_membership R (content ev) = Some m"
    and "current_membership R st (sender ev) = Some (mc_sender_membership mc)"
    and "current_membership R st key = Some (mc_target_membership mc)"
    and "current_levels R st = Some (mc_levels mc)"
    and "mc_sender_power mc =
      membership_power (mc_levels mc) creators (sender ev) (mc_sender_membership mc = Join)"
    and "mc_target_power mc = membership_power (mc_levels mc) creators key (m = Join)"
    and "current_join_rule R st = Some (mc_join_rule mc)"
    and "join_auth_is_valid R rv creators (st (RoomPowerLevels, [])) (Option.bind (mf_join_authorised mf) id)
      (unwrap_or Leave (Option.bind (Option.bind (Option.bind (mf_join_authorised mf) id)
         (\<lambda>v. st (RoomMember, v))) (\<lambda>mem. de_membership R (content mem))))
      = Inr (mc_join_auth_valid mc)"
    and "membership_verdict R rv m mc ev (mf_third_party_invite mf)
      (Option.bind (map_option token (Option.bind (Option.bind (mf_third_party_invite mf) id)
         (de_signed R))) (\<lambda>t. st (RoomThirdPartyInvite, t))) create_event = Inr True"
proof -
  note laws = ruma_lawsD [OF assms(1)]
  from assms(2) obtain key mf target where key: "state_key ev = Some key"
    and mf: "de_member_fields R (content ev) = Some mf"
    and target: "parse_user_id R key = Some target"
    by (auto simp: check_room_member_def res_bind_Inr_iff split: option.splits if_splits)
  have "target = key" using laws(3) [OF target] .
  with assms(2) key mf target laws(2) [OF mf] show thesis
    by (auto simp: check_room_member_def valid_membership_change_def res_bind_Inr_iff Let_def
          current_membership_def current_levels_def current_join_rule_def
          split: option.splits if_splits intro!: that)
qed

subsection \<open>Senders\<close>

lemma sender_is_joined_iff:
  assumes "ruma_laws R"
  shows "sender_is_joined R e = Inr True \<longleftrightarrow>
     (\<exists>mem mf. e = Some mem \<and> de_member_fields R (content mem) = Some mf \<and>
        de_membership R (content mem) = Some Join)"
  using ruma_lawsD(1) [OF assms]
  by (auto simp: sender_is_joined_def res_bind_Inr_iff bind_eq_Some_conv split: option.splits)

text \<open>
  An event that is neither a create event, nor a membership, nor an aliases event of an old
  room version is accepted only if its sender is joined and has at least the power its type
  needs: the invite level for a third-party invite, the send level of the type otherwise; and an
  accepted state event whose key is a user id is keyed by its sender.
\<close>

theorem accepted_sender_joined:
  assumes "ruma_laws R" and "auth_check R rv ev st = Inr True"
    and "event_type ev \<noteq> RoomCreate" and "event_type ev \<noteq> RoomMember"
    and "event_type_to_string (event_type ev) \<noteq> ROOM_ALIASES_TYPE"
  shows "current_membership R st (sender ev) = Some Join \<and>
    (\<exists>ce p. st (RoomCreate, []) = Some ce \<and> create_reference_ok R rv ev ce \<and>
      sender_power_level R rv (sender ev) (st (RoomPowerLevels, [])) ce (current_creators R rv st)
        = Inr p \<and>
      (if event_type ev = RoomThirdPartyInvite
       then check_send_third_party_invite R rv (st (RoomPowerLevels, [])) p = Inr True
       else Level (get_send_level R (event_type ev) (state_key ev) (st (RoomPowerLevels, []))) \<le> p \<and>
         (starts_with_at (state_key ev) \<longrightarrow> state_key ev = Some (sender ev))))"
proof -
  from assms obtain ce p where ce: "st (RoomCreate, []) = Some ce" "create_reference_ok R rv ev ce"
    and joined: "sender_is_joined R (st (RoomMember, sender ev)) = Inr True"
    and p: "sender_power_level R rv (sender ev) (st (RoomPowerLevels, [])) ce
      (privileged_creators R rv ce) = Inr p"
    and chk: "check_by_power R rv ev (st (RoomPowerLevels, [])) p (privileged_creators R rv ce) = Inr True"
    by (auto elim!: auth_check_accepts)
  from joined sender_is_joined_iff [OF assms(1)]
  have "current_membership R st (sender ev) = Some Join"
    by (auto simp: current_membership_def membership_of_def ok_or_def)
  moreover from chk have "if event_type ev = RoomThirdPartyInvite
       then check_send_third_party_invite R rv (st (RoomPowerLevels, [])) p = Inr True
       else can_send_event R ev (st (RoomPowerLevels, [])) p"
    by (auto simp: check_by_power_def split: if_splits)
  ultimately show ?thesis using ce p
    by (auto simp: current_creators_def can_send_event_def not_less split: if_splits)
qed

theorem accepted_sender_joined_witness:
  "current_membership sample_ruma sample_room (sender sample_topic) = Some Join"
  by (rule accepted_sender_joined [OF sample_ruma_laws, of RV10, THEN conjunct1]; code_simp)

subsection \<open>Bans, removals and invites\<close>

lemmas membership_rules = membership_verdict_def res_bind_Inr_iff creator_joins_def
  join_allowed_def invite_allowed_def leave_allowed_def ban_allowed_def knock_allowed_def

lemma power_below_iff: "p \<noteq> None \<Longrightarrow> power_below p l \<longleftrightarrow> \<not> power_at_least p l"
  by (auto simp: power_below_def power_at_least_def not_le split: option.splits)

lemma power_at_least_Some_iff: "power_at_least p l \<longleftrightarrow> (\<exists>q. p = Some q \<and> Level l \<le> q)"
  by (auto simp: power_at_least_def split: option.splits)

lemma membership_power_True [simp]: "membership_power levels creators u True \<noteq> None"
  by (auto simp: membership_power_def split: option.splits)

lemma less_option_Some_iff: "x < Some y \<longleftrightarrow> (\<forall>z. x = Some z \<longrightarrow> z < y)"
  for y :: "'a::preorder"
  by (cases x) auto

lemma membership_power_less_iff:
  "membership_power levels creators u False < Some p \<longleftrightarrow>
     u \<notin> set creators \<and> (\<forall>l. map_of (pl_users levels) u = Some l \<longrightarrow> Level l < p)"
  by (auto simp: membership_power_def less_option_Some_iff split: option.splits)

lemma member_event_cases:
  assumes "ruma_laws R" and "auth_check R rv ev st = Inr True" and "event_type ev = RoomMember"
    and "state_key ev = Some u"
  obtains ce m mc mf where "st (RoomCreate, []) = Some ce"
    and "mc_target mc = u" and "mc_sender mc = sender ev"
    and "de_member_fields R (content ev) = Some mf"
    and "de_membership R (content ev) = Some m"
    and "current_membership R st (sender ev) = Some (mc_sender_membership mc)"
    and "current_membership R st u = Some (mc_target_membership mc)"
    and "current_levels R st = Some (mc_levels mc)"
    and "mc_sender_power mc = membership_power (mc_levels mc) (current_creators R rv st)
      (sender ev) (mc_sender_membership mc = Join)"
    and "mc_target_power mc =
      membership_power (mc_levels mc) (current_creators R rv st) u (m = Join)"
    and "current_join_rule R st = Some (mc_join_rule mc)"
    and "join_auth_is_valid R rv (current_creators R rv st) (st (RoomPowerLevels, []))
      (Option.bind (mf_join_authorised mf) id)
      (unwrap_or Leave (Option.bind (Option.bind (Option.bind (mf_join_authorised mf) id)
         (\<lambda>v. st (RoomMember, v))) (\<lambda>mem. de_membership R (content mem))))
      = Inr (mc_join_auth_valid mc)"
    and "membership_verdict R rv m mc ev (mf_third_party_invite mf)
      (Option.bind (map_option token (Option.bind (Option.bind (mf_third_party_invite mf) id)
         (de_signed R))) (\<lambda>t. st (RoomThirdPartyInvite, t))) ce = Inr True"
proof -
  obtain ce where ce: "st (RoomCreate, []) = Some ce"
    "check_room_member R rv ev st ce (current_creators R rv st) = Inr True"
    using assms(2,3) by (auto elim!: auth_check_accepts simp: current_creators_def ROOM_ALIASES_TYPE_def)
  from assms(1) ce(2) show thesis
    by (cases rule: member_check_accepts) (use assms(4) ce(1) in \<open>auto intro!: that\<close>)
qed

lemma creator_joinsD:
  assumes "creator_joins R rv mc ev ce = Inr True" and "st (RoomCreate, []) = Some ce" and "mc_target mc = u"
    and "mc_sender mc = sender ev" and "state_key ev = Some u" and "de_membership R (content ev) = Some Join"
  shows "creators_first_join R rv st ev"
  using assms
  by (auto simp: creator_joins_def creators_first_join_def room_creator_def res_bind_Inr_iff split: if_splits)

text \<open>
  C3: A banned user cannot come back by itself. When the state holds a ban of the user an accepted
  member event is about, its sender is joined, hence somebody else, and the event either renews
  the ban or lifts it, which takes the power to ban. The one exception is the creator of the room,
  whose own join is accepted while the create event is all that precedes it.
\<close>

theorem banned_user_stays_out:
  assumes "ruma_laws R" and "auth_check R rv ev st = Inr True" and "event_type ev = RoomMember"
    and "state_key ev = Some u" and "current_membership R st u = Some Ban"
  shows "creators_first_join R rv st ev \<or>
    current_membership R st (sender ev) = Some Join \<and> sender ev \<noteq> u \<and>
    (de_membership R (content ev) = Some Ban \<or>
     de_membership R (content ev) = Some Leave \<and>
       (\<exists>levels. current_levels R st = Some levels \<and>
          power_at_least (membership_power levels (current_creators R rv st) (sender ev) True)
            (pl_ban levels)))"
  using assms(1-4)
proof (cases rule: member_event_cases)
  case (1 ce m mc mf)
  have "creators_first_join R rv st ev \<or> join_allowed rv mc" if "m = Join"
    using creator_joinsD [where st = st, OF _ 1(1-3) assms(4)] 1(5,13) that by (auto simp: membership_verdict_def res_bind_Inr_iff)
  moreover have "\<not> join_allowed rv mc" using 1(7) assms(5) by (simp add: join_allowed_def)
  moreover have "current_membership R st (sender ev) = Some Join \<longrightarrow> sender ev \<noteq> u" using assms(5) by auto
  ultimately show ?thesis
    using 1 assms(5)
    by (cases m) (auto simp: membership_verdict_def invite_allowed_def leave_allowed_def ban_allowed_def
        knock_allowed_def power_below_iff split: if_splits option.splits)
qed

theorem banned_user_stays_out_witness:
  "current_membership sample_ruma sample_room (sender sample_unban) = Some Join"
proof -
  have "creators_first_join sample_ruma RV10 sample_room sample_unban \<or>
      current_membership sample_ruma sample_room (sender sample_unban) = Some Join \<and> sender sample_unban \<noteq> ''@mallory:a'' \<and>
      (de_membership sample_ruma (content sample_unban) = Some Ban \<or>
       de_membership sample_ruma (content sample_unban) = Some Leave \<and>
         (\<exists>levels. current_levels sample_ruma sample_room = Some levels \<and>
            power_at_least (membership_power levels (current_creators sample_ruma RV10 sample_room) (sender sample_unban) True)
              (pl_ban levels)))"
    by (rule banned_user_stays_out [OF sample_ruma_laws]; code_simp)
  moreover have "\<not> creators_first_join sample_ruma RV10 sample_room sample_unban"
    by (simp add: creators_first_join_def sample_unban_def sample_sent_def sample_event_def)
  ultimately show ?thesis by blast
qed

definition may_vouch ::
  "'c ruma \<Rightarrow> room_version \<Rightarrow> user_id list \<Rightarrow> 'c event option \<Rightarrow> user_id \<Rightarrow> bool"
where
  "may_vouch R rv creators power_event v =
     (case power_event of
        None \<Rightarrow> True
      | Some pl \<Rightarrow>
          (case (deserialize_power_levels_content_invite R (content pl) rv,
                 deserialize_power_levels_content_fields R (content pl) rv) of
             (Inr invite, Inr c) \<Rightarrow>
               v \<in> set creators \<or> invite \<le> unwrap_or (plf_users_default c) (get_user_power c v)
           | _ \<Rightarrow> False))"

lemma join_auth_is_validD:
  assumes "join_auth_is_valid R rv cs pe v m = Inr True"
  shows "\<exists>u. v = Some u \<and> m = Join \<and> may_vouch R rv cs pe u"
  using assms
  by (auto simp: join_auth_is_valid_def may_vouch_def unwrap_or_def res_bind_Inr_iff Let_def
      split: option.splits if_splits)

text \<open>
  C27: A user joins only by itself. Apart from the creator of the room joining directly after the create
  event, the user is not banned, and the join rule admits the join: the room is public; or the user is
  invited or joined already, under a rule that the version of the room knows and that asks for it; or such a
  rule is restricted and a joined user, whose power reaches the invite level, vouches for the join.
\<close>

theorem join_needs_rule:
  assumes "ruma_laws R" and "auth_check R rv ev st = Inr True" and "event_type ev = RoomMember"
    and "state_key ev = Some u" and "de_membership R (content ev) = Some Join"
    and "de_member_fields R (content ev) = Some mf"
  shows "sender ev = u \<and>
    (creators_first_join R rv st ev \<or>
     current_membership R st u \<noteq> Some Ban \<and>
     (\<exists>rule. current_join_rule R st = Some rule \<and>
       (rule = JoinRulePublic \<or>
        (current_membership R st u = Some Join \<or> current_membership R st u = Some Invite) \<and>
          (rule = JoinRuleInvite \<or> allow_knocking rv \<and> rule = JoinRuleKnock \<or>
           restricted_join_rules rv \<and> rule = JoinRuleRestricted \<or>
           knock_restricted_join_rule rv \<and> rule = JoinRuleKnockRestricted) \<or>
        (restricted_join_rules rv \<and> rule = JoinRuleRestricted \<or>
         knock_restricted_join_rule rv \<and> rule = JoinRuleKnockRestricted) \<and>
          (\<exists>v. mf_join_authorised mf = Some (Some v) \<and> current_membership R st v = Some Join \<and>
             may_vouch R rv (current_creators R rv st) (st (RoomPowerLevels, [])) v))))"
  using assms(1-4)
proof (cases rule: member_event_cases)
  case (1 ce m mc mf')
  have vouched: "\<exists>v. mf_join_authorised mf = Some (Some v) \<and> current_membership R st v = Some Join \<and>
      may_vouch R rv (current_creators R rv st) (st (RoomPowerLevels, [])) v"
    if "mc_join_auth_valid mc"
    using join_auth_is_validD 1(4,12) that assms(6)
    by (fastforce simp: unwrap_or_def bind_eq_Some_conv current_membership_def membership_of_def ok_or_def
        split: option.splits)
  have "creators_first_join R rv st ev \<or> join_allowed rv mc"
    using creator_joinsD [where st = st, OF _ 1(1-3) assms(4,5)] 1(5,13) assms(5)
    by (auto simp: membership_verdict_def res_bind_Inr_iff)
  then show ?thesis
  proof
    assume "creators_first_join R rv st ev"
    then show ?thesis using assms(4) by (auto simp: creators_first_join_def)
  next
    assume "join_allowed rv mc"
    then show ?thesis using 1 vouched by (auto simp: join_allowed_def split: if_splits)
  qed
qed

theorem join_needs_rule_witness:
  "sender sample_join = ''@dave:a''"
  by (rule join_needs_rule [OF sample_ruma_laws, of RV10 _ sample_room _
        "the (sample_member_fields (content sample_join))", THEN conjunct1]; code_simp)

text \<open>
  C26: Removing somebody takes rank. An accepted kick, ban or lifting of a ban by another user comes from a
  joined user whose power reaches the level for it: the kick level, and the ban level as well where a ban is
  lifted; or the ban level. A privileged creator of the room is never removed, and a user for whom the power
  levels list a power only by somebody whose power is strictly higher. A user they do not list has the
  default power, with which nothing is compared.
\<close>

theorem removal_needs_power:
  assumes "ruma_laws R" and "auth_check R rv ev st = Inr True" and "event_type ev = RoomMember"
    and "state_key ev = Some u" and "sender ev \<noteq> u"
    and "de_membership R (content ev) = Some m" and "m = Leave \<or> m = Ban"
  shows "current_membership R st (sender ev) = Some Join \<and> u \<notin> set (current_creators R rv st) \<and>
    (\<exists>levels p. current_levels R st = Some levels \<and>
       membership_power levels (current_creators R rv st) (sender ev) True = Some p \<and>
       Level (if m = Leave then pl_kick levels else pl_ban levels) \<le> p \<and>
       (current_membership R st u = Some Ban \<longrightarrow> Level (pl_ban levels) \<le> p) \<and>
       (\<forall>l. map_of (pl_users levels) u = Some l \<longrightarrow> Level l < p))"
  using assms(1-4)
proof (cases rule: member_event_cases)
  case (1 ce m' mc mf)
  then have joined: "mc_sender_membership mc = Join"
    and pow: "power_at_least (mc_sender_power mc)
      (if m = Leave then pl_kick (mc_levels mc) else pl_ban (mc_levels mc))"
    and less: "mc_target_power mc < mc_sender_power mc"
    and lifted: "mc_target_membership mc = Ban \<Longrightarrow> m = Leave \<Longrightarrow> \<not> power_below (mc_sender_power mc) (pl_ban (mc_levels mc))"
    using assms(5-7) by (auto simp: membership_rules split: if_splits)
  from pow obtain p where p: "mc_sender_power mc = Some p"
    "Level (if m = Leave then pl_kick (mc_levels mc) else pl_ban (mc_levels mc)) \<le> p"
    by (auto simp: power_at_least_Some_iff)
  have "Level (pl_ban (mc_levels mc)) \<le> p" if "current_membership R st u = Some Ban"
    using lifted p that 1(7) assms(7) by (auto simp: power_below_def not_less)
  moreover have "membership_power (mc_levels mc) (current_creators R rv st) u False < Some p"
    using less p 1(5,10) assms(6,7) by auto
  ultimately show ?thesis using joined p 1 by (simp add: membership_power_less_iff)
qed

theorem removal_needs_power_witness:
  "''@carol:a'' \<notin> set (current_creators sample_ruma RV10 sample_room)"
  by (rule removal_needs_power [OF sample_ruma_laws, of _ sample_kick _ _ Leave,
        THEN conjunct2, THEN conjunct1]; code_simp)

lemma map_filter_mem: "y \<in> set (List.map_filter f xs) \<longleftrightarrow> (\<exists>x \<in> set xs. f x = Some y)"
  by (induction xs) (auto simp: List.map_filter_simps split: option.splits)

lemma ed25519_signatures_mem:
  assumes "sig \<in> set (ed25519_signatures R by_entity)"
  shows "\<exists>entity keys key_id signature. (entity, CanonicalObject keys) \<in> set by_entity \<and>
    (key_id, CanonicalString signature) \<in> set keys \<and> take 8 key_id = ''ed25519:'' \<and> parse_base64 R signature = Some sig"
proof -
  obtain key_id entry where entry: "(key_id, entry) \<in> set (concat (List.map_filter
         (\<lambda>(_, keys). case keys of CanonicalObject ks \<Rightarrow> Some ks | _ \<Rightarrow> None) by_entity))"
      "starts_with ''ed25519:'' key_id" "(case entry of CanonicalString b \<Rightarrow> parse_base64 R b | _ \<Rightarrow> None) = Some sig"
    using assms by (auto simp: ed25519_signatures_def map_filter_mem)
  moreover from entry(3) obtain signature where "entry = CanonicalString signature" "parse_base64 R signature = Some sig"
    by (auto split: canonical_json.splits)
  moreover from entry(1) obtain entity keys where "(entity, CanonicalObject keys) \<in> set by_entity" "(key_id, entry) \<in> set keys"
    by (auto simp: map_filter_mem split: canonical_json.splits)
  moreover have "take 8 key_id = ''ed25519:''" using entry(2) by (simp add: starts_with_def numeral_eq_Suc)
  ultimately show ?thesis by blast
qed

lemma third_party_keys_mem:
  assumes "key \<in> set (third_party_keys R c)"
  shows "\<exists>encoded. decode_key R encoded = Some key \<and>
    (encoded = tpc_public_key c \<or> (\<exists>more. tpc_public_keys c = Some more \<and> encoded \<in> set more))"
  using assms by (auto simp: third_party_keys_def map_filter_mem unwrap_or_def split: option.splits)

text \<open>
  C28: An accepted invite that carries a third-party signature names the invited user in the
  signed block, the room holds the third-party invite its token names, sent by the same sender,
  and one of the public keys of that event verifies a signature that the block itself carries under an
  ed25519 key id, over the canonical form of the block; the invited user is not banned.
\<close>

theorem third_party_invite_verified:
  assumes "ruma_laws R" and "auth_check R rv ev st = Inr True" and "event_type ev = RoomMember"
    and "state_key ev = Some u" and "de_membership R (content ev) = Some Invite"
    and "de_member_fields R (content ev) = Some mf"
    and "mf_third_party_invite mf = Some (Some signed_raw)"
  shows "current_membership R st u \<noteq> Some Ban \<and>
    (\<exists>s tpid c obj canonical key encoded by_entity entity keys key_id signature sig.
       de_signed R signed_raw = Some s \<and> mxid s = u \<and>
       st (RoomThirdPartyInvite, token s) = Some tpid \<and> state_key tpid = Some (token s) \<and>
       sender tpid = sender ev \<and> de_third_party_content R (content tpid) = Some c \<and>
       (encoded = tpc_public_key c \<or> (\<exists>more. tpc_public_keys c = Some more \<and> encoded \<in> set more)) \<and>
       decode_key R encoded = Some key \<and>
       de_canonical R signed_raw = Some obj \<and> map_of obj ''signatures'' = Some (CanonicalObject by_entity) \<and>
       (entity, CanonicalObject keys) \<in> set by_entity \<and> (key_id, CanonicalString signature) \<in> set keys \<and>
       take 8 key_id = ''ed25519:'' \<and> parse_base64 R signature = Some sig \<and>
       canonical_for_signing R obj = Some canonical \<and> verify_ed25519 R key sig canonical)"
  using assms(1-4)
proof (cases rule: member_event_cases)
  case (1 ce m mc mf')
  then have "mc_target_membership mc \<noteq> Ban"
    and "verify_third_party_invite R (Some u) (sender ev) signed_raw
      (Option.bind (map_option token (de_signed R signed_raw)) (\<lambda>t. st (RoomThirdPartyInvite, t)))"
    using assms(5-7) by (auto simp: membership_rules split: if_splits)
  then obtain s tpid c where s: "de_signed R signed_raw = Some s" "mxid s = u"
      "st (RoomThirdPartyInvite, token s) = Some tpid" "state_key tpid = Some (token s)"
      "sender tpid = sender ev" "de_third_party_content R (content tpid) = Some c"
      "signed_by_any R signed_raw (third_party_keys R c)"
    by (auto simp: verify_third_party_invite_def split: option.splits if_splits)
  obtain obj canonical by_entity sig key where "de_canonical R signed_raw = Some obj" "canonical_for_signing R obj = Some canonical"
      "map_of obj ''signatures'' = Some (CanonicalObject by_entity)" "sig \<in> set (ed25519_signatures R by_entity)"
      "key \<in> set (third_party_keys R c)" "verify_ed25519 R key sig canonical"
    using s(7) by (auto simp: signed_by_any_def list_ex_iff split: option.splits canonical_json.splits)
  moreover from this obtain entity keys key_id signature where "(entity, CanonicalObject keys) \<in> set by_entity"
      "(key_id, CanonicalString signature) \<in> set keys" "take 8 key_id = ''ed25519:''" "parse_base64 R signature = Some sig"
    using ed25519_signatures_mem by blast
  moreover from calculation obtain encoded where "decode_key R encoded = Some key"
      "encoded = tpc_public_key c \<or> (\<exists>more. tpc_public_keys c = Some more \<and> encoded \<in> set more)"
    using third_party_keys_mem by blast
  moreover have "current_membership R st u \<noteq> Some Ban" using \<open>mc_target_membership mc \<noteq> Ban\<close> 1(7) by simp
  ultimately show ?thesis using s(1-6) by blast
qed

theorem third_party_invite_verified_witness:
  "current_membership sample_ruma sample_room ''@dave:a'' \<noteq> Some Ban"
  by (rule third_party_invite_verified [OF sample_ruma_laws, of RV10 sample_invite _ _
        "the (sample_member_fields (content sample_invite))" "SSigned ''@dave:a'' ''tok'' ''key''",
        THEN conjunct1]; code_simp)

subsection \<open>Power levels\<close>

definition effective_power :: "power_levels \<Rightarrow> user_id \<Rightarrow> user_power" where
  "effective_power pl u = Level (unwrap_or (pl_users_default pl) (map_of (pl_users pl) u))"

lemma too_big_simps [simp]:
  "\<not> too_big None p"
  "too_big (Some l) p \<longleftrightarrow> p < Level l"
  by (auto simp: too_big_def)

lemma check_user_levelsD:
  assumes "check_user_levels old new self p" and "map_of old u \<noteq> map_of new u"
  shows "\<not> too_big (map_of old u) p" and "\<not> too_big (map_of new u) p"
    and "u \<noteq> self \<Longrightarrow> map_option Level (map_of old u) \<noteq> Some p"
proof -
  have "u \<in> set (map fst old @ map fst new)"
    using assms(2) by (metis Un_iff list.set_map map_of_eq_None_iff set_append)
  with assms show "\<not> too_big (map_of old u) p" "\<not> too_big (map_of new u) p"
    "u \<noteq> self \<Longrightarrow> map_option Level (map_of old u) \<noteq> Some p"
    by (auto simp: check_user_levels_def list_all_iff unchanged_def Let_def)
qed

lemma check_level_change_iff:
  "check_level_change p (old, new) \<longleftrightarrow> new = old \<or> Level old \<le> p \<and> Level new \<le> p"
  by (auto simp: check_level_change_def not_less)

lemma check_power_levels_accepts:
  assumes "check_power_levels R rv ev (Some cur) p creators = Some True"
    and "deserialize_power_levels R (content cur) rv = Some old"
    and "deserialize_power_levels R (content ev) rv = Some new"
  shows "check_user_levels (pl_users old) (pl_users new) (sender ev) p"
    and "check_event_levels (pl_events old) (pl_events new) p"
    and "check_default_levels old new p"
    and "\<forall>c\<in>set creators. map_of (pl_users new) c = None"
  using assms by (auto simp: check_power_levels_def list_ex_iff split: if_splits)

lemma effective_power_bound:
  assumes "check_user_levels (pl_users old) (pl_users new) self p"
    and "check_default_levels old new p"
  shows "effective_power new u \<le> max (effective_power old u) (max p (Level (pl_users_default old)))"
proof -
  have "Level (pl_users_default new) \<le> max p (Level (pl_users_default old))"
    using assms(2) by (auto simp: check_default_levels_def check_level_change_iff le_max_iff_disj)
  then show ?thesis
    using check_user_levelsD(2) [OF assms(1), of u]
    by (cases "map_of (pl_users new) u"; cases "map_of (pl_users old) u")
      (auto simp: effective_power_def le_max_iff_disj not_less split: if_splits)
qed

text \<open>
  C2: A power levels event cannot hand out power its sender does not have. When one is accepted
  on top of another, no user ends with more power than the largest of what it had, the power of
  the sender and the default of the room; whoever else is listed with at least the sender's power
  keeps exactly that; each of the seven thresholds is either untouched or was and remains within
  the sender's reach; and no privileged creator is listed.
\<close>

theorem power_levels_no_escalation:
  assumes "auth_check R rv ev st = Inr True" and "event_type ev = RoomPowerLevels"
    and "st (RoomPowerLevels, []) = Some cur"
    and "deserialize_power_levels R (content cur) rv = Some old"
    and "deserialize_power_levels R (content ev) rv = Some new"
  shows "\<exists>ce p. st (RoomCreate, []) = Some ce \<and>
    sender_power_level R rv (sender ev) (Some cur) ce (current_creators R rv st) = Inr p \<and>
    (\<forall>u. effective_power new u \<le>
       max (effective_power old u) (max p (Level (pl_users_default old)))) \<and>
    (\<forall>u l. u \<noteq> sender ev \<and> map_of (pl_users old) u = Some l \<and> p \<le> Level l \<longrightarrow>
       map_of (pl_users new) u = Some l) \<and>
    (\<forall>f\<in>{pl_ban, pl_kick, pl_invite, pl_redact, pl_state_default, pl_events_default,
          pl_users_default}. f new = f old \<or> Level (f old) \<le> p \<and> Level (f new) \<le> p) \<and>
    (\<forall>c\<in>set (current_creators R rv st). map_of (pl_users new) c = None)"
proof -
  from assms(1-3) obtain ce p where ce: "st (RoomCreate, []) = Some ce"
    and p: "sender_power_level R rv (sender ev) (Some cur) ce (privileged_creators R rv ce) = Inr p"
    and chk: "check_by_power R rv ev (Some cur) p (privileged_creators R rv ce) = Inr True"
    by (auto elim!: auth_check_accepts simp: ROOM_ALIASES_TYPE_def)
  have "check_power_levels R rv ev (Some cur) p (privileged_creators R rv ce) = Some True"
    using chk assms(2) by (auto simp: check_by_power_def split: if_splits)
  note acc = check_power_levels_accepts [OF this assms(4,5)]
  have kept: "map_of (pl_users new) u = Some l"
    if "u \<noteq> sender ev" "map_of (pl_users old) u = Some l" "p \<le> Level l" for u l
    using check_user_levelsD [OF acc(1), of u] that
    by (cases "map_of (pl_users old) u = map_of (pl_users new) u") (auto simp: not_less)
  have "\<forall>f\<in>{pl_ban, pl_kick, pl_invite, pl_redact, pl_state_default, pl_events_default,
      pl_users_default}. f new = f old \<or> Level (f old) \<le> p \<and> Level (f new) \<le> p"
    using acc(3) by (simp add: check_default_levels_def check_level_change_iff)
  with ce p acc(4) kept effective_power_bound [OF acc(1,3)] show ?thesis
    by (auto simp: current_creators_def)
qed

theorem power_levels_no_escalation_witness:
  "\<exists>p. \<forall>u. effective_power sample_new_levels u \<le>
     max (effective_power sample_room_levels u) (max p (Level (pl_users_default sample_room_levels)))"
proof -
  have "auth_check sample_ruma RV10 sample_promotion sample_room = Inr True"
    and "event_type sample_promotion = RoomPowerLevels"
    and "sample_room (RoomPowerLevels, []) = Some (the (sample_room (RoomPowerLevels, [])))"
    and "deserialize_power_levels sample_ruma (content (the (sample_room (RoomPowerLevels, [])))) RV10
      = Some sample_room_levels"
    and "deserialize_power_levels sample_ruma (content sample_promotion) RV10 = Some sample_new_levels"
    by code_simp+
  from power_levels_no_escalation [OF this] show ?thesis by blast
qed

subsection \<open>Locality\<close>

definition readable_join_rules :: "'c ruma \<Rightarrow> 'c event state_map \<Rightarrow> bool" where
  "readable_join_rules R st \<longleftrightarrow> current_join_rule R st \<noteq> None"

lemma push_unique_set [simp]: "set (push_unique xs x) = insert x (set xs)"
  by (auto simp: push_unique_def)

lemma push_unique_distinct [simp]: "distinct (push_unique xs x) \<longleftrightarrow> distinct xs"
  by (auto simp: push_unique_def)

lemma member_auth_types_set:
  assumes "mf_membership mf = Some (Some m)"
  shows "set (member_auth_types R types k mf) = set types \<union> {(RoomMember, k)} \<union>
    (if m \<in> {Join, Invite, Knock} then
       {(RoomJoinRules, [])} \<union>
       {(RoomMember, u) | u. mf_join_authorised mf = Some (Some u)} else {}) \<union>
    {(RoomThirdPartyInvite, token s) | s r. m = Invite \<and> mf_third_party_invite mf = Some (Some r) \<and>
       de_signed R r = Some s}"
  using assms by (auto simp: member_auth_types_def Let_def split: option.splits)

lemma member_auth_types_superset: "set types \<subseteq> set (member_auth_types R types k mf)"
  by (auto simp: member_auth_types_def Let_def split: option.splits)

lemma auth_types_base:
  assumes "auth_types_for_event R rv kind u key c = Inr types" and "kind \<noteq> RoomCreate"
  shows "{(RoomPowerLevels, []), (RoomMember, u)} \<subseteq> set types"
proof -
  from assms consider
      "set types = {(RoomPowerLevels, []), (RoomMember, u)} \<union>
         (if room_create_event_id_as_room_id rv then {} else {(RoomCreate, [])})"
    | ts k mf where "types = member_auth_types R ts k mf"
        and "{(RoomPowerLevels, []), (RoomMember, u)} \<subseteq> set ts"
    by (cases key) (auto simp: auth_types_for_event_def res_bind_Inr_iff Let_def split: if_splits)
  then show ?thesis
    using member_auth_types_superset by cases (auto, blast+)
qed

lemma join_auth_const:
  "res_bind (join_auth_is_valid R rv cs pe ju jm) (\<lambda>_. x) =
   res_bind (join_auth_is_valid R rv cs pe ju jm') (\<lambda>_. x)"
  by (auto simp: join_auth_is_valid_def deserialize_power_levels_content_invite_def
      deserialize_power_levels_content_fields_def ok_or_def Let_def split: option.splits)

lemma valid_membership_change_local:
  assumes "de_membership R (content ev) = Some m"
    and "m \<in> {Join, Invite, Knock} \<Longrightarrow> jr = jr' \<and> jm = jm'"
    and "\<And>e. jr = Some e \<Longrightarrow> de_join_rules R (content e) \<noteq> None"
    and "\<And>e. jr' = Some e \<Longrightarrow> de_join_rules R (content e) \<noteq> None"
    and "m = Invite \<Longrightarrow> tp = tp'"
  shows "valid_membership_change R rv u te s se ev tp pe jr ju jm ce cs =
    valid_membership_change R rv u te s se ev tp' pe jr' ju jm' ce cs"
proof (cases "m \<in> {Join, Invite, Knock}")
  case True
  with assms show ?thesis
    by (auto simp: valid_membership_change_def membership_verdict_def intro!: arg_cong2 [where f = res_bind])
next
  case False
  have read: "\<exists>x. (case r of Some e \<Rightarrow> ok_or SerdeJson (de_join_rules R (content e))
      | None \<Rightarrow> Inr JoinRuleInvite) = Inr x" if "r = jr \<or> r = jr'" for r
    using assms(3,4) that by (auto simp: ok_or_def split: option.splits)
  obtain x y where rules: "(case jr of Some e \<Rightarrow> ok_or SerdeJson (de_join_rules R (content e))
      | None \<Rightarrow> Inr JoinRuleInvite) = Inr x"
    "(case jr' of Some e \<Rightarrow> ok_or SerdeJson (de_join_rules R (content e))
      | None \<Rightarrow> Inr JoinRuleInvite) = Inr y"
    using read by blast
  with False assms(1) show ?thesis
    by (cases m) (simp_all add: valid_membership_change_def membership_verdict_def
        leave_allowed_def ban_allowed_def join_auth_const [of R rv cs pe ju jm _ jm'] cong: if_cong)
qed

lemma check_room_member_local:
  assumes "ruma_laws R" and "event_type ev = RoomMember"
    and "auth_types_for_event R rv (event_type ev) (sender ev) (state_key ev) (content ev) = Inr types"
    and st: "\<And>k. k \<in> set types \<or> k = (RoomCreate, []) \<Longrightarrow> st k = st' k"
    and "readable_join_rules R st" and "readable_join_rules R st'"
  shows "check_room_member R rv ev st = check_room_member R rv ev st'"
proof (cases "state_key ev")
  case None
  then show ?thesis by (simp add: check_room_member_def fun_eq_iff)
next
  case (Some key)
  with assms(2,3) obtain mf base where mf: "de_member_fields R (content ev) = Some mf"
    and types: "types = member_auth_types R base key mf"
    and base: "{(RoomPowerLevels, []), (RoomMember, sender ev)} \<subseteq> set base"
    by (auto simp: auth_types_for_event_def res_bind_Inr_iff Let_def split: if_splits option.splits)
  show ?thesis
  proof (cases "Option.bind (mf_membership mf) id")
    case None
    with Some mf show ?thesis by (simp add: check_room_member_def fun_eq_iff)
  next
    case m: (Some m)
    then have "mf_membership mf = Some (Some m)"
      by (auto simp: bind_eq_Some_conv)
    note keys = member_auth_types_set [OF this, of R base key]
    have mem: "de_membership R (content ev) = Some m"
      using ruma_lawsD(1) [OF assms(1) mf] m by simp
    have eqs: "st (RoomPowerLevels, []) = st' (RoomPowerLevels, [])"
      "st (RoomMember, sender ev) = st' (RoomMember, sender ev)"
      "st (RoomMember, key) = st' (RoomMember, key)"
      using st types keys base by auto
    have rules: "st (RoomJoinRules, []) = st' (RoomJoinRules, []) \<and>
        Option.bind (Option.bind (mf_join_authorised mf) id) (\<lambda>u. st (RoomMember, u)) =
        Option.bind (Option.bind (mf_join_authorised mf) id) (\<lambda>u. st' (RoomMember, u))"
      if "m \<in> {Join, Invite, Knock}"
      using st types keys that by (auto intro!: bind_option_cong)
    have third: "Option.bind (map_option token (Option.bind (Option.bind (mf_third_party_invite mf) id)
         (de_signed R))) (\<lambda>t. st (RoomThirdPartyInvite, t)) =
       Option.bind (map_option token (Option.bind (Option.bind (mf_third_party_invite mf) id)
         (de_signed R))) (\<lambda>t. st' (RoomThirdPartyInvite, t))" if "m = Invite"
      using st types keys that by (auto intro!: bind_option_cong simp: bind_eq_Some_conv)
    show ?thesis
    proof (cases "parse_user_id R key")
      case None
      with Some mf m show ?thesis by (simp add: check_room_member_def ok_or_def fun_eq_iff)
    next
      case u: (Some u)
      then have "u = key"
        by (rule ruma_lawsD(3) [OF assms(1)])
      with u Some mf m eqs show ?thesis
        unfolding check_room_member_def Let_def fun_eq_iff
        by (simp add: ok_or_def del: bind_assoc,
            intro allI valid_membership_change_local [OF mem])
          (use rules third assms(5,6) in \<open>auto simp: readable_join_rules_def current_join_rule_def\<close>)
    qed
  qed
qed

text \<open>
  C29: The verdict on an event depends on the state at the keys \<open>auth_types_for_event\<close> selects for
  it, and on the create event, alone: two states that agree there and whose join rules, where
  they have any, can be read give the same verdict, errors included.
\<close>

theorem auth_check_local:
  assumes "ruma_laws R"
    and "auth_types_for_event R rv (event_type ev) (sender ev) (state_key ev) (content ev) = Inr types"
    and "\<And>k. k \<in> set types \<or> k = (RoomCreate, []) \<Longrightarrow> st k = st' k"
    and "readable_join_rules R st" and "readable_join_rules R st'"
  shows "auth_check R rv ev st = auth_check R rv ev st'"
proof (cases "event_type ev = RoomCreate")
  case False
  then have base: "{(RoomPowerLevels, []), (RoomMember, sender ev)} \<subseteq> set types"
    using auth_types_base [OF assms(2)] by simp
  then have eqs: "st (RoomCreate, []) = st' (RoomCreate, [])"
    "st (RoomPowerLevels, []) = st' (RoomPowerLevels, [])"
    "st (RoomMember, sender ev) = st' (RoomMember, sender ev)"
    using assms(3) by auto
  have "check_room_member R rv ev st = check_room_member R rv ev st'"
    if "event_type ev = RoomMember"
    using check_room_member_local assms that by blast
  with False show ?thesis
    by (cases "event_type ev = RoomMember") (simp_all add: auth_check_def eqs cong: option.case_cong if_cong)
qed (simp add: auth_check_def)

theorem auth_check_local_witness:
  "auth_check sample_ruma RV10 sample_topic sample_room =
   auth_check sample_ruma RV10 sample_topic (sample_room((RoomMember, ''@carol:a'') := None))"
proof (rule auth_check_local [OF sample_ruma_laws, where
      types = "[(RoomPowerLevels, []), (RoomMember, ''@bob:a''), (RoomCreate, [])]"])
  show "auth_types_for_event sample_ruma RV10 (event_type sample_topic) (sender sample_topic)
      (state_key sample_topic) (content sample_topic)
    = Inr [(RoomPowerLevels, []), (RoomMember, ''@bob:a''), (RoomCreate, [])]"
    by code_simp
  show "readable_join_rules sample_ruma sample_room"
    "readable_join_rules sample_ruma (sample_room((RoomMember, ''@carol:a'') := None))"
    by code_simp+
qed auto

subsection \<open>Two divergences\<close>

text \<open>
  C34: The power a kick compares against is the level listed for the target only: the default of the
  room is looked at for a target whose new membership is join, which a kick's never is. So the kick of a
  user that the power levels do not list, neither banned nor a privileged creator, is accepted exactly when
  the sender reaches the kick level, whatever power the target has by default: one of two users of equal
  default power kicks the other.
\<close>

theorem kick_ignores_default_power:
  assumes "ruma_laws R" and "auth_check R rv ev st = Inr verdict" and "event_type ev = RoomMember"
    and "state_key ev = Some u" and "sender ev \<noteq> u" and "de_membership R (content ev) = Some Leave"
    and "st (RoomCreate, []) = Some ce" and "create_reference_ok R rv ev ce" and "federation_allows R ev ce = Inr True"
    and "current_membership R st (sender ev) = Some Join" and "current_membership R st u \<noteq> Some Ban"
    and "current_levels R st = Some levels" and "map_of (pl_users levels) u = None" and "u \<notin> set (current_creators R rv st)"
  shows "verdict \<longleftrightarrow>
    power_at_least (membership_power levels (current_creators R rv st) (sender ev) True) (pl_kick levels)"
proof -
  note laws = ruma_lawsD [OF assms(1)]
  have check: "check_room_member R rv ev st ce (current_creators R rv st) = Inr verdict"
    using assms(2,3,7-9) by (simp add: auth_check_def current_creators_def ROOM_ALIASES_TYPE_def Let_def)
  then obtain mf where mf: "de_member_fields R (content ev) = Some mf" "parse_user_id R u = Some u"
    using assms(4,6) laws(1,3)
    by (auto simp: check_room_member_def res_bind_Inr_iff ok_or_Inr_iff split: if_splits dest: laws(3))
  have target: "membership_power levels (current_creators R rv st) u False = None"
    using assms(13,14) by (simp add: membership_power_def)
  have "verdict = (power_at_least (membership_power levels (current_creators R rv st) (sender ev) True) (pl_kick levels) \<and>
      None < membership_power levels (current_creators R rv st) (sender ev) True)"
    using check assms(4-6,10-12) mf laws(1) [OF mf(1)] laws(2) [OF mf(1)]
    by (auto simp: check_room_member_def valid_membership_change_def membership_verdict_def leave_allowed_def
        res_bind_Inr_iff Let_def current_membership_def current_levels_def target split: sum.splits if_splits)
  then show ?thesis by (auto simp: power_at_least_Some_iff)
qed

definition equal_powers :: power_levels where
  "equal_powers = sample_levels\<lparr>pl_users_default := 50\<rparr>"

definition equal_room :: "sample_content event state_map" where
  "equal_room = sample_room((RoomPowerLevels, []) \<mapsto>
     sample_sent ''@alice:a'' RoomPowerLevels (SPower equal_powers) (Some []))"

lemma equal_room_readable: "isl (auth_check sample_ruma RV10 sample_kick equal_room) = False"
  by code_simp

theorem kick_ignores_default_power_witness:
  "effective_power equal_powers ''@bob:a'' = effective_power equal_powers ''@carol:a'' \<and>
   auth_check sample_ruma RV10 sample_kick equal_room = Inr True"
proof
  show "effective_power equal_powers ''@bob:a'' = effective_power equal_powers ''@carol:a''" by code_simp
  obtain verdict where verdict: "auth_check sample_ruma RV10 sample_kick equal_room = Inr verdict"
    by (cases "auth_check sample_ruma RV10 sample_kick equal_room") (use equal_room_readable in auto)
  have "verdict \<longleftrightarrow> power_at_least (membership_power equal_powers (current_creators sample_ruma RV10 equal_room)
      (sender sample_kick) True) (pl_kick equal_powers)"
    by (rule kick_ignores_default_power [OF sample_ruma_laws verdict, where u = "''@carol:a''" and ce = "the (equal_room (RoomCreate, []))"];
        code_simp)
  moreover have "power_at_least (membership_power equal_powers (current_creators sample_ruma RV10 equal_room)
      (sender sample_kick) True) (pl_kick equal_powers)"
    by code_simp
  ultimately show "auth_check sample_ruma RV10 sample_kick equal_room = Inr True" using verdict by simp
qed

text \<open>
  The membership rules read the join rules before they look at the membership asked for, so an
  unreadable join rules event makes even leaving an error, although leaving does not depend on it
  and \<open>auth_types_for_event\<close> does not select it.
\<close>

theorem leave_reads_join_rules:
  "let st = sample_room((RoomJoinRules, []) \<mapsto>
         sample_sent ''@alice:a'' RoomJoinRules SEmpty (Some []));
       leave = sample_sent ''@carol:a'' RoomMember (SMember Leave None None) (Some ''@carol:a'')
   in auth_check sample_ruma RV10 leave sample_room = Inr True \<and>
      auth_check sample_ruma RV10 leave st = Inl SerdeJson"
  by code_simp

end
