(* ===== verification/State_Sort.thy ===== *)
theory State_Sort
  imports Matrix_Event
begin

section \<open>Sorting events by power\<close>

text \<open>
  \<open>state_res/sort.rs\<close>: the graph of the power events and their auth chains within the conflicted
  set, the power of each event's sender, and the lexicographical topological sort that orders the
  graph. \<open>fetch_event\<close> is a function from an event id to the event, if the server has it.

  A \<open>HashMap\<close> whose keys are iterated is an association list, in some order of its keys; a
  \<open>HashSet\<close> is a list without repetitions. The order the hash tables iterate in is thus the order
  of the lists, and the theorems about the sort show that it does not matter. A loop that is not
  bounded by the data is a \<open>partial_function\<close>, \<open>None\<close> when it does not end: \<open>run\<close> is the type of
  its outcomes.
\<close>

type_synonym ('e, 'a) run = "('e, 'a) result option"

definition run_bind :: "('e, 'a) run \<Rightarrow> ('a \<Rightarrow> ('e, 'b) run) \<Rightarrow> ('e, 'b) run" where
  "run_bind r f = (case r of None \<Rightarrow> None | Some (Inl e) \<Rightarrow> Some (Inl e) | Some (Inr a) \<Rightarrow> f a)"

lemma run_bind_simps [simp]:
  "run_bind None f = None"
  "run_bind (Some (Inl e)) f = Some (Inl e)"
  "run_bind (Some (Inr a)) f = f a"
  by (simp_all add: run_bind_def)

lemma run_bind_Inr_iff:
  "run_bind r f = Some (Inr b) \<longleftrightarrow> (\<exists>a. r = Some (Inr a) \<and> f a = Some (Inr b))"
  by (auto simp: run_bind_def split: option.splits sum.splits)

type_synonym 'i graph = "('i \<times> 'i list) list"

definition nodes :: "'i graph \<Rightarrow> 'i set" where
  "nodes g = fst ` set g"

definition edges :: "'i graph \<Rightarrow> 'i \<Rightarrow> 'i set" where
  "edges g n = set (unwrap_or [] (map_of g n))"

subsection \<open>Ordering of candidates\<close>

text \<open>\<open>TieBreaker\<close>: more power first, then the older event, then the smaller id.\<close>

datatype ('p, 'i) tie_breaker =
  TieBreaker (tb_power_level: 'p) (tb_origin_server_ts: nat) (tb_event_id: 'i)

instantiation tie_breaker :: (linorder, linorder) linorder
begin

fun less_eq_tie_breaker :: "('a, 'b) tie_breaker \<Rightarrow> ('a, 'b) tie_breaker \<Rightarrow> bool" where
  "less_eq_tie_breaker (TieBreaker p t i) (TieBreaker q u j) \<longleftrightarrow>
     q < p \<or> p = q \<and> (t < u \<or> t = u \<and> i \<le> j)"

definition less_tie_breaker :: "('a, 'b) tie_breaker \<Rightarrow> ('a, 'b) tie_breaker \<Rightarrow> bool" where
  "less_tie_breaker a b \<longleftrightarrow> a \<le> b \<and> \<not> b \<le> a"

instance
proof
  fix x y z :: "('a, 'b) tie_breaker"
  show "x < y \<longleftrightarrow> x \<le> y \<and> \<not> y \<le> x"
    by (rule less_tie_breaker_def)
  show "x \<le> x"
    by (cases x) simp
  show "x \<le> y \<Longrightarrow> y \<le> z \<Longrightarrow> x \<le> z"
    by (cases x; cases y; cases z) auto
  show "x \<le> y \<Longrightarrow> y \<le> x \<Longrightarrow> x = y"
    by (cases x; cases y) auto
  show "x \<le> y \<or> y \<le> x"
    by (cases x; cases y) auto
qed

end

text \<open>
  \<open>BinaryHeap<Reverse<_>>\<close> of the standard library: \<open>pop\<close> removes a least element, in no
  particular order of equal ones.
\<close>

fun heap_pop :: "'a::linorder list \<Rightarrow> ('a \<times> 'a list) option" where
  "heap_pop [] = None"
| "heap_pop (x # xs) = (let m = fold min xs x in Some (m, remove1 m (x # xs)))"

subsection \<open>The lexicographical topological sort\<close>

definition map_or_default :: "('i \<rightharpoonup> 'i list) \<Rightarrow> 'i \<Rightarrow> ('i \<rightharpoonup> 'i list)" where
  "map_or_default m n = m(n \<mapsto> unwrap_or [] (m n))"

definition set_insert :: "'a list \<Rightarrow> 'a \<Rightarrow> 'a list" where
  "set_insert xs x = (if x \<in> set xs then xs else xs @ [x])"

definition add_reverse :: "'i \<Rightarrow> 'i \<Rightarrow> ('i \<rightharpoonup> 'i list) \<Rightarrow> ('i \<rightharpoonup> 'i list)" where
  "add_reverse node edge m = m(edge \<mapsto> set_insert (unwrap_or [] (m edge)) node)"

definition reverse_entry :: "('i \<rightharpoonup> 'i list) \<Rightarrow> 'i \<times> 'i list \<Rightarrow> ('i \<rightharpoonup> 'i list)" where
  "reverse_entry m p =
     (case p of (node, es) \<Rightarrow> fold (add_reverse node) es (map_or_default m node))"

definition reverse_graph :: "'i graph \<Rightarrow> ('i \<rightharpoonup> 'i list)" where
  "reverse_graph g = foldl reverse_entry Map.empty g"

definition candidate ::
  "('i \<Rightarrow> ('e, 'p \<times> nat) result) \<Rightarrow> 'i \<Rightarrow> ('e, ('p, 'i) tie_breaker) result"
where
  "candidate key_fn n = res_bind (key_fn n) (\<lambda>(p, ts). Inr (TieBreaker p ts n))"

fun zero_outdegree ::
  "('i \<Rightarrow> ('e, 'p \<times> nat) result) \<Rightarrow> 'i graph \<Rightarrow> ('e, ('p, 'i) tie_breaker list) result"
where
  "zero_outdegree key_fn [] = Inr []"
| "zero_outdegree key_fn ((node, es) # g) =
     (if es = [] then
        res_bind (candidate key_fn node) (\<lambda>c.
        res_bind (zero_outdegree key_fn g) (\<lambda>cs. Inr (c # cs)))
      else zero_outdegree key_fn g)"

text \<open>The inner loop: take \<open>node\<close> out of its parents' edges and queue those left without any.\<close>

fun relax_parents ::
  "('i \<Rightarrow> (auth_error, 'p \<times> nat) result) \<Rightarrow> 'i \<Rightarrow> 'i list \<Rightarrow> ('i \<rightharpoonup> 'i list) \<Rightarrow>
     ('p, 'i) tie_breaker list \<Rightarrow> (auth_error, ('i \<rightharpoonup> 'i list) \<times> ('p, 'i) tie_breaker list) result"
where
  "relax_parents key_fn node [] outdegree heap = Inr (outdegree, heap)"
| "relax_parents key_fn node (parent # parents) outdegree heap =
     (case outdegree parent of
        None \<Rightarrow> Inl Panicked
      | Some es \<Rightarrow>
          let out = removeAll node es; outdegree' = outdegree(parent \<mapsto> out) in
          if out = [] then
            res_bind (candidate key_fn parent) (\<lambda>c.
              relax_parents key_fn node parents outdegree' (c # heap))
          else relax_parents key_fn node parents outdegree' heap)"

partial_function (option) topo_loop ::
  "('i::linorder \<Rightarrow> (auth_error, 'p::linorder \<times> nat) result) \<Rightarrow> ('i \<rightharpoonup> 'i list) \<Rightarrow> ('i \<rightharpoonup> 'i list) \<Rightarrow>
     ('p, 'i) tie_breaker list \<Rightarrow> 'i list \<Rightarrow> (auth_error, 'i list) run"
where
  "topo_loop key_fn reverse outdegree heap acc =
     (case heap_pop heap of
        None \<Rightarrow> Some (Inr acc)
      | Some (item, heap') \<Rightarrow>
          (case reverse (tb_event_id item) of
             None \<Rightarrow> Some (Inl Panicked)
           | Some parents \<Rightarrow>
               (case relax_parents key_fn (tb_event_id item) parents outdegree heap' of
                  Inl e \<Rightarrow> Some (Inl e)
                | Inr (outdegree', heap'') \<Rightarrow>
                    topo_loop key_fn reverse outdegree' heap'' (acc @ [tb_event_id item]))))"

declare topo_loop.simps [code]

definition lexicographical_topological_sort ::
  "'i::linorder graph \<Rightarrow> ('i \<Rightarrow> (auth_error, 'p::linorder \<times> nat) result) \<Rightarrow> (auth_error, 'i list) run"
where
  "lexicographical_topological_sort g key_fn =
     run_bind (Some (zero_outdegree key_fn g)) (\<lambda>heap.
       topo_loop key_fn (reverse_graph g) (map_of g) heap [])"

subsection \<open>The auth chain graph\<close>

definition graph_entry :: "'i graph \<Rightarrow> 'i \<Rightarrow> 'i graph" where
  "graph_entry g eid = (if eid \<in> nodes g then g else g @ [(eid, [])])"

definition graph_insert_edge :: "'i \<Rightarrow> 'i \<Rightarrow> 'i graph \<Rightarrow> 'i graph" where
  "graph_insert_edge eid aid g = map (\<lambda>(n, es). (n, if n = eid then set_insert es aid else es)) g"

definition auth_events_of :: "(event_id \<Rightarrow> 'c event option) \<Rightarrow> event_id \<Rightarrow> event_id list" where
  "auth_events_of fetch_event eid =
     (case fetch_event eid of None \<Rightarrow> [] | Some ev \<Rightarrow> auth_events ev)"

fun visit_auth_events ::
  "event_id set \<Rightarrow> event_id \<Rightarrow> event_id list \<Rightarrow> event_id graph \<Rightarrow> event_id list \<Rightarrow>
     event_id graph \<times> event_id list"
where
  "visit_auth_events auth_diff eid [] graph stack = (graph, stack)"
| "visit_auth_events auth_diff eid (aid # aids) graph stack =
     (if aid \<in> auth_diff then
        visit_auth_events auth_diff eid aids (graph_insert_edge eid aid graph)
          (if aid \<in> nodes graph then stack else stack @ [aid])
      else visit_auth_events auth_diff eid aids graph stack)"

lemma nodes_graph_insert_edge [simp]: "nodes (graph_insert_edge eid aid g) = nodes g"
  by (force simp: nodes_def graph_insert_edge_def)

lemma nodes_graph_entry [simp]: "nodes (graph_entry g eid) = insert eid (nodes g)"
  by (auto simp: nodes_def graph_entry_def)

lemma visit_auth_events_shape:
  "nodes (fst (visit_auth_events D eid aids g st)) = nodes g"
  "snd (visit_auth_events D eid aids g st) = st @ filter (\<lambda>a. a \<in> D \<and> a \<notin> nodes g) aids"
  by (induction aids arbitrary: g st) simp_all

text \<open>
  The stack of the source is popped at its end. The loop ends because an event that is new to the
  graph uses up the conflicted set, and one that is not leaves the stack without a replacement.
\<close>

function add_to_graph ::
  "(event_id \<Rightarrow> 'c event option) \<Rightarrow> event_id list \<Rightarrow> event_id graph \<Rightarrow> event_id list \<Rightarrow> event_id graph"
where
  "add_to_graph fetch_event auth_diff graph stack =
     (if stack = [] then graph
      else
        let eid = last stack;
            (graph', stack') = visit_auth_events (set auth_diff) eid (auth_events_of fetch_event eid)
              (graph_entry graph eid) (butlast stack)
        in add_to_graph fetch_event auth_diff graph' stack')"
  by pat_completeness auto
termination
proof (relation "measures
    [\<lambda>(f, d, g, st). card ((set d \<union> set st) - nodes g),
     \<lambda>(f, d, g, st). length (filter (\<lambda>e. e \<in> nodes g) st)]")
  fix fetch_event :: "event_id \<Rightarrow> 'c event option" and d g st eid p g' st'
  assume st: "st \<noteq> []" and eid: "eid = last st"
    and p: "p = visit_auth_events (set d) eid (auth_events_of fetch_event eid) (graph_entry g eid)
      (butlast st)" "(g', st') = p"
  let ?new = "filter (\<lambda>a. a \<in> set d \<and> a \<notin> insert eid (nodes g)) (auth_events_of fetch_event eid)"
  have shape: "nodes g' = insert eid (nodes g)" "st' = butlast st @ ?new"
    using visit_auth_events_shape [of "set d" eid "auth_events_of fetch_event eid"
        "graph_entry g eid" "butlast st", folded p(1), folded p(2)] by simp_all
  have split: "st = butlast st @ [eid]" using st eid by simp
  then have mem: "eid \<in> set st" "set (butlast st) \<subseteq> set st"
    using st eid by (auto dest: in_set_butlastD)
  have sub: "(set d \<union> set st') - nodes g' \<subseteq> (set d \<union> set st) - nodes g - {eid}"
    using shape mem by auto
  show "((fetch_event, d, g', st'), fetch_event, d, g, st) \<in> measures
    [\<lambda>(f, d, g, st). card ((set d \<union> set st) - nodes g),
     \<lambda>(f, d, g, st). length (filter (\<lambda>e. e \<in> nodes g) st)]"
  proof (cases "eid \<in> nodes g")
    case False
    have "card ((set d \<union> set st') - nodes g') < card ((set d \<union> set st) - nodes g)"
      by (rule psubset_card_mono) (use sub mem False in auto)
    then show ?thesis by simp
  next
    case True
    have "card ((set d \<union> set st') - nodes g') \<le> card ((set d \<union> set st) - nodes g)"
      by (rule card_mono) (use sub in auto)
    moreover have "length (filter (\<lambda>e. e \<in> nodes g') st') < length (filter (\<lambda>e. e \<in> nodes g) st)"
      unfolding shape using True by (subst (2) split) (simp add: insert_absorb)
    ultimately show ?thesis by auto
  qed
qed simp

declare add_to_graph.simps [simp del]

definition add_event_and_auth_chain_to_graph ::
  "(event_id \<Rightarrow> 'c event option) \<Rightarrow> event_id list \<Rightarrow> event_id graph \<Rightarrow> event_id \<Rightarrow> event_id graph"
where
  "add_event_and_auth_chain_to_graph fetch_event auth_diff graph eid =
     add_to_graph fetch_event auth_diff graph [eid]"

subsection \<open>The power of a sender\<close>

definition is_room_creator :: "'c ruma \<Rightarrow> room_version \<Rightarrow> 'c event \<Rightarrow> user_id \<Rightarrow> bool" where
  "is_room_creator R rv create user =
     (if use_room_create_sender rv then sender create = user
      else de_create_creator R (content create) = Some (Some user))"

text \<open>
  The auth events arrive in the order their fetches complete: \<open>arrival\<close> is that order.
\<close>

definition get_power_level_for_sender ::
  "'c ruma \<Rightarrow> room_version \<Rightarrow> ('c event list \<Rightarrow> 'c event list) \<Rightarrow> (event_id \<Rightarrow> 'c event option) \<Rightarrow>
     event_id \<Rightarrow> (auth_error, user_power) result"
where
  "get_power_level_for_sender R rv arrival fetch_event eid =
     (let event = fetch_event eid;
          auths = arrival (List.map_filter fetch_event (auth_events_of fetch_event eid));
          privileged =
            (explicitly_privilege_room_creators rv \<and>
             (case event of
                None \<Rightarrow> False
              | Some ev \<Rightarrow>
                  (case Option.bind (create_event_id_of R (room_id ev)) fetch_event of
                     None \<Rightarrow> False
                   | Some create \<Rightarrow> sender ev \<in> set (privileged_creators R rv create))))
      in if privileged then Inr Infinite
         else case List.find (\<lambda>aev. is_type_and_key aev RoomPowerLevels []) auths of
           None \<Rightarrow>
             let is_creator =
                   (case List.find (\<lambda>aev. is_type_and_key aev RoomCreate []) auths of
                      None \<Rightarrow> False
                    | Some create \<Rightarrow>
                        (case event of
                           None \<Rightarrow> False
                         | Some ev \<Rightarrow> is_room_creator R rv create (sender ev)))
             in Inr (Level (if is_creator then 100 else 0))
         | Some pl \<Rightarrow>
             res_bind (ok_or SerdeJson (map_option fields_into (de_v1_fields R (content pl)))) (\<lambda>c.
               Inr (Level (unwrap_or (plf_users_default c)
                 (Option.bind event (\<lambda>ev. get_user_power c (sender ev)))))))"

definition is_power_event_id :: "'c ruma \<Rightarrow> (event_id \<Rightarrow> 'c event option) \<Rightarrow> event_id \<Rightarrow> bool" where
  "is_power_event_id R fetch eid =
     (case fetch eid of None \<Rightarrow> False | Some ev \<Rightarrow> is_power_event R ev)"

fun event_to_pl ::
  "(event_id \<Rightarrow> (auth_error, user_power) result) \<Rightarrow> event_id list \<Rightarrow>
     (auth_error, (event_id \<times> user_power) list) result"
where
  "event_to_pl get_pl [] = Inr []"
| "event_to_pl get_pl (eid # eids) =
     res_bind (get_pl eid) (\<lambda>pl. res_bind (event_to_pl get_pl eids) (\<lambda>m. Inr ((eid, pl) # m)))"

definition power_sort_key ::
  "(event_id \<times> user_power) list \<Rightarrow> (event_id \<Rightarrow> 'c event option) \<Rightarrow> event_id \<Rightarrow>
     (auth_error, user_power \<times> nat) result"
where
  "power_sort_key pls fetch_event eid =
     res_bind (ok_or (NotFound []) (map_of pls eid)) (\<lambda>pl.
     res_bind (ok_or (NotFound []) (fetch_event eid)) (\<lambda>ev. Inr (pl, origin_server_ts ev)))"

definition reverse_topological_power_sort ::
  "'c ruma \<Rightarrow> room_version \<Rightarrow> ('c event list \<Rightarrow> 'c event list) \<Rightarrow> event_id list \<Rightarrow> event_id list \<Rightarrow>
     (event_id \<Rightarrow> 'c event option) \<Rightarrow> (auth_error, event_id list) run"
where
  "reverse_topological_power_sort R rv arrival events_to_sort auth_diff fetch_event =
     (let graph = foldl (add_event_and_auth_chain_to_graph fetch_event auth_diff) [] events_to_sort
      in run_bind (Some (event_to_pl (get_power_level_for_sender R rv arrival fetch_event)
             (map fst graph))) (\<lambda>pls.
           lexicographical_topological_sort graph (power_sort_key pls fetch_event)))"

end
