(* ===== verification/State_Sort_Props.thy ===== *)
theory State_Sort_Props
  imports State_Sort Sample_Codec
begin

section \<open>What the power sort returns\<close>

text \<open>
  A specification of the lexicographical topological sort, that the loop of \<open>sort.rs\<close> meets it,
  that it determines the result, whatever the order the hash tables are iterated in, that the
  graph built from the power events is their auth chain within the conflicted set, and what
  follows for \<open>reverse_topological_power_sort\<close>.
\<close>

subsection \<open>The heap and the reversed graph\<close>

lemma heap_pop_None_iff [simp]: "heap_pop h = None \<longleftrightarrow> h = []"
  by (cases h) (simp_all add: Let_def)

lemma heap_pop_SomeD:
  assumes "heap_pop h = Some (m, h')"
  shows "m \<in> set h" and "\<And>x. x \<in> set h \<Longrightarrow> m \<le> x" and "h' = remove1 m h"
proof -
  from assms obtain x xs where h: "h = x # xs" by (cases h) simp_all
  with assms have "m = fold min xs x" "h' = remove1 m h"
    by (auto simp: Let_def simp del: remove1.simps)
  then have m: "m = Min (set h)" "h' = remove1 m h"
    using Min.set_eq_fold [of x xs] h by simp_all
  then show "m \<in> set h" "\<And>x. x \<in> set h \<Longrightarrow> m \<le> x" "h' = remove1 m h"
    using h Min_in [of "set h"] by (simp_all del: remove1.simps)
qed

lemma set_insert_simps [simp]:
  "set (set_insert xs x) = insert x (set xs)"
  "distinct (set_insert xs x) \<longleftrightarrow> distinct xs"
  by (auto simp: set_insert_def)

lemma add_reverse_sets:
  "set (unwrap_or [] (fold (add_reverse node) es m x)) =
     set (unwrap_or [] (m x)) \<union> (if x \<in> set es then {node} else {})"
  by (induction es arbitrary: m) (auto simp: add_reverse_def)

lemma add_reverse_distinct:
  "distinct (unwrap_or [] (m x)) \<Longrightarrow> distinct (unwrap_or [] (fold (add_reverse node) es m x))"
proof (induction es arbitrary: m)
  case (Cons e es)
  then have "distinct (unwrap_or [] (add_reverse node e m x))"
    by (cases "x = e") (simp_all add: add_reverse_def)
  with Cons.IH show ?case by simp
qed simp

lemma add_reverse_dom: "dom (fold (add_reverse node) es m) = dom m \<union> set es"
  by (induction es arbitrary: m) (auto simp: add_reverse_def)

lemma reverse_entry_facts:
  shows reverse_entry_set: "set (unwrap_or [] (reverse_entry m (node, es) x)) =
      set (unwrap_or [] (m x)) \<union> (if x \<in> set es then {node} else {})"
    and reverse_entry_distinct:
      "distinct (unwrap_or [] (m x)) \<Longrightarrow> distinct (unwrap_or [] (reverse_entry m (node, es) x))"
    and reverse_entry_dom: "dom (reverse_entry m (node, es)) = dom m \<union> {node} \<union> set es"
  using add_reverse_distinct [of "map_or_default m node" x node es]
  by (cases "x = node"; auto simp: reverse_entry_def add_reverse_sets add_reverse_dom map_or_default_def)+

lemma reverse_graph_set:
  "set (unwrap_or [] (foldl reverse_entry m g x)) =
     set (unwrap_or [] (m x)) \<union> {n. \<exists>es. (n, es) \<in> set g \<and> x \<in> set es}"
proof (induction g arbitrary: m)
  case (Cons p g)
  then show ?case by (cases p) (auto simp: reverse_entry_set)
qed simp

lemma reverse_graph_distinct:
  "distinct (unwrap_or [] (m x)) \<Longrightarrow> distinct (unwrap_or [] (foldl reverse_entry m g x))"
proof (induction g arbitrary: m)
  case (Cons p g)
  then show ?case by (cases p) (simp add: reverse_entry_distinct)
qed simp

lemma reverse_graph_dom: "dom m \<union> nodes g \<subseteq> dom (foldl reverse_entry m g)"
proof (induction g arbitrary: m)
  case (Cons p g)
  obtain node es where p: "p = (node, es)" by (cases p)
  have "dom m \<union> {node} \<subseteq> dom (reverse_entry m p)"
    unfolding p reverse_entry_dom by blast
  with Cons.IH [of "reverse_entry m p"] p show ?case
    unfolding nodes_def by simp blast
qed (simp add: nodes_def)

lemma edges_iff:
  assumes "distinct (map fst g)"
  shows "x \<in> edges g n \<longleftrightarrow> (\<exists>es. (n, es) \<in> set g \<and> x \<in> set es)"
proof (cases "map_of g n")
  case None
  then have "(n, es) \<notin> set g" for es
    by (force simp: map_of_eq_None_iff)
  with None show ?thesis by (simp add: edges_def)
next
  case (Some es)
  have "(n, es') \<in> set g \<longleftrightarrow> es' = es" for es'
    using map_of_eq_Some_iff [OF assms, of n es'] Some by auto
  with Some show ?thesis by (simp add: edges_def)
qed

lemma reverse_graph_node:
  assumes "distinct (map fst g)" and "n \<in> nodes g"
  obtains ps where "reverse_graph g n = Some ps" and "distinct ps"
    and "set ps = {m \<in> nodes g. n \<in> edges g m}"
proof -
  obtain ps where ps: "reverse_graph g n = Some ps"
    using reverse_graph_dom [of Map.empty g] assms(2) unfolding reverse_graph_def by blast
  have "{m. \<exists>es. (m, es) \<in> set g \<and> n \<in> set es} = {m \<in> nodes g. n \<in> edges g m}"
    unfolding edges_iff [OF assms(1)] nodes_def by force
  then have "set ps = {m \<in> nodes g. n \<in> edges g m}"
    using reverse_graph_set [of Map.empty g n, folded reverse_graph_def] ps by simp
  moreover have "distinct ps"
    using reverse_graph_distinct [of Map.empty n g, folded reverse_graph_def] ps by simp
  ultimately show thesis using ps that by blast
qed

subsection \<open>What the sort computes\<close>

text \<open>
  The specification: the nodes that can come next are those whose edges all lead to nodes placed
  before, and each node of the result is the least of them.
\<close>

definition ready :: "'i graph \<Rightarrow> 'i set \<Rightarrow> 'i set" where
  "ready g D = {n \<in> nodes g. n \<notin> D \<and> edges g n \<subseteq> D}"

definition tb :: "('i \<Rightarrow> ('e, 'p \<times> nat) result) \<Rightarrow> 'i \<Rightarrow> ('p, 'i) tie_breaker" where
  "tb key_fn n = TieBreaker (fst (projr (key_fn n))) (snd (projr (key_fn n))) n"

definition lex_topo ::
  "'i::linorder graph \<Rightarrow> ('i \<Rightarrow> ('e, 'p::linorder \<times> nat) result) \<Rightarrow> 'i list \<Rightarrow> bool"
where
  "lex_topo g key_fn ys \<longleftrightarrow>
     (\<forall>i<length ys. ys ! i \<in> ready g (set (take i ys)) \<and>
        (\<forall>m\<in>ready g (set (take i ys)). tb key_fn (ys ! i) \<le> tb key_fn m))"

lemma lex_topo_Nil [simp]: "lex_topo g key_fn []"
  by (simp add: lex_topo_def)

lemma lex_topo_snoc:
  "lex_topo g key_fn (ys @ [y]) \<longleftrightarrow>
     lex_topo g key_fn ys \<and> y \<in> ready g (set ys) \<and> (\<forall>m\<in>ready g (set ys). tb key_fn y \<le> tb key_fn m)"
  by (auto simp: lex_topo_def less_Suc_eq nth_append)

lemma lex_topo_facts:
  assumes "lex_topo g key_fn ys"
  shows "distinct ys" and "set ys \<subseteq> nodes g" and "\<And>n. n \<in> set ys \<Longrightarrow> edges g n \<subseteq> set ys"
  using assms
  by (induction ys rule: rev_induct) (auto simp: lex_topo_snoc ready_def)

lemma lex_topo_edges_first:
  assumes "lex_topo g key_fn ys" and "i < length ys" and "e \<in> edges g (ys ! i)"
  shows "\<exists>j<i. ys ! j = e"
proof -
  have "e \<in> set (take i ys)"
    using assms by (auto simp: lex_topo_def ready_def)
  with assms(2) show ?thesis
    by (auto simp: in_set_conv_nth)
qed

lemma tb_inject [simp]: "tb key_fn a = tb key_fn b \<longleftrightarrow> a = b"
  by (auto simp: tb_def)

lemma tb_event_id_tb [simp]: "tb_event_id (tb key_fn n) = n"
  by (simp add: tb_def)

lemma candidate_eq: "\<not> isl (key_fn n) \<Longrightarrow> candidate key_fn n = Inr (tb key_fn n)"
  by (cases "key_fn n") (auto simp: candidate_def tb_def)

lemma lex_topo_unique_prefix:
  assumes "lex_topo g key_fn ys" and "lex_topo g key_fn zs" and "i \<le> length ys" and "i \<le> length zs"
  shows "take i ys = take i zs"
  using assms(3,4)
proof (induction i)
  case (Suc i)
  then have eq: "take i ys = take i zs" by simp
  have "tb key_fn (ys ! i) \<le> tb key_fn (zs ! i)" "tb key_fn (zs ! i) \<le> tb key_fn (ys ! i)"
    using assms(1) [unfolded lex_topo_def, rule_format, of i]
      assms(2) [unfolded lex_topo_def, rule_format, of i] Suc.prems eq
    by (simp_all add: Suc_le_eq)
  then have "ys ! i = zs ! i" by (metis antisym tb_inject)
  with eq Suc.prems show ?case by (simp add: take_Suc_conv_app_nth)
qed simp

lemma lex_topo_maximal:
  assumes "lex_topo g key_fn ys" and "lex_topo g key_fn zs" and "ready g (set ys) = {}"
  shows "length zs \<le> length ys"
proof (rule ccontr)
  assume "\<not> length zs \<le> length ys"
  then have len: "length ys < length zs" by simp
  have "take (length ys) zs = ys"
    using lex_topo_unique_prefix [OF assms(1,2), of "length ys"] len by simp
  moreover have "zs ! length ys \<in> ready g (set (take (length ys) zs))"
    using assms(2) len by (auto simp: lex_topo_def)
  ultimately show False using assms(3) by simp
qed

lemma lex_topo_unique:
  assumes "lex_topo g key_fn ys" and "lex_topo g key_fn zs"
    and "ready g (set ys) = {}" and "ready g (set zs) = {}"
  shows "ys = zs"
proof -
  have "length ys = length zs"
    using lex_topo_maximal [OF assms(1,2,3)] lex_topo_maximal [OF assms(2,1,4)] by simp
  then show ?thesis
    using lex_topo_unique_prefix [OF assms(1,2), of "length ys"] by simp
qed

subsection \<open>Correctness of the loop\<close>

lemma zero_outdegree_eq:
  "(\<And>n. n \<in> nodes g \<Longrightarrow> \<not> isl (key_fn n)) \<Longrightarrow>
    zero_outdegree key_fn g = Inr (map (tb key_fn) (map fst (filter (\<lambda>(n, es). es = []) g)))"
  by (induction key_fn g rule: zero_outdegree.induct) (auto simp: candidate_eq nodes_def)

lemma relax_parents_eq:
  assumes "distinct ps" and "\<And>p. p \<in> set ps \<Longrightarrow> \<not> isl (key_fn p)"
    and "\<And>p. p \<in> set ps \<Longrightarrow> \<exists>es. od p = Some es"
  shows "relax_parents key_fn n ps od heap =
    Inr (\<lambda>p. if p \<in> set ps then Some (removeAll n (the (od p))) else od p,
         rev (map (tb key_fn) (filter (\<lambda>p. removeAll n (the (od p)) = []) ps)) @ heap)"
  using assms
proof (induction ps arbitrary: od heap)
  case (Cons p ps)
  obtain es where es: "od p = Some es" using Cons.prems by auto
  have other: "filter (\<lambda>q. removeAll n (the ((od(p \<mapsto> removeAll n es)) q)) = []) ps =
      filter (\<lambda>q. removeAll n (the (od q)) = []) ps"
    using Cons.prems(1) by (intro filter_cong) auto
  have upd: "(\<lambda>q. if q \<in> set ps then Some (removeAll n (the ((od(p \<mapsto> removeAll n es)) q)))
        else (od(p \<mapsto> removeAll n es)) q) =
      (\<lambda>q. if q \<in> set (p # ps) then Some (removeAll n (the (od q))) else od q)"
    using Cons.prems(1) es by (auto simp: fun_eq_iff)
  have "relax_parents key_fn n ps (od(p \<mapsto> removeAll n es)) h =
      Inr (\<lambda>q. if q \<in> set (p # ps) then Some (removeAll n (the (od q))) else od q,
        rev (map (tb key_fn) (filter (\<lambda>p. removeAll n (the (od p)) = []) ps)) @ h)" for h
    unfolding upd [symmetric] other [symmetric] by (rule Cons.IH) (use Cons.prems in auto)
  moreover have "candidate key_fn p = Inr (tb key_fn p)"
    using Cons.prems(2) by (simp add: candidate_eq)
  ultimately show ?case
    using es by (cases "removeAll n es = []") (auto simp: Let_def)
qed simp

definition topo_inv ::
  "'i::linorder graph \<Rightarrow> ('i \<Rightarrow> ('e, 'p::linorder \<times> nat) result) \<Rightarrow> ('i \<rightharpoonup> 'i list) \<Rightarrow>
     ('p, 'i) tie_breaker list \<Rightarrow> 'i list \<Rightarrow> bool"
where
  "topo_inv g key_fn outdegree heap acc \<longleftrightarrow>
     (\<forall>n\<in>nodes g. \<exists>es. outdegree n = Some es \<and> set es = edges g n - set acc) \<and>
     distinct heap \<and> set heap = tb key_fn ` ready g (set acc) \<and> lex_topo g key_fn acc"

lemma map_of_node:
  assumes "n \<in> nodes g"
  shows "\<exists>es. map_of g n = Some es \<and> set es = edges g n"
  using assms by (cases "map_of g n") (auto simp: nodes_def edges_def map_of_eq_None_iff)

lemma topo_inv_start:
  assumes "distinct (map fst g)" 
  shows "topo_inv g key_fn (map_of g) (map (tb key_fn) (map fst (filter (\<lambda>(n, es). es = []) g))) []"
proof -
  have nil: "edges g n = {} \<longleftrightarrow> es = []" if "(n, es) \<in> set g" for n es
    using map_of_is_SomeI [OF assms that] by (simp add: edges_def)
  have "set (map fst (filter (\<lambda>(n, es). es = []) g)) = ready g {}"
    using nil by (fastforce simp: ready_def nodes_def)
  moreover have "distinct (map (tb key_fn) (map fst (filter (\<lambda>(n, es). es = []) g)))"
    using distinct_map_filter [OF assms] by (subst distinct_map) (simp add: inj_on_def)
  ultimately show ?thesis
    using map_of_node [of _ g] unfolding topo_inv_def by (simp only: set_map) simp
qed

lemma ready_step:
  assumes "n \<in> ready g D" and "\<And>m. m \<in> D \<Longrightarrow> edges g m \<subseteq> D"
  shows "ready g (insert n D) =
    (ready g D - {n}) \<union> {m \<in> nodes g. n \<in> edges g m \<and> edges g m \<subseteq> insert n D}"
  using assms by (auto simp: ready_def)

lemma topo_inv_step:
  assumes inv: "topo_inv g key_fn od heap acc" and g: "distinct (map fst g)"
    and keys: "\<And>n. n \<in> nodes g \<Longrightarrow> \<not> isl (key_fn n)"
    and pop: "heap_pop heap = Some (item, heap')"
  obtains n ps od' heap'' where "item = tb key_fn n" and "n \<in> nodes g" and "n \<notin> set acc"
    and "reverse_graph g n = Some ps"
    and "relax_parents key_fn n ps od heap' = Inr (od', heap'')"
    and "topo_inv g key_fn od' heap'' (acc @ [n])"
proof -
  note heap = heap_pop_SomeD [OF pop]
  from inv have od: "\<And>m. m \<in> nodes g \<Longrightarrow> \<exists>es. od m = Some es \<and> set es = edges g m - set acc"
    and dist: "distinct heap" and heap_set: "set heap = tb key_fn ` ready g (set acc)"
    and lex_acc: "lex_topo g key_fn acc"
    by (auto simp: topo_inv_def)
  from heap(1) heap_set obtain n where n: "item = tb key_fn n" "n \<in> ready g (set acc)" by auto
  then have node: "n \<in> nodes g" "n \<notin> set acc" by (auto simp: ready_def)
  obtain ps where ps: "reverse_graph g n = Some ps" "distinct ps"
    "set ps = {m \<in> nodes g. n \<in> edges g m}"
    by (rule reverse_graph_node [OF g node(1)])
  define od' where "od' = (\<lambda>p. if p \<in> set ps then Some (removeAll n (the (od p))) else od p)"
  define heap'' where
    "heap'' = rev (map (tb key_fn) (filter (\<lambda>p. removeAll n (the (od p)) = []) ps)) @ heap'"
  have relax: "relax_parents key_fn n ps od heap' = Inr (od', heap'')"
    unfolding od'_def heap''_def
  proof (rule relax_parents_eq)
    show "\<exists>es. od p = Some es" if "p \<in> set ps" for p
      using od ps(3) that by blast
  qed (use ps keys in auto)
  note closed = lex_topo_facts(3) [OF lex_acc]
  have lex: "lex_topo g key_fn (acc @ [n])"
    using lex_acc heap_set n heap(2) by (simp add: lex_topo_snoc)
  have od'_ok: "\<forall>m\<in>nodes g. \<exists>es. od' m = Some es \<and> set es = edges g m - set (acc @ [n])"
  proof
    fix m assume m: "m \<in> nodes g"
    then obtain es where "od m = Some es" "set es = edges g m - set acc" using od by blast
    then show "\<exists>es. od' m = Some es \<and> set es = edges g m - set (acc @ [n])"
      using m ps(3) by (auto simp: od'_def)
  qed
  have new: "set (filter (\<lambda>p. removeAll n (the (od p)) = []) ps) =
      {m \<in> nodes g. n \<in> edges g m \<and> edges g m \<subseteq> insert n (set acc)}"
  proof -
    have "removeAll n (the (od m)) = [] \<longleftrightarrow> edges g m \<subseteq> insert n (set acc)" if "m \<in> nodes g" for m
      using od [OF that] by (auto simp flip: set_empty)
    then show ?thesis using ps(3) by auto
  qed
  have old: "set heap' = tb key_fn ` (ready g (set acc) - {n})"
    using dist heap_set heap(3) n(1) by (auto simp: set_remove1_eq)
  have sets: "set heap'' = tb key_fn ` ready g (set (acc @ [n]))"
  proof -
    have "set heap'' = tb key_fn ` set (filter (\<lambda>p. removeAll n (the (od p)) = []) ps) \<union> set heap'"
      unfolding heap''_def by simp
    then show ?thesis
      unfolding new old using ready_step [OF n(2) closed] by auto
  qed
  have "distinct heap''"
  proof -
    have "m \<notin> ready g (set acc)" if "n \<in> edges g m" for m
      using that node by (auto simp: ready_def)
    then have "tb key_fn ` set (filter (\<lambda>p. removeAll n (the (od p)) = []) ps) \<inter> set heap' = {}"
      unfolding new old by auto
    then show ?thesis
      using dist heap(3) ps(2) unfolding heap''_def
      by (auto simp: distinct_map inj_on_def)
  qed
  with od'_ok sets lex have "topo_inv g key_fn od' heap'' (acc @ [n])"
    by (simp add: topo_inv_def)
  with n node ps(1) relax that show thesis by blast
qed

lemma finite_nodes [simp]: "finite (nodes g)"
  by (simp add: nodes_def)

lemma topo_loop_correct:
  assumes "topo_inv g key_fn od heap acc" and "distinct (map fst g)"
    and "\<And>n. n \<in> nodes g \<Longrightarrow> \<not> isl (key_fn n)"
  shows "\<exists>ys. topo_loop key_fn (reverse_graph g) od heap acc = Some (Inr ys) \<and>
    lex_topo g key_fn ys \<and> ready g (set ys) = {}"
  using assms(1)
proof (induction "card (nodes g - set acc)" arbitrary: od heap acc rule: less_induct)
  case less
  show ?case
  proof (cases "heap_pop heap")
    case None
    then show ?thesis
      using less.prems by (simp add: topo_loop.simps [of _ _ _ "[]"] topo_inv_def)
  next
    case (Some p)
    obtain item heap' where p: "p = (item, heap')" by (cases p)
    obtain n ps od' heap'' where n: "item = tb key_fn n" "n \<in> nodes g" "n \<notin> set acc"
      and ps: "reverse_graph g n = Some ps"
      and relax: "relax_parents key_fn n ps od heap' = Inr (od', heap'')"
      and inv: "topo_inv g key_fn od' heap'' (acc @ [n])"
      by (rule topo_inv_step [OF less.prems assms(2,3) Some [unfolded p]])
    have "card (nodes g - set (acc @ [n])) < card (nodes g - set acc)"
      using n by (intro psubset_card_mono) auto
    from less.hyps [OF this inv] show ?thesis
      using Some p n ps relax by (simp add: topo_loop.simps [of _ _ od heap])
  qed
qed

lemma sort_lex_topo:
  assumes "distinct (map fst g)" and "\<And>n. n \<in> nodes g \<Longrightarrow> \<not> isl (key_fn n)"
  shows "\<exists>ys. lexicographical_topological_sort g key_fn = Some (Inr ys) \<and>
    lex_topo g key_fn ys \<and> ready g (set ys) = {}"
  using topo_loop_correct [OF topo_inv_start [OF assms(1)] assms]
  by (simp add: lexicographical_topological_sort_def zero_outdegree_eq [OF assms(2)])

lemma ready_nonempty:
  fixes rank :: "'i \<Rightarrow> nat"
  assumes "\<And>n. n \<in> nodes g \<Longrightarrow> edges g n \<subseteq> nodes g"
    and "\<And>n e. n \<in> nodes g \<Longrightarrow> e \<in> edges g n \<Longrightarrow> rank e < rank n"
    and "n \<in> nodes g" and "n \<notin> D"
  shows "ready g D \<noteq> {}"
proof -
  obtain m where m: "m \<in> nodes g" "m \<notin> D" "\<And>k. k \<in> nodes g \<Longrightarrow> k \<notin> D \<Longrightarrow> rank m \<le> rank k"
    using ex_has_least_nat [of "\<lambda>k. k \<in> nodes g \<and> k \<notin> D" n rank] assms(3,4) by blast
  have "edges g m \<subseteq> D"
  proof
    fix e assume "e \<in> edges g m"
    with assms(1,2) m(1) have "e \<in> nodes g" "rank e < rank m" by blast+
    with m(3) [of e] show "e \<in> D" by auto
  qed
  with m show ?thesis by (auto simp: ready_def)
qed

lemma sort_all_nodes:
  fixes rank :: "'i::linorder \<Rightarrow> nat"
  assumes "distinct (map fst g)" and "\<And>n. n \<in> nodes g \<Longrightarrow> \<not> isl (key_fn n)"
    and "\<And>n. n \<in> nodes g \<Longrightarrow> edges g n \<subseteq> nodes g"
    and "\<And>n e. n \<in> nodes g \<Longrightarrow> e \<in> edges g n \<Longrightarrow> rank e < rank n"
  shows "\<exists>ys. lexicographical_topological_sort g key_fn = Some (Inr ys) \<and>
    lex_topo g key_fn ys \<and> distinct ys \<and> set ys = nodes g"
proof -
  obtain ys where ys: "lexicographical_topological_sort g key_fn = Some (Inr ys)"
    "lex_topo g key_fn ys" "ready g (set ys) = {}"
    using sort_lex_topo [of g key_fn] assms(1,2) by blast
  have "nodes g \<subseteq> set ys"
    using ready_nonempty [of g rank _ "set ys"] assms(3,4) ys(3) by blast
  with ys lex_topo_facts [OF ys(2)] show ?thesis by blast
qed

text \<open>
  C24: On an acyclic graph whose edges stay within the graph the lexicographical topological sort
  ends and returns every node once, each after all the nodes its edges lead to, and at each place
  the first of the nodes that could stand there: the one with the most power, then the oldest,
  then the one with the least id.
\<close>

theorem lexicographical_topological_sort_correct:
  fixes rank :: "'i::linorder \<Rightarrow> nat"
  assumes "distinct (map fst g)" and "\<And>n. n \<in> nodes g \<Longrightarrow> \<not> isl (key_fn n)"
    and "\<And>n. n \<in> nodes g \<Longrightarrow> edges g n \<subseteq> nodes g"
    and "\<And>n e. n \<in> nodes g \<Longrightarrow> e \<in> edges g n \<Longrightarrow> rank e < rank n"
  shows "\<exists>ys. lexicographical_topological_sort g key_fn = Some (Inr ys) \<and>
    distinct ys \<and> set ys = nodes g \<and>
    (\<forall>i<length ys. \<forall>e\<in>edges g (ys ! i). \<exists>j<i. ys ! j = e) \<and>
    (\<forall>i<length ys. \<forall>m\<in>ready g (set (take i ys)). tb key_fn (ys ! i) \<le> tb key_fn m)"
proof -
  obtain ys where ys: "lexicographical_topological_sort g key_fn = Some (Inr ys)"
    "lex_topo g key_fn ys" "distinct ys" "set ys = nodes g"
    using sort_all_nodes [of g key_fn rank] assms by blast
  moreover have "\<forall>i<length ys. \<forall>m\<in>ready g (set (take i ys)). tb key_fn (ys ! i) \<le> tb key_fn m"
    using ys(2) by (simp add: lex_topo_def)
  ultimately show ?thesis
    using lex_topo_edges_first [OF ys(2)] by blast
qed

definition sample_graph :: "nat graph" where
  "sample_graph = [(3, [1, 2]), (1, []), (2, [1])]"

definition sample_key :: "nat \<Rightarrow> (auth_error, nat \<times> nat) result" where
  "sample_key n = Inr (n, 0)"

theorem lexicographical_topological_sort_correct_witness:
  "\<exists>ys. lexicographical_topological_sort sample_graph sample_key = Some (Inr ys) \<and>
    distinct ys \<and> set ys = nodes sample_graph \<and>
    (\<forall>i<length ys. \<forall>e\<in>edges sample_graph (ys ! i). \<exists>j<i. ys ! j = e) \<and>
    (\<forall>i<length ys. \<forall>m\<in>ready sample_graph (set (take i ys)).
       tb sample_key (ys ! i) \<le> tb sample_key m)"
  by (rule lexicographical_topological_sort_correct [where rank = id])
    (auto simp: nodes_def edges_def sample_graph_def sample_key_def split: if_splits)

lemma sort_order_independent_aux:
  assumes "distinct (map fst g)" and "distinct (map fst g')"
    and "nodes g' = nodes g" and "\<And>n. edges g' n = edges g n"
    and "\<And>n. n \<in> nodes g \<Longrightarrow> \<not> isl (key_fn n)"
  shows "lexicographical_topological_sort g' key_fn = lexicographical_topological_sort g key_fn"
proof -
  have ready: "ready g' = ready g"
    using assms(3,4) by (simp add: ready_def fun_eq_iff)
  then have lex: "lex_topo g' key_fn = lex_topo g key_fn"
    by (simp add: lex_topo_def fun_eq_iff)
  from sort_lex_topo [OF assms(1,5)] sort_lex_topo [of g' key_fn] assms(2,3,5)
  show ?thesis
    using lex_topo_unique [of g key_fn] by (fastforce simp: ready lex)
qed

text \<open>
  The order in which the hash tables are iterated does not show in the result of the sort: two
  graphs with the same nodes and the same edges, listed in any order, sort the same way, cyclic
  ones included.
\<close>

theorem sort_order_independent:
  assumes "distinct (map fst g)" and "distinct (map fst g')"
    and "nodes g' = nodes g" and "\<And>n. edges g' n = edges g n"
    and "\<And>n. n \<in> nodes g \<Longrightarrow> \<not> isl (key_fn n)"
  shows "lexicographical_topological_sort g' key_fn = lexicographical_topological_sort g key_fn"
  using assms by (rule sort_order_independent_aux)

theorem sort_order_independent_witness:
  "lexicographical_topological_sort (rev sample_graph) sample_key =
   lexicographical_topological_sort sample_graph sample_key"
  by (rule sort_order_independent)
    (auto simp: nodes_def edges_def sample_graph_def sample_key_def)

subsection \<open>The graph is the auth chain within the conflicted set\<close>

definition auth_step :: "(event_id \<Rightarrow> 'c event option) \<Rightarrow> event_id set \<Rightarrow> (event_id \<times> event_id) set" where
  "auth_step fetch_event D = {(a, b). b \<in> set (auth_events_of fetch_event a) \<and> b \<in> D}"

lemma keys_graph_insert_edge [simp]: "map fst (graph_insert_edge eid aid g) = map fst g"
  by (simp add: graph_insert_edge_def case_prod_unfold)

lemma nodes_iff: "n \<in> nodes g \<longleftrightarrow> map_of g n \<noteq> None"
  by (simp add: nodes_def map_of_eq_None_iff)

lemma map_of_graph_insert_edge:
  "map_of (graph_insert_edge eid aid g) n =
     map_option (\<lambda>es. if n = eid then set_insert es aid else es) (map_of g n)"
proof (induction g)
  case (Cons p g)
  then show ?case by (cases p) (simp add: graph_insert_edge_def)
qed (simp add: graph_insert_edge_def)

lemma edges_graph_insert_edge:
  "edges (graph_insert_edge eid aid g) n =
     edges g n \<union> (if n = eid \<and> eid \<in> nodes g then {aid} else {})"
  by (cases "map_of g n") (auto simp: edges_def map_of_graph_insert_edge nodes_iff)

lemma distinct_graph_entry [simp]:
  "distinct (map fst (graph_entry g eid)) \<longleftrightarrow> distinct (map fst g)"
  by (auto simp: graph_entry_def nodes_def)

lemma edges_outside: "n \<notin> nodes g \<Longrightarrow> edges g n = {}"
  by (simp add: nodes_iff edges_def)

lemma edges_graph_entry [simp]: "edges (graph_entry g eid) n = edges g n"
  by (cases "map_of g n") (auto simp: graph_entry_def edges_def map_add_def)

lemma visit_auth_events_keys:
  "map fst (fst (visit_auth_events D eid aids g st)) = map fst g"
  by (induction aids arbitrary: g st) simp_all

lemma visit_auth_events_edges:
  "eid \<in> nodes g \<Longrightarrow> edges (fst (visit_auth_events D eid aids g st)) n =
     edges g n \<union> (if n = eid then set aids \<inter> D else {})"
  by (induction aids arbitrary: g st) (auto simp: edges_graph_insert_edge)

definition chain_inv ::
  "(event_id \<Rightarrow> 'c event option) \<Rightarrow> event_id set \<Rightarrow> event_id graph \<Rightarrow> event_id list \<Rightarrow> bool"
where
  "chain_inv fetch_event D g stack \<longleftrightarrow> distinct (map fst g) \<and>
     (\<forall>n\<in>nodes g. edges g n = auth_step fetch_event D `` {n} \<and> edges g n \<subseteq> nodes g \<union> set stack)"

lemma chain_inv_step:
  assumes inv: "chain_inv fetch_event (set d) g st" and st: "st \<noteq> []"
    and visit: "visit_auth_events (set d) (last st) (auth_events_of fetch_event (last st))
      (graph_entry g (last st)) (butlast st) = (g', st')"
  shows "chain_inv fetch_event (set d) g' st'" and "nodes g' = insert (last st) (nodes g)"
    and "set st \<subseteq> nodes g' \<union> set st'"
    and "set st' \<subseteq> set st \<union> auth_step fetch_event (set d) `` {last st}"
proof -
  note shape = visit_auth_events_shape [of "set d" "last st" "auth_events_of fetch_event (last st)"
      "graph_entry g (last st)" "butlast st", unfolded visit fst_conv snd_conv]
  show nodes: "nodes g' = insert (last st) (nodes g)"
    using shape(1) by simp
  have split: "set st = insert (last st) (set (butlast st))"
    using st by (metis append_butlast_last_id list.set(1,2) set_append Un_insert_right sup_bot_right)
  have st': "set st' = set (butlast st) \<union> (auth_step fetch_event (set d) `` {last st} - nodes g')"
    unfolding shape(2) nodes by (auto simp: auth_step_def)
  have edges: "edges g' n = edges g n \<union>
      (if n = last st then auth_step fetch_event (set d) `` {last st} else {})" for n
    using visit_auth_events_edges [of "last st" "graph_entry g (last st)" "set d"
        "auth_events_of fetch_event (last st)" "butlast st" n, unfolded visit]
    by (auto simp: auth_step_def)
  show "set st \<subseteq> nodes g' \<union> set st'" "set st' \<subseteq> set st \<union> auth_step fetch_event (set d) `` {last st}"
    using split st' nodes by auto
  have keys: "distinct (map fst g')"
    using visit_auth_events_keys [of "set d" "last st" "auth_events_of fetch_event (last st)"
        "graph_entry g (last st)" "butlast st", unfolded visit] inv
    by (simp add: chain_inv_def)
  have "edges g' n = auth_step fetch_event (set d) `` {n} \<and> edges g' n \<subseteq> nodes g' \<union> set st'"
    if "n \<in> nodes g'" for n
  proof (cases "n = last st")
    case True
    have "edges g n \<subseteq> auth_step fetch_event (set d) `` {n}"
      using inv edges_outside [of n g] by (cases "n \<in> nodes g") (auto simp: chain_inv_def)
    with True edges [of n] st' show ?thesis by auto
  next
    case False
    with that nodes inv have "edges g n = auth_step fetch_event (set d) `` {n}"
      "edges g n \<subseteq> nodes g \<union> set st" by (auto simp: chain_inv_def)
    with False edges [of n] split st' nodes show ?thesis by auto
  qed
  with keys show "chain_inv fetch_event (set d) g' st'"
    unfolding chain_inv_def by blast
qed

lemma add_to_graph_correct:
  assumes "chain_inv fetch_event (set d) g st"
  shows "chain_inv fetch_event (set d) (add_to_graph fetch_event d g st) [] \<and>
    nodes g \<union> set st \<subseteq> nodes (add_to_graph fetch_event d g st) \<and>
    nodes (add_to_graph fetch_event d g st) \<subseteq>
      nodes g \<union> (auth_step fetch_event (set d))\<^sup>* `` set st"
  using assms
proof (induction fetch_event d g st rule: add_to_graph.induct)
  case (1 fetch_event d g st)
  show ?case
  proof (cases "st = []")
    case True
    with "1.prems" show ?thesis by (simp add: add_to_graph.simps)
  next
    case False
    obtain g' st' where visit: "visit_auth_events (set d) (last st)
      (auth_events_of fetch_event (last st)) (graph_entry g (last st)) (butlast st) = (g', st')"
      by fastforce
    note step = chain_inv_step [OF "1.prems" False visit]
    have eq: "add_to_graph fetch_event d g st = add_to_graph fetch_event d g' st'"
      using False visit by (simp add: add_to_graph.simps [of _ _ g st])
    have "chain_inv fetch_event (set d) (add_to_graph fetch_event d g' st') []"
      "nodes g' \<union> set st' \<subseteq> nodes (add_to_graph fetch_event d g' st')"
      and reach: "nodes (add_to_graph fetch_event d g' st') \<subseteq>
        nodes g' \<union> (auth_step fetch_event (set d))\<^sup>* `` set st'"
      using "1.IH" [OF False refl visit [symmetric] refl step(1)] by auto
    moreover have "last st \<in> set st" using False by simp
    then have "nodes g' \<union> (auth_step fetch_event (set d))\<^sup>* `` set st' \<subseteq>
        nodes g \<union> (auth_step fetch_event (set d))\<^sup>* `` set st"
      using step(2,4) by (auto intro: converse_rtrancl_into_rtrancl)
    ultimately show ?thesis
      unfolding eq using step(2,3) by blast
  qed
qed

lemma chain_inv_weaken: "chain_inv fetch_event D g [] \<Longrightarrow> chain_inv fetch_event D g stack"
  by (auto simp: chain_inv_def)

lemma chain_inv_closed:
  assumes "chain_inv fetch_event D g []" and "a \<in> nodes g" and "(a, b) \<in> (auth_step fetch_event D)\<^sup>*"
  shows "b \<in> nodes g"
  using assms(3)
proof (induction rule: rtrancl_induct)
  case (step y z)
  then have "z \<in> edges g y"
    using assms(1) by (simp add: chain_inv_def)
  with step assms(1) show ?case
    unfolding chain_inv_def by (metis empty_set subsetD sup_bot.right_neutral)
qed (rule assms(2))

lemma power_graph_correct:
  fixes fetch_event :: "event_id \<Rightarrow> 'c event option" and d :: "event_id list"
  defines "graph \<equiv> \<lambda>es. foldl (add_event_and_auth_chain_to_graph fetch_event d) [] es"
  shows "chain_inv fetch_event (set d) (graph es) [] \<and>
    nodes (graph es) = (auth_step fetch_event (set d))\<^sup>* `` set es"
proof (induction es rule: rev_induct)
  case Nil
  then show ?case by (simp add: graph_def chain_inv_def nodes_def)
next
  case (snoc e es)
  let ?g = "graph es" and ?g' = "graph (es @ [e])"
  have g': "?g' = add_to_graph fetch_event d ?g [e]"
    by (simp add: graph_def add_event_and_auth_chain_to_graph_def)
  have "chain_inv fetch_event (set d) ?g [e]"
    using conjunct1 [OF snoc.IH] by (rule chain_inv_weaken)
  note correct = add_to_graph_correct [OF this, folded g']
  then have "(auth_step fetch_event (set d))\<^sup>* `` {e} \<subseteq> nodes ?g'"
    using chain_inv_closed [of fetch_event "set d" ?g' e] by auto
  with correct snoc.IH show ?case by auto
qed

lemma event_to_pl_ok:
  "(\<And>e. e \<in> set es \<Longrightarrow> \<not> isl (get_pl e)) \<Longrightarrow>
    event_to_pl get_pl es = Inr (map (\<lambda>e. (e, projr (get_pl e))) es)"
proof (induction es)
  case (Cons e es)
  then have "\<not> isl (get_pl e)" by simp
  with Cons show ?case by (cases "get_pl e") auto
qed simp

lemma map_of_self_map: "map_of (map (\<lambda>e. (e, f e)) es) e = (if e \<in> set es then Some (f e) else None)"
  by (induction es) auto

subsection \<open>The power sort\<close>

definition auth_chain_in :: "(event_id \<Rightarrow> 'c event option) \<Rightarrow> event_id list \<Rightarrow> event_id list \<Rightarrow> event_id set" where
  "auth_chain_in fetch_event auth_diff es = (auth_step fetch_event (set auth_diff))\<^sup>* `` set es"

definition power_key ::
  "(event_id \<Rightarrow> (auth_error, user_power) result) \<Rightarrow> (event_id \<Rightarrow> 'c event option) \<Rightarrow> event_id \<Rightarrow>
     (user_power, event_id) tie_breaker"
where
  "power_key get_pl fetch_event e =
     TieBreaker (projr (get_pl e)) (origin_server_ts (the (fetch_event e))) e"

lemma power_sort_run:
  fixes R :: "'c ruma" and fetch_event :: "event_id \<Rightarrow> 'c event option"
    and arrival :: "'c event list \<Rightarrow> 'c event list" and rv :: room_version
  defines "get_pl \<equiv> get_power_level_for_sender R rv arrival fetch_event"
  assumes "\<And>e. e \<in> auth_chain_in fetch_event d es \<Longrightarrow> fetch_event e \<noteq> None \<and> \<not> isl (get_pl e)"
  obtains g key_fn where "reverse_topological_power_sort R rv arrival es d fetch_event =
      lexicographical_topological_sort g key_fn"
    and "distinct (map fst g)" and "nodes g = auth_chain_in fetch_event d es"
    and "\<forall>n\<in>nodes g. edges g n = auth_step fetch_event (set d) `` {n}"
    and "\<forall>n\<in>nodes g. \<not> isl (key_fn n) \<and> tb key_fn n = power_key get_pl fetch_event n"
    and "key_fn = power_sort_key (map (\<lambda>e. (e, projr (get_pl e))) (map fst g)) fetch_event"
proof -
  define g where "g = foldl (add_event_and_auth_chain_to_graph fetch_event d) [] es"
  define pls where "pls = map (\<lambda>e. (e, projr (get_pl e))) (map fst g)"
  have g: "chain_inv fetch_event (set d) g []" "nodes g = auth_chain_in fetch_event d es"
    using power_graph_correct [of fetch_event d es] by (simp_all add: g_def auth_chain_in_def)
  have "event_to_pl get_pl (map fst g) = Inr pls"
    unfolding pls_def by (rule event_to_pl_ok) (use assms(2) g(2) in \<open>auto simp: nodes_def\<close>)
  then have run: "reverse_topological_power_sort R rv arrival es d fetch_event =
      lexicographical_topological_sort g (power_sort_key pls fetch_event)"
    by (simp add: reverse_topological_power_sort_def Let_def g_def get_pl_def)
  have key: "\<not> isl (power_sort_key pls fetch_event n) \<and>
      tb (power_sort_key pls fetch_event) n = power_key get_pl fetch_event n" if node: "n \<in> nodes g" for n
  proof -
    have "map_of pls n = Some (projr (get_pl n))"
      using node by (simp add: pls_def map_of_self_map nodes_def del: map_map)
    moreover obtain ev where "fetch_event n = Some ev"
      using assms(2) [of n] node g(2) by auto
    ultimately show ?thesis
      by (simp add: power_sort_key_def ok_or_def tb_def power_key_def)
  qed
  show thesis
    by (rule that [OF run _ g(2)]) (use g(1) key in \<open>auto simp: chain_inv_def pls_def\<close>)
qed

text \<open>
  C1: When the auth events form no cycle and the events of the chains and their power levels can be
  read, the power sort ends and returns exactly the given events and everything reachable from
  them by auth events inside the conflicted set, each once, each after its auth events there, and
  among the events that could come next the one whose sender has the most power, then the oldest,
  then the least id.
\<close>

theorem power_sort_correct:
  fixes rank :: "event_id \<Rightarrow> nat"
  assumes "\<And>e ev a. fetch_event e = Some ev \<Longrightarrow> a \<in> set (auth_events ev) \<Longrightarrow> rank a < rank e"
    and "\<And>e. e \<in> auth_chain_in fetch_event d es \<Longrightarrow> fetch_event e \<noteq> None \<and>
      \<not> isl (get_power_level_for_sender R rv arrival fetch_event e)"
  shows "\<exists>ys. reverse_topological_power_sort R rv arrival es d fetch_event = Some (Inr ys) \<and>
    distinct ys \<and> set ys = auth_chain_in fetch_event d es \<and>
    (\<forall>i<length ys. \<forall>a\<in>set (auth_events_of fetch_event (ys ! i)) \<inter> set d. \<exists>j<i. ys ! j = a) \<and>
    (\<forall>i<length ys. \<forall>m\<in>set (drop i ys).
       set (auth_events_of fetch_event m) \<inter> set d \<subseteq> set (take i ys) \<longrightarrow>
       power_key (get_power_level_for_sender R rv arrival fetch_event) fetch_event (ys ! i)
         \<le> power_key (get_power_level_for_sender R rv arrival fetch_event) fetch_event m)"
proof -
  let ?pl = "get_power_level_for_sender R rv arrival fetch_event"
  obtain g key_fn where run: "reverse_topological_power_sort R rv arrival es d fetch_event =
      lexicographical_topological_sort g key_fn"
    and g: "distinct (map fst g)" "nodes g = auth_chain_in fetch_event d es"
    and edges: "\<forall>n\<in>nodes g. edges g n = auth_step fetch_event (set d) `` {n}"
    and key: "\<forall>n\<in>nodes g. \<not> isl (key_fn n) \<and> tb key_fn n = power_key ?pl fetch_event n"
    and "key_fn = power_sort_key (map (\<lambda>e. (e, projr (?pl e))) (map fst g)) fetch_event"
    by (rule power_sort_run [OF assms(2)])
  have succ: "edges g n = set (auth_events_of fetch_event n) \<inter> set d" if "n \<in> nodes g" for n
    using bspec [OF edges that] by (auto simp: auth_step_def)
  have "edges g n \<subseteq> nodes g" if "n \<in> nodes g" for n
    using bspec [OF edges that] that unfolding g(2) auth_chain_in_def by (auto intro: rtrancl_into_rtrancl)
  moreover have "rank a < rank n" if "n \<in> nodes g" "a \<in> edges g n" for n a
    using that(2) [unfolded succ [OF that(1)]] assms(1) [of n]
    by (cases "fetch_event n") (auto simp: auth_events_of_def)
  ultimately obtain ys where sort: "lexicographical_topological_sort g key_fn = Some (Inr ys)"
    and lex: "lex_topo g key_fn ys" and ys: "distinct ys" "set ys = nodes g"
    using sort_all_nodes [of g key_fn rank] g(1) key by blast
  have "\<exists>j<i. ys ! j = a" if "i < length ys" "a \<in> set (auth_events_of fetch_event (ys ! i)) \<inter> set d" for i a
    using lex_topo_edges_first [OF lex] succ ys(2) that nth_mem by metis
  moreover have "power_key ?pl fetch_event (ys ! i) \<le> power_key ?pl fetch_event m"
    if "i < length ys" "m \<in> set (drop i ys)"
      "set (auth_events_of fetch_event m) \<inter> set d \<subseteq> set (take i ys)" for i m
  proof -
    have "m \<in> set ys" "m \<notin> set (take i ys)"
      using that(2) ys(1) in_set_dropD [OF that(2)]
      by (simp, metis disjoint_iff set_take_disj_set_drop_if_distinct order_refl)
    then have "m \<in> ready g (set (take i ys))"
      using ys(2) succ that(3) by (simp add: ready_def)
    then have "tb key_fn (ys ! i) \<le> tb key_fn m"
      using lex that(1) by (simp add: lex_topo_def)
    then show ?thesis
      using key ys(2) \<open>m \<in> set ys\<close> that(1) by (metis nth_mem)
  qed
  ultimately show ?thesis
    using run sort ys g(2) by (intro exI [of _ ys]) auto
qed

lemma auth_chain_in_subset: "auth_chain_in fetch_event d es \<subseteq> set es \<union> set d"
proof -
  have "b \<in> set es \<union> set d" if "(a, b) \<in> (auth_step fetch_event (set d))\<^sup>*" "a \<in> set es" for a b
    using that by (induction rule: rtrancl_induct) (auto simp: auth_step_def)
  then show ?thesis by (auto simp: auth_chain_in_def)
qed

theorem power_sort_correct_witness:
  "\<exists>ys. reverse_topological_power_sort sample_ruma RV10 rev [''$ban'', ''$rules'']
      [''$rules'', ''$ban'', ''$bob''] sample_fetch = Some (Inr ys) \<and>
    distinct ys \<and> set ys = auth_chain_in sample_fetch [''$rules'', ''$ban'', ''$bob''] [''$ban'', ''$rules'']"
proof -
  have "sample_fetch e \<noteq> None \<and>
      \<not> isl (get_power_level_for_sender sample_ruma RV10 rev sample_fetch e)"
    if "e \<in> auth_chain_in sample_fetch [''$rules'', ''$ban'', ''$bob''] [''$ban'', ''$rules'']" for e
  proof -
    have "list_all (\<lambda>e. sample_fetch e \<noteq> None \<and>
        \<not> isl (get_power_level_for_sender sample_ruma RV10 rev sample_fetch e))
      [''$rules'', ''$ban'', ''$bob'']"
      by code_simp
    moreover have "e \<in> set [''$rules'', ''$ban'', ''$bob'']"
      using subsetD [OF auth_chain_in_subset that] by auto
    ultimately show ?thesis
      unfolding list_all_iff by blast
  qed
  then show ?thesis
    using power_sort_correct [of sample_fetch sample_rank "[''$rules'', ''$ban'', ''$bob'']"
        "[''$ban'', ''$rules'']" sample_ruma RV10 rev] sample_rank_less by blast
qed

definition unique_by_type :: "(event_id \<Rightarrow> 'c event option) \<Rightarrow> event_id \<Rightarrow> bool" where
  "unique_by_type fetch_event e \<longleftrightarrow>
     (\<forall>t\<in>{RoomPowerLevels, RoomCreate}.
        let auths = set (List.map_filter fetch_event (auth_events_of fetch_event e))
        in \<forall>a\<in>auths. \<forall>b\<in>auths. is_type_and_key a t [] \<and> is_type_and_key b t [] \<longrightarrow> a = b)"

lemma find_unique:
  assumes "set xs = set ys" and "\<And>a b. a \<in> set xs \<Longrightarrow> b \<in> set xs \<Longrightarrow> P a \<Longrightarrow> P b \<Longrightarrow> a = b"
  shows "List.find P xs = List.find P ys"
proof (cases "List.find P ys")
  case None
  then have "List.find P xs = None" using assms(1) by (auto simp: find_None_iff)
  with None show ?thesis by simp
next
  case (Some y)
  then have y: "y \<in> set xs" "P y"
    using assms(1) by (auto simp: find_Some_iff)
  then obtain x where x: "List.find P xs = Some x"
    by (cases "List.find P xs") (auto simp: find_None_iff)
  then have "x \<in> set xs" "P x" by (auto simp: find_Some_iff)
  with assms(2) y x Some show ?thesis by simp
qed

lemma get_power_level_for_sender_arrival:
  assumes "\<And>xs. mset (arrival xs) = mset xs" and "\<And>xs. mset (arrival' xs) = mset xs"
    and "unique_by_type fetch_event e"
  shows "get_power_level_for_sender R rv arrival fetch_event e =
    get_power_level_for_sender R rv arrival' fetch_event e"
proof -
  let ?auths = "List.map_filter fetch_event (auth_events_of fetch_event e)"
  have sets: "set (arrival ?auths) = set ?auths" "set (arrival' ?auths) = set ?auths"
    using assms(1,2) by (metis set_mset_mset)+
  have find: "List.find (\<lambda>aev. is_type_and_key aev t []) (arrival ?auths) =
      List.find (\<lambda>aev. is_type_and_key aev t []) (arrival' ?auths)"
    if "t \<in> {RoomPowerLevels, RoomCreate}" for t
    by (rule find_unique) (use sets assms(3) that in \<open>auto simp: unique_by_type_def Let_def\<close>)
  show ?thesis
    using find [of RoomPowerLevels] find [of RoomCreate]
    by (simp add: get_power_level_for_sender_def Let_def cong: option.case_cong)
qed

text \<open>
  C25: Neither the order in which the fetches of auth events complete, nor the order in which the
  hash sets list the events to sort and the conflicted set, shows in the result of the power sort,
  as long as no event names two power levels events or two create events among its auth events.
\<close>

theorem power_sort_deterministic:
  assumes "\<And>xs. mset (arrival xs) = mset xs" and "\<And>xs. mset (arrival' xs) = mset xs"
    and "set es' = set es" and "set d' = set d"
    and "\<And>e. e \<in> auth_chain_in fetch_event d es \<Longrightarrow> fetch_event e \<noteq> None \<and>
      \<not> isl (get_power_level_for_sender R rv arrival fetch_event e) \<and> unique_by_type fetch_event e"
  shows "reverse_topological_power_sort R rv arrival' es' d' fetch_event =
    reverse_topological_power_sort R rv arrival es d fetch_event"
proof -
  let ?pl = "get_power_level_for_sender R rv arrival fetch_event"
  let ?pl' = "get_power_level_for_sender R rv arrival' fetch_event"
  have chain: "auth_chain_in fetch_event d' es' = auth_chain_in fetch_event d es"
    using assms(3,4) by (simp add: auth_chain_in_def)
  have pl: "?pl' e = ?pl e" if "e \<in> auth_chain_in fetch_event d es" for e
    using get_power_level_for_sender_arrival [OF assms(2,1)] assms(5) [OF that] by blast
  obtain g key where g: "reverse_topological_power_sort R rv arrival es d fetch_event =
      lexicographical_topological_sort g key" "distinct (map fst g)"
    "nodes g = auth_chain_in fetch_event d es" "\<forall>n\<in>nodes g. edges g n = auth_step fetch_event (set d) `` {n}"
    "\<forall>n\<in>nodes g. \<not> isl (key n) \<and> tb key n = power_key ?pl fetch_event n"
    "key = power_sort_key (map (\<lambda>e. (e, projr (?pl e))) (map fst g)) fetch_event"
    by (rule power_sort_run [of fetch_event d es R rv arrival]) (use assms(5) in blast)+
  obtain g' key' where g': "reverse_topological_power_sort R rv arrival' es' d' fetch_event =
      lexicographical_topological_sort g' key'" "distinct (map fst g')"
    "nodes g' = auth_chain_in fetch_event d' es'"
    "\<forall>n\<in>nodes g'. edges g' n = auth_step fetch_event (set d') `` {n}"
    "\<forall>n\<in>nodes g'. \<not> isl (key' n) \<and> tb key' n = power_key ?pl' fetch_event n"
    "key' = power_sort_key (map (\<lambda>e. (e, projr (?pl' e))) (map fst g')) fetch_event"
    by (rule power_sort_run [of fetch_event d' es' R rv arrival']) (use assms(5) pl chain in auto)
  have "map_of (map (\<lambda>e. (e, projr (?pl' e))) (map fst g')) n =
      map_of (map (\<lambda>e. (e, projr (?pl e))) (map fst g)) n" for n
    using pl g(3) g'(3) chain by (simp add: map_of_self_map nodes_def del: map_map)
  then have "key' = key"
    unfolding g(6) g'(6) power_sort_key_def by simp
  moreover have "edges g' n = edges g n" for n
    using g(3,4) g'(3,4) chain assms(4) edges_outside [of n g] edges_outside [of n g']
    by (cases "n \<in> nodes g") auto
  ultimately show ?thesis
    using sort_order_independent_aux [of g g' key] g g' chain by simp
qed

theorem power_sort_deterministic_witness:
  "reverse_topological_power_sort sample_ruma RV10 rev [''$rules'', ''$ban'']
     [''$ban'', ''$rules'', ''$bob''] sample_fetch =
   reverse_topological_power_sort sample_ruma RV10 id [''$ban'', ''$rules'']
     [''$rules'', ''$ban'', ''$bob''] sample_fetch"
proof (rule power_sort_deterministic)
  fix e assume "e \<in> auth_chain_in sample_fetch [''$rules'', ''$ban'', ''$bob''] [''$ban'', ''$rules'']"
  then have e: "e \<in> set [''$rules'', ''$ban'', ''$bob'']"
    using auth_chain_in_subset by fastforce
  have "list_all (\<lambda>e. sample_fetch e \<noteq> None \<and>
      \<not> isl (get_power_level_for_sender sample_ruma RV10 id sample_fetch e) \<and>
      unique_by_type sample_fetch e) [''$rules'', ''$ban'', ''$bob'']"
    by code_simp
  with e show "sample_fetch e \<noteq> None \<and>
      \<not> isl (get_power_level_for_sender sample_ruma RV10 id sample_fetch e) \<and>
      unique_by_type sample_fetch e"
    unfolding list_all_iff by blast
qed auto

end
