(* ===== verification/State_Res.thy ===== *)
theory State_Res
  imports Event_Auth State_Sort "HOL-Library.Product_Lexorder"
begin

section \<open>State resolution\<close>

text \<open>
  \<open>state_res/mod.rs\<close> (\<open>resolve\<close>, \<open>separate\<close>, \<open>get_auth_chain_diff\<close>, \<open>conflicted_state_subgraph\<close>),
  \<open>state_res/mainline.rs\<close> and \<open>state_res/auth_check.rs\<close>, on top of the authorization rules and the
  power sort.

  A \<open>StateMap\<close> that is iterated is an association list with distinct keys; one that is only
  looked up is a map. The counters of occurrences are natural numbers: they count the state sets
  and the auth chain sets given, which fit in a \<open>usize\<close>. Where the source collects into a
  \<open>HashSet\<close> it iterates later, \<open>order\<close> is the order the set lists its elements in.
\<close>

subsection \<open>Separating the state sets\<close>

type_synonym state_alist = "(state_key_pair \<times> event_id) list"

text \<open>\<open>entry(k).and_modify(f).or_insert(d)\<close>\<close>

definition upsert :: "'k \<Rightarrow> ('v \<Rightarrow> 'v) \<Rightarrow> 'v \<Rightarrow> ('k \<times> 'v) list \<Rightarrow> ('k \<times> 'v) list" where
  "upsert k f d m =
     (if k \<in> fst ` set m then map (\<lambda>(k', v). (k', if k' = k then f v else v)) m
      else m @ [(k, d)])"

definition occurrences ::
  "(state_key_pair \<times> event_id) list \<Rightarrow> (state_key_pair \<times> (event_id \<times> nat) list) list"
where
  "occurrences entries =
     foldl (\<lambda>occ (k, v). upsert k (upsert v Suc 1) [(v, 1)] occ) [] entries"

definition separate_step ::
  "nat \<Rightarrow> event_id state_map \<times> (state_key_pair \<times> event_id list) list \<Rightarrow>
     state_key_pair \<times> event_id \<times> nat \<Rightarrow>
     event_id state_map \<times> (state_key_pair \<times> event_id list) list"
where
  "separate_step state_set_count acc entry =
     (case (acc, entry) of ((unconflicted, conflicted), (k, i, c)) \<Rightarrow>
        if c = state_set_count then (unconflicted(k \<mapsto> i), conflicted)
        else (unconflicted, upsert k (\<lambda>x. x @ [i]) [i] conflicted))"

definition separate ::
  "state_alist list \<Rightarrow> event_id state_map \<times> (state_key_pair \<times> event_id list) list"
where
  "separate state_sets =
     foldl (separate_step (length state_sets)) (Map.empty, [])
       (concat (map (\<lambda>(k, v). map (\<lambda>(i, c). (k, i, c)) v) (occurrences (concat state_sets))))"

definition get_auth_chain_diff :: "event_id list list \<Rightarrow> event_id list" where
  "get_auth_chain_diff auth_chain_sets =
     map fst (filter (\<lambda>(i, c). c < length auth_chain_sets)
       (foldl (\<lambda>counts i. upsert i Suc 1 counts) [] (concat auth_chain_sets)))"

subsection \<open>The conflicted state subgraph\<close>

text \<open>The walk of \<open>conflicted_state_subgraph\<close>; the stack is popped at its end.\<close>

definition reaches_conflicted ::
  "event_id list \<Rightarrow> (event_id \<rightharpoonup> event_id list) \<Rightarrow> (event_id \<rightharpoonup> bool) \<Rightarrow> event_id \<Rightarrow> bool"
where
  "reaches_conflicted conflicted auth_of reaches eid =
     (eid \<in> set conflicted \<or>
      list_ex (\<lambda>a. unwrap_or False (reaches a)) (unwrap_or [] (auth_of eid)))"

partial_function (option) subgraph_loop ::
  "event_id list \<Rightarrow> (event_id \<Rightarrow> 'c event option) \<Rightarrow> (event_id \<times> bool) list \<Rightarrow>
     (event_id \<rightharpoonup> event_id list) \<Rightarrow> (event_id \<times> bool) list \<Rightarrow> (event_id \<times> bool) list option"
where
  "subgraph_loop conflicted event_fetch reaches auth_of stack =
     (if stack = [] then Some reaches
      else
        let eid = fst (last stack); rest = butlast stack in
        if snd (last stack) then
          let r = reaches_conflicted conflicted auth_of (map_of reaches) eid in
          subgraph_loop conflicted event_fetch (upsert eid (\<lambda>_. r) r reaches) auth_of rest
        else if auth_of eid \<noteq> None then
          subgraph_loop conflicted event_fetch reaches auth_of rest
        else
          let auths = auth_events_of event_fetch eid in
          subgraph_loop conflicted event_fetch reaches (auth_of(eid \<mapsto> auths))
            (rest @ [(eid, True)] @
             map (\<lambda>a. (a, False)) (filter (\<lambda>a. auth_of a = None) auths)))"

declare subgraph_loop.simps [code]

definition conflicted_state_subgraph ::
  "event_id list \<Rightarrow> (event_id \<Rightarrow> 'c event option) \<Rightarrow> event_id list option"
where
  "conflicted_state_subgraph conflicted event_fetch =
     map_option (\<lambda>reaches. map fst (filter snd reaches))
       (subgraph_loop conflicted event_fetch [] Map.empty (map (\<lambda>i. (i, False)) conflicted))"

subsection \<open>The mainline\<close>

text \<open>The inner loops over \<open>auth_events\<close>: the first power levels event among them.\<close>

fun find_power_levels ::
  "(event_id \<Rightarrow> 'c event option) \<Rightarrow> event_id list \<Rightarrow> (auth_error, (event_id \<times> 'c event) option) result"
where
  "find_power_levels fetch_event [] = Inr None"
| "find_power_levels fetch_event (aid # aids) =
     (case fetch_event aid of
        None \<Rightarrow> Inl (NotFound aid)
      | Some ev \<Rightarrow>
          if is_type_and_key ev RoomPowerLevels [] then Inr (Some (aid, ev))
          else find_power_levels fetch_event aids)"

partial_function (option) mainline_loop ::
  "(event_id \<Rightarrow> 'c event option) \<Rightarrow> event_id list \<Rightarrow> event_id option \<Rightarrow> (auth_error, event_id list) run"
where
  "mainline_loop fetch_event mainline pl =
     (case pl of
        None \<Rightarrow> Some (Inr mainline)
      | Some p \<Rightarrow>
          (case fetch_event p of
             None \<Rightarrow> Some (Inl (NotFound p))
           | Some event \<Rightarrow>
               (case find_power_levels fetch_event (auth_events event) of
                  Inl e \<Rightarrow> Some (Inl e)
                | Inr next_pl \<Rightarrow>
                    mainline_loop fetch_event (mainline @ [p]) (map_option fst next_pl))))"

declare mainline_loop.simps [code]

definition mainline_map :: "event_id list \<Rightarrow> (event_id \<rightharpoonup> nat)" where
  "mainline_map mainline =
     foldl (\<lambda>m (idx, eid). m(eid \<mapsto> idx)) Map.empty (enumerate 0 (rev mainline))"

partial_function (option) get_mainline_depth ::
  "'c event option \<Rightarrow> (event_id \<rightharpoonup> nat) \<Rightarrow> (event_id \<Rightarrow> 'c event option) \<Rightarrow> (auth_error, nat) run"
where
  "get_mainline_depth event mm fetch_event =
     (case event of
        None \<Rightarrow> Some (Inr 0)
      | Some sort_ev \<Rightarrow>
          (case mm (event_id sort_ev) of
             Some depth \<Rightarrow> Some (Inr depth)
           | None \<Rightarrow>
               (case find_power_levels fetch_event (auth_events sort_ev) of
                  Inl e \<Rightarrow> Some (Inl e)
                | Inr next_pl \<Rightarrow> get_mainline_depth (map_option snd next_pl) mm fetch_event)))"

declare get_mainline_depth.simps [code]

text \<open>
  The entries of \<open>order_map\<close>: events that cannot be fetched, and those whose depth is an error,
  are left out.
\<close>

fun order_map ::
  "(event_id \<rightharpoonup> nat) \<Rightarrow> (event_id \<Rightarrow> 'c event option) \<Rightarrow> event_id list \<Rightarrow>
     (event_id \<times> nat \<times> nat \<times> event_id) list option"
where
  "order_map mm fetch_event [] = Some []"
| "order_map mm fetch_event (eid # eids) =
     (case fetch_event eid of
        None \<Rightarrow> order_map mm fetch_event eids
      | Some ev \<Rightarrow>
          Option.bind (get_mainline_depth (Some ev) mm fetch_event) (\<lambda>r.
          Option.bind (order_map mm fetch_event eids) (\<lambda>rest.
            case r of
              Inl _ \<Rightarrow> Some rest
            | Inr depth \<Rightarrow> Some ((eid, depth, origin_server_ts ev, eid) # rest))))"

definition mainline_sort ::
  "event_id list \<Rightarrow> event_id option \<Rightarrow> (event_id \<Rightarrow> 'c event option) \<Rightarrow> (auth_error, event_id list) run"
where
  "mainline_sort to_sort resolved_power_level fetch_event =
     (if to_sort = [] then Some (Inr [])
      else run_bind (mainline_loop fetch_event [] resolved_power_level) (\<lambda>mainline.
        map_option (\<lambda>om. Inr (sort_key (\<lambda>i. the (map_of om i)) (map fst om)))
          (order_map (mainline_map mainline) fetch_event to_sort)))"

subsection \<open>The iterative auth check\<close>

fun fetch_all ::
  "(event_id \<Rightarrow> 'c event option) \<Rightarrow> event_id list \<Rightarrow> (auth_error, 'c event list) result"
where
  "fetch_all fetch_event [] = Inr []"
| "fetch_all fetch_event (eid # eids) =
     res_bind (ok_or (NotFound eid) (fetch_event eid)) (\<lambda>ev.
     res_bind (fetch_all fetch_event eids) (\<lambda>evs. Inr (ev # evs)))"

text \<open>The auth events of all the events to check, by their own id.\<close>

definition collect_auth_events ::
  "(event_id \<Rightarrow> 'c event option) \<Rightarrow> 'c event list \<Rightarrow> (event_id \<rightharpoonup> 'c event)"
where
  "collect_auth_events fetch_event events =
     foldl (\<lambda>m ev. m(event_id ev \<mapsto> ev)) Map.empty
       (List.map_filter fetch_event (remdups (concat (map auth_events events))))"

fun auth_state_of ::
  "(event_id \<rightharpoonup> 'c event) \<Rightarrow> event_id list \<Rightarrow> 'c event state_map \<Rightarrow>
     (auth_error, 'c event state_map) result"
where
  "auth_state_of auths [] auth_state = Inr auth_state"
| "auth_state_of auths (aid # aids) auth_state =
     (case auths aid of
        None \<Rightarrow> auth_state_of auths aids auth_state
      | Some ev \<Rightarrow>
          res_bind (ok_or InvalidPdu (state_key ev)) (\<lambda>k.
            auth_state_of auths aids (auth_state(with_state_key (event_type ev) k \<mapsto> ev))))"

text \<open>The resolved state overrides the event's own auth events at the keys its check reads.\<close>

definition override_step ::
  "(event_id \<Rightarrow> 'c event option) \<Rightarrow> (event_id \<rightharpoonup> 'c event) \<Rightarrow> event_id state_map \<Rightarrow>
     'c event state_map \<Rightarrow> state_key_pair \<Rightarrow> 'c event state_map"
where
  "override_step fetch_event auths resolved_state auth_state key =
     (case resolved_state key of
        None \<Rightarrow> auth_state
      | Some ev_id \<Rightarrow>
          (case (case auths ev_id of Some ev \<Rightarrow> Some ev | None \<Rightarrow> fetch_event ev_id) of
             None \<Rightarrow> auth_state
           | Some ev \<Rightarrow> auth_state(key \<mapsto> ev)))"

definition add_create_event ::
  "'c ruma \<Rightarrow> room_version \<Rightarrow> (event_id \<Rightarrow> 'c event option) \<Rightarrow> 'c event \<Rightarrow> 'c event state_map \<Rightarrow>
     'c event state_map"
where
  "add_create_event R rv fetch_event ev auth_state =
     (if room_create_event_id_as_room_id rv \<and> auth_state (RoomCreate, []) = None then
        (case Option.bind (create_event_id_of R (room_id ev)) fetch_event of
           None \<Rightarrow> auth_state
         | Some create \<Rightarrow> auth_state((RoomCreate, []) \<mapsto> create))
      else auth_state)"

definition check_auth_state ::
  "'c ruma \<Rightarrow> room_version \<Rightarrow> (event_id \<Rightarrow> 'c event option) \<Rightarrow> (event_id \<rightharpoonup> 'c event) \<Rightarrow>
     event_id state_map \<Rightarrow> 'c event \<Rightarrow> string \<Rightarrow> (auth_error, 'c event state_map) result"
where
  "check_auth_state R rv fetch_event auths resolved_state ev key =
     res_bind (auth_types_for_event R rv (event_type ev) (sender ev) (Some key) (content ev))
       (\<lambda>auth_types.
     res_bind (auth_state_of auths (auth_events ev) Map.empty) (\<lambda>auth_state.
       Inr (add_create_event R rv fetch_event ev
         (foldl (override_step fetch_event auths resolved_state) auth_state auth_types))))"

fun check_events ::
  "'c ruma \<Rightarrow> room_version \<Rightarrow> (event_id \<Rightarrow> 'c event option) \<Rightarrow> (event_id \<rightharpoonup> 'c event) \<Rightarrow>
     'c event list \<Rightarrow> event_id state_map \<Rightarrow> (auth_error, event_id state_map) result"
where
  "check_events R rv fetch_event auths [] resolved_state = Inr resolved_state"
| "check_events R rv fetch_event auths (ev # evs) resolved_state =
     res_bind (ok_or InvalidPdu (state_key ev)) (\<lambda>key.
     res_bind (check_auth_state R rv fetch_event auths resolved_state ev key) (\<lambda>auth_state.
     res_bind (auth_check R rv ev auth_state) (\<lambda>allowed.
       check_events R rv fetch_event auths evs
         (if allowed then resolved_state(with_state_key (event_type ev) key \<mapsto> event_id ev)
          else resolved_state))))"

definition iterative_auth_check ::
  "'c ruma \<Rightarrow> room_version \<Rightarrow> event_id list \<Rightarrow> event_id state_map \<Rightarrow> (event_id \<Rightarrow> 'c event option) \<Rightarrow>
     (auth_error, event_id state_map) result"
where
  "iterative_auth_check R rv events_to_check unconflicted_state fetch_event =
     res_bind (fetch_all fetch_event events_to_check) (\<lambda>events.
       check_events R rv fetch_event (collect_auth_events fetch_event events) events
         unconflicted_state)"

subsection \<open>Resolution\<close>

text \<open>The full conflicted set: the auth difference, the conflicted events and their subgraph.\<close>

definition full_conflicted_set ::
  "room_version \<Rightarrow> event_id list list \<Rightarrow> event_id list \<Rightarrow> (event_id \<Rightarrow> 'c event option) \<Rightarrow>
     (event_id \<Rightarrow> bool) \<Rightarrow> (event_id list \<Rightarrow> event_id list) \<Rightarrow> event_id list option"
where
  "full_conflicted_set rv auth_chain_sets conflicted_set event_fetch event_exists order =
     map_option (\<lambda>subgraph. order (remdups (filter event_exists
         (get_auth_chain_diff auth_chain_sets @ conflicted_set @ subgraph))))
       (if state_res_v2_1 rv then conflicted_state_subgraph conflicted_set event_fetch else Some [])"

definition resolve_conflicts ::
  "'c ruma \<Rightarrow> room_version \<Rightarrow> ('c event list \<Rightarrow> 'c event list) \<Rightarrow> event_id state_map \<Rightarrow>
     event_id list \<Rightarrow> (event_id \<Rightarrow> 'c event option) \<Rightarrow> (auth_error, event_id state_map) run"
where
  "resolve_conflicts R rv arrival clean all_conflicted event_fetch =
     (let control_events = filter (is_power_event_id R event_fetch) all_conflicted in
      run_bind (reverse_topological_power_sort R rv arrival control_events all_conflicted event_fetch)
        (\<lambda>sorted_control_levels.
      run_bind (Some (iterative_auth_check R rv sorted_control_levels
          (if state_res_v2_1 rv then Map.empty else clean) event_fetch)) (\<lambda>resolved_control.
      run_bind (mainline_sort (filter (\<lambda>i. i \<notin> set sorted_control_levels) all_conflicted)
          (resolved_control (RoomPowerLevels, [])) event_fetch) (\<lambda>sorted_left_events.
      run_bind (Some (iterative_auth_check R rv sorted_left_events resolved_control event_fetch))
        (\<lambda>resolved_state. Some (Inr (resolved_state ++ clean)))))))"

definition resolve ::
  "'c ruma \<Rightarrow> room_version_id \<Rightarrow> state_alist list \<Rightarrow> event_id list list \<Rightarrow>
     (event_id \<Rightarrow> 'c event option) \<Rightarrow> (event_id \<Rightarrow> bool) \<Rightarrow>
     (event_id list \<Rightarrow> event_id list) \<Rightarrow> ('c event list \<Rightarrow> 'c event list) \<Rightarrow>
     (auth_error, event_id state_map) run"
where
  "resolve R version state_sets auth_chain_sets event_fetch event_exists order arrival =
     (case room_version_new version of
        Inl v \<Rightarrow> Some (Inl (Unsupported v))
      | Inr rv \<Rightarrow>
          (case separate state_sets of (clean, conflicting) \<Rightarrow>
             if conflicting = [] then Some (Inr clean)
             else
               Option.bind (full_conflicted_set rv auth_chain_sets
                   (remdups (concat (map snd conflicting))) event_fetch event_exists order)
                 (\<lambda>all_conflicted.
                   resolve_conflicts R rv arrival clean all_conflicted event_fetch)))"

end
