(* ===== verification/State_Res_Props.thy ===== *)
theory State_Res_Props
  imports State_Sort_Props State_Res
begin

section \<open>State resolution: properties\<close>

text \<open>
  What the parts of \<open>state_res/mod.rs\<close> compute: the split of the state sets into unconflicted and
  conflicted state, the auth chain difference, the conflicted state subgraph of version 2.1, the
  mainline ordering, and what of the resolved state comes from where.
\<close>

subsection \<open>Conflicted and unconflicted state\<close>

lemma map_of_map_values:
  "map_of (map (\<lambda>(k', v). (k', if k' = k then f v else v)) m) x =
     map_option (\<lambda>v. if x = k then f v else v) (map_of m x)"
  by (induction m) auto

lemma map_of_upsert:
  "map_of (upsert k f d m) x =
     (if x = k then Some (case map_of m k of None \<Rightarrow> d | Some v \<Rightarrow> f v) else map_of m x)"
proof (cases "map_of m k")
  case None
  then have "k \<notin> fst ` set m" by (simp add: map_of_eq_None_iff)
  then show ?thesis using None by (simp add: upsert_def map_add_def split: option.split)
next
  case (Some v)
  then have "k \<in> fst ` set m" by (metis map_of_eq_None_iff option.distinct(1))
  then have "map_of (upsert k f d m) x = map_option (\<lambda>v. if x = k then f v else v) (map_of m x)"
    by (simp add: upsert_def map_of_map_values)
  with Some show ?thesis by (cases "map_of m x") auto
qed

lemma keys_upsert: "map fst (upsert k f d m) = (if k \<in> fst ` set m then map fst m else map fst m @ [k])"
  by (simp add: upsert_def case_prod_unfold comp_def)

lemma distinct_upsert [simp]: "distinct (map fst (upsert k f d m)) \<longleftrightarrow> distinct (map fst m)"
  by (simp add: keys_upsert)

definition count_map :: "('a \<times> nat) list \<Rightarrow> 'a list \<Rightarrow> bool" where
  "count_map m xs \<longleftrightarrow> distinct (map fst m) \<and>
     map_of m = (\<lambda>x. if x \<in> set xs then Some (count_list xs x) else None)"

lemma count_map_Nil [simp]: "count_map [] []"
  by (simp add: count_map_def fun_eq_iff)

lemma count_list_zero: "x \<notin> set xs \<Longrightarrow> count_list xs x = 0"
  by (induction xs) auto

lemma count_map_upsert:
  assumes "count_map m xs"
  shows "count_map (upsert x Suc 1 m) (xs @ [x])"
proof -
  have "map_of m = (\<lambda>x. if x \<in> set xs then Some (count_list xs x) else None)"
    using assms by (simp add: count_map_def)
  then have "map_of (upsert x Suc 1 m) y =
      (if y \<in> set (xs @ [x]) then Some (count_list (xs @ [x]) y) else None)" for y
    by (simp add: map_of_upsert count_list_append count_list_zero)
  with assms show ?thesis
    by (simp add: count_map_def fun_eq_iff)
qed

lemma count_map_foldl: "count_map (foldl (\<lambda>m x. upsert x Suc 1 m) [] xs) xs"
proof (induction xs rule: rev_induct)
  case (snoc x xs)
  from count_map_upsert [OF this, of x] show ?case by simp
qed simp

lemma count_map_mem:
  assumes "count_map m xs"
  shows "(x, c) \<in> set m \<longleftrightarrow> x \<in> set xs \<and> c = count_list xs x"
proof -
  have "distinct (map fst m)"
    using assms by (simp add: count_map_def)
  then have "(x, c) \<in> set m \<longleftrightarrow> map_of m x = Some c"
    by simp
  also have "map_of m x = (if x \<in> set xs then Some (count_list xs x) else None)"
    using assms by (simp add: count_map_def)
  finally show ?thesis by auto
qed

text \<open>A set of the list holds each element at most once, so counting elements counts sets.\<close>

lemma count_list_distinct: "distinct s \<Longrightarrow> count_list s x = (if x \<in> set s then 1 else 0)"
  by (induction s) (auto simp: count_list_zero)

lemma count_concat:
  "(\<And>s. s \<in> set ss \<Longrightarrow> distinct s) \<Longrightarrow>
     count_list (concat ss) x = length (filter (\<lambda>s. x \<in> set s) ss)"
  by (induction ss) (simp_all add: count_list_append count_list_distinct)

lemma count_concat_full:
  assumes "\<And>s. s \<in> set ss \<Longrightarrow> distinct s"
  shows "count_list (concat ss) x = length ss \<longleftrightarrow> (\<forall>s\<in>set ss. x \<in> set s)"
  using count_concat [OF assms] filter_id_conv [of "\<lambda>s. x \<in> set s" ss]
  by (metis length_filter_less nat_neq_iff)

lemma count_concat_le:
  assumes "\<And>s. s \<in> set ss \<Longrightarrow> distinct s"
  shows "count_list (concat ss) x \<le> length ss"
  using count_concat [OF assms] by simp

definition values_at :: "state_key_pair \<Rightarrow> (state_key_pair \<times> event_id) list \<Rightarrow> event_id list" where
  "values_at k entries = map snd (filter (\<lambda>e. fst e = k) entries)"

lemma occurrences_inv:
  "distinct (map fst (occurrences entries)) \<and>
   (\<forall>k. count_map (unwrap_or [] (map_of (occurrences entries) k)) (values_at k entries))"
proof (induction entries rule: rev_induct)
  case Nil
  then show ?case by (simp add: occurrences_def values_at_def)
next
  case (snoc e entries)
  obtain k v where e: "e = (k, v)" by (cases e)
  let ?occ = "occurrences entries"
  have occ: "occurrences (entries @ [e]) = upsert k (upsert v Suc 1) [(v, 1)] ?occ"
    by (simp add: occurrences_def e)
  have one: "[(v, 1)] = upsert v Suc 1 []" by (simp add: upsert_def)
  have "unwrap_or [] (map_of (occurrences (entries @ [e])) x) =
      (if x = k then upsert v Suc 1 (unwrap_or [] (map_of ?occ k)) else unwrap_or [] (map_of ?occ x))" for x
    unfolding occ map_of_upsert one by (cases "map_of ?occ k") simp_all
  moreover have "values_at x (entries @ [e]) = (if x = k then values_at k entries @ [v] else values_at x entries)" for x
    by (simp add: values_at_def e)
  ultimately have "count_map (unwrap_or [] (map_of (occurrences (entries @ [e])) x))
      (values_at x (entries @ [e]))" for x
    using conjunct2 [OF snoc.IH] count_map_upsert by metis
  then show ?case
    using conjunct1 [OF snoc.IH] by (simp add: occ)
qed

lemma count_values_at: "count_list (values_at k entries) v = count_list entries (k, v)"
proof (induction entries)
  case (Cons e entries)
  then show ?case by (cases e) (simp add: values_at_def)
qed (simp add: values_at_def)

lemma triples_mem:
  "(k, i, c) \<in> set (concat (map (\<lambda>(k, v). map (\<lambda>(i, c). (k, i, c)) v) L)) \<longleftrightarrow>
     (\<exists>m. (k, m) \<in> set L \<and> (i, c) \<in> set m)"
proof (induction L)
  case (Cons p L)
  then show ?case by (cases p) auto
qed simp

lemma values_at_mem: "i \<in> set (values_at k entries) \<longleftrightarrow> (k, i) \<in> set entries"
  by (induction entries) (auto simp: values_at_def)

lemma occurrence_triples:
  "(k, i, c) \<in> set (concat (map (\<lambda>(k, v). map (\<lambda>(i, c). (k, i, c)) v) (occurrences entries))) \<longleftrightarrow>
     (k, i) \<in> set entries \<and> c = count_list entries (k, i)"
proof -
  have "(k, m) \<in> set (occurrences entries) \<longleftrightarrow> map_of (occurrences entries) k = Some m" for m
    using conjunct1 [OF occurrences_inv [of entries]] by simp
  then have "(\<exists>m. (k, m) \<in> set (occurrences entries) \<and> (i, c) \<in> set m) \<longleftrightarrow>
      (i, c) \<in> set (unwrap_or [] (map_of (occurrences entries) k))"
    by (cases "map_of (occurrences entries) k") simp_all
  also have "\<dots> \<longleftrightarrow> i \<in> set (values_at k entries) \<and> c = count_list (values_at k entries) i"
    by (rule count_map_mem [OF spec [OF conjunct2 [OF occurrences_inv]]])
  also have "\<dots> \<longleftrightarrow> (k, i) \<in> set entries \<and> c = count_list entries (k, i)"
    by (simp add: count_values_at values_at_mem)
  finally show ?thesis by (simp only: triples_mem)
qed
lemma separate_step_simp:
  "separate_step n (U, C) (k, i, c) =
     (if c = n then (U(k \<mapsto> i), C) else (U, upsert k (\<lambda>x. x @ [i]) [i] C))"
  by (simp add: separate_step_def)

lemma separate_foldl:
  assumes "\<forall>k i j. (k, i, n) \<in> set ts \<longrightarrow> (k, j, n) \<in> set ts \<longrightarrow> i = j"
  shows "(fst (foldl (separate_step n) (Map.empty, []) ts) k = Some i \<longleftrightarrow> (k, i, n) \<in> set ts) \<and>
    (i \<in> set (unwrap_or [] (map_of (snd (foldl (separate_step n) (Map.empty, []) ts)) k)) \<longleftrightarrow>
      (\<exists>c. (k, i, c) \<in> set ts \<and> c \<noteq> n)) \<and>
    distinct (map fst (snd (foldl (separate_step n) (Map.empty, []) ts))) \<and>
    (\<forall>(k, v)\<in>set (snd (foldl (separate_step n) (Map.empty, []) ts)). v \<noteq> [])"
  using assms
proof (induction ts arbitrary: k i rule: rev_induct)
  case (snoc t ts)
  obtain k' i' c where t: "t = (k', i', c)" by (cases t)
  obtain U C where uc: "foldl (separate_step n) (Map.empty, []) ts = (U, C)" by fastforce
  have uniq: "\<forall>k i j. (k, i, n) \<in> set ts \<longrightarrow> (k, j, n) \<in> set ts \<longrightarrow> i = j"
    using snoc.prems by auto
  have U: "U k = Some i \<longleftrightarrow> (k, i, n) \<in> set ts"
    and C: "i \<in> set (unwrap_or [] (map_of C k)) \<longleftrightarrow> (\<exists>c. (k, i, c) \<in> set ts \<and> c \<noteq> n)"
    and D: "distinct (map fst C)" "\<forall>(k, v)\<in>set C. v \<noteq> []" for k i
    using snoc.IH [OF uniq] unfolding uc by simp_all
  show ?case
  proof (cases "c = n")
    case True
    have "(U(k' \<mapsto> i')) k = Some i \<longleftrightarrow> (k, i, n) \<in> set (ts @ [t])"
      using U snoc.prems [rule_format, of k' i'] t True by auto
    moreover have "(\<exists>c. (k, i, c) \<in> set (ts @ [t]) \<and> c \<noteq> n) \<longleftrightarrow>
        (\<exists>c. (k, i, c) \<in> set ts \<and> c \<noteq> n)"
      using t True by auto
    ultimately show ?thesis
      using True C D by (simp only: uc t separate_step_simp foldl_append foldl.simps) simp
  next
    case False
    have "set (unwrap_or [] (map_of (upsert k' (\<lambda>x. x @ [i']) [i'] C) k)) =
        set (unwrap_or [] (map_of C k)) \<union> (if k = k' then {i'} else {})"
      by (cases "map_of C k'") (simp_all add: map_of_upsert)
    moreover have "\<forall>(k, v)\<in>set (upsert k' (\<lambda>x. x @ [i']) [i'] C). v \<noteq> []"
      using D(2) by (auto simp: upsert_def split: if_splits)
    ultimately show ?thesis
      using False U C D(1) by (auto simp: uc t separate_step_simp)
  qed
qed simp

definition state_set :: "state_alist \<Rightarrow> bool" where
  "state_set s \<longleftrightarrow> distinct (map fst s)"

lemma separate_facts:
  assumes "\<forall>s\<in>set state_sets. state_set s" and "state_sets \<noteq> []"
    and "separate state_sets = (clean, conflicting)"
  shows "clean k = Some i \<longleftrightarrow> (\<forall>s\<in>set state_sets. map_of s k = Some i)" (is ?clean)
    and "i \<in> set (unwrap_or [] (map_of conflicting k)) \<longleftrightarrow>
      (\<exists>s\<in>set state_sets. map_of s k = Some i) \<and> (\<exists>s\<in>set state_sets. map_of s k \<noteq> Some i)" (is ?conf)
    and "distinct (map fst conflicting)" and "\<forall>(k, v)\<in>set conflicting. v \<noteq> []"
proof -
  let ?ts = "concat (map (\<lambda>(k, v). map (\<lambda>(i, c). (k, i, c)) v) (occurrences (concat state_sets)))"
  have mem: "(k, i) \<in> set s \<longleftrightarrow> map_of s k = Some i" if "s \<in> set state_sets" for s k i
    using assms(1) that by (simp add: state_set_def)
  have dist: "distinct s" if "s \<in> set state_sets" for s
    using assms(1) that distinct_map [of fst s] by (simp add: state_set_def)
  have full: "(k, i, length state_sets) \<in> set ?ts \<longleftrightarrow> (\<forall>s\<in>set state_sets. map_of s k = Some i)" for k i
  proof -
    have "(k, i) \<in> set (concat state_sets)" if "\<forall>s\<in>set state_sets. (k, i) \<in> set s"
      using assms(2) that by (cases state_sets) auto
    moreover have "length state_sets = count_list (concat state_sets) (k, i) \<longleftrightarrow>
        (\<forall>s\<in>set state_sets. (k, i) \<in> set s)"
      using count_concat_full [of state_sets "(k, i)"] dist by metis
    ultimately show ?thesis
      unfolding occurrence_triples using mem by auto
  qed
  have part: "(\<exists>c. (k, i, c) \<in> set ?ts \<and> c \<noteq> length state_sets) \<longleftrightarrow>
      (\<exists>s\<in>set state_sets. map_of s k = Some i) \<and> (\<exists>s\<in>set state_sets. map_of s k \<noteq> Some i)" for k i
  proof -
    have "(\<exists>c. (k, i, c) \<in> set ?ts \<and> c \<noteq> length state_sets) \<longleftrightarrow>
        (k, i) \<in> set (concat state_sets) \<and> count_list (concat state_sets) (k, i) \<noteq> length state_sets"
      unfolding occurrence_triples by blast
    then show ?thesis
      using count_concat_full [of state_sets "(k, i)"] dist mem by auto
  qed
  have uniq: "\<forall>k i j. (k, i, length state_sets) \<in> set ?ts \<longrightarrow> (k, j, length state_sets) \<in> set ?ts \<longrightarrow> i = j"
    using assms(2) unfolding full by (cases state_sets) auto
  have sep: "foldl (separate_step (length state_sets)) (Map.empty, []) ?ts = (clean, conflicting)"
    using assms(3) by (simp add: separate_def)
  note facts = separate_foldl [OF uniq, unfolded sep fst_conv snd_conv full part]
  show ?clean ?conf "distinct (map fst conflicting)" "\<forall>(k, v)\<in>set conflicting. v \<noteq> []"
    using facts [of k i] by blast+
qed

lemma Nil_iff_no_member: "xs = [] \<longleftrightarrow> (\<forall>i. i \<notin> set xs)"
  by (cases xs) auto

text \<open>
  C30: \<open>separate\<close> splits the given states as the algorithm asks for: an event is unconflicted at a
  key when every state has it there, conflicted when some state has it there and another has
  something else or nothing, and nothing is conflicted exactly when all the states are equal.
\<close>

theorem separate_correct:
  assumes "\<forall>s\<in>set state_sets. state_set s" and "state_sets \<noteq> []"
    and "separate state_sets = (clean, conflicting)"
  shows "(\<forall>k i. clean k = Some i \<longleftrightarrow> (\<forall>s\<in>set state_sets. map_of s k = Some i)) \<and>
    (\<forall>k i. i \<in> set (unwrap_or [] (map_of conflicting k)) \<longleftrightarrow>
      (\<exists>s\<in>set state_sets. map_of s k = Some i) \<and> (\<exists>s\<in>set state_sets. map_of s k \<noteq> Some i)) \<and>
    (conflicting = [] \<longleftrightarrow> (\<forall>s\<in>set state_sets. \<forall>t\<in>set state_sets. map_of s = map_of t))"
proof -
  note facts = separate_facts [OF assms]
  have "conflicting = [] \<longleftrightarrow> (\<forall>k. unwrap_or [] (map_of conflicting k) = [])"
  proof
    assume none: "\<forall>k. unwrap_or [] (map_of conflicting k) = []"
    show "conflicting = []"
    proof (cases conflicting)
      case (Cons p ps)
      obtain k v where "p = (k, v)" by (cases p)
      with Cons facts(4) none [rule_format, of k] show ?thesis by simp
    qed
  qed simp
  also have "\<dots> \<longleftrightarrow> (\<forall>s\<in>set state_sets. \<forall>t\<in>set state_sets. map_of s = map_of t)"
  proof -
    have "(\<forall>k. unwrap_or [] (map_of conflicting k) = []) \<longleftrightarrow>
        (\<forall>k i. \<not> ((\<exists>s\<in>set state_sets. map_of s k = Some i) \<and>
          (\<exists>s\<in>set state_sets. map_of s k \<noteq> Some i)))"
      unfolding facts(2) [symmetric] Nil_iff_no_member by (rule refl)
    also have "\<dots> \<longleftrightarrow> (\<forall>s\<in>set state_sets. \<forall>t\<in>set state_sets. map_of s = map_of t)"
    proof (intro iffI ballI ext)
      fix s t k
      assume none: "\<forall>k i. \<not> ((\<exists>s\<in>set state_sets. map_of s k = Some i) \<and>
          (\<exists>s\<in>set state_sets. map_of s k \<noteq> Some i))"
        and st: "s \<in> set state_sets" "t \<in> set state_sets"
      show "map_of s k = map_of t k"
        using none [rule_format, of k "the (map_of s k)"] none [rule_format, of k "the (map_of t k)"] st
        by (cases "map_of s k"; cases "map_of t k") auto
    qed fastforce
    finally show ?thesis .
  qed
  finally show ?thesis
    using facts(1,2) by blast
qed

text \<open>
  The auth chain difference is what is in some auth chain and not in all of them.
\<close>

theorem auth_chain_diff_correct:
  assumes "\<forall>s\<in>set auth_chain_sets. distinct s"
  shows "set (get_auth_chain_diff auth_chain_sets) =
    (\<Union>s\<in>set auth_chain_sets. set s) - (\<Inter>s\<in>set auth_chain_sets. set s)"
proof -
  let ?counts = "foldl (\<lambda>counts i. upsert i Suc 1 counts) [] (concat auth_chain_sets)"
  have mem: "(i, c) \<in> set ?counts \<longleftrightarrow>
      i \<in> set (concat auth_chain_sets) \<and> c = count_list (concat auth_chain_sets) i" for i c
    by (rule count_map_mem [OF count_map_foldl])
  have "i \<in> set (get_auth_chain_diff auth_chain_sets) \<longleftrightarrow>
      i \<in> set (concat auth_chain_sets) \<and>
      count_list (concat auth_chain_sets) i < length auth_chain_sets" for i
  proof -
    have "i \<in> set (get_auth_chain_diff auth_chain_sets) \<longleftrightarrow>
        (\<exists>c. (i, c) \<in> set ?counts \<and> c < length auth_chain_sets)"
      by (auto simp: get_auth_chain_diff_def image_iff)
    then show ?thesis unfolding mem by blast
  qed
  moreover have "count_list (concat auth_chain_sets) i < length auth_chain_sets \<longleftrightarrow>
      \<not> (\<forall>s\<in>set auth_chain_sets. i \<in> set s)" for i
    using count_concat_full [of auth_chain_sets i] count_concat_le [of auth_chain_sets i] assms
    by (auto simp: le_less)
  ultimately show ?thesis by auto
qed
subsection \<open>The conflicted state subgraph\<close>

abbreviation auth_rel :: "(event_id \<Rightarrow> 'c event option) \<Rightarrow> (event_id \<times> event_id) set" where
  "auth_rel fetch_event \<equiv> auth_step fetch_event UNIV"

text \<open>
  A store is well-formed when events carry the id they are stored under, there are finitely many,
  and auth events come before the events that name them, in some ranking.
\<close>

definition event_store :: "(event_id \<Rightarrow> 'c event option) \<Rightarrow> (event_id \<Rightarrow> nat) \<Rightarrow> bool" where
  "event_store fetch_event rank \<longleftrightarrow> finite (dom fetch_event) \<and>
     (\<forall>e ev. fetch_event e = Some ev \<longrightarrow>
        event_id ev = e \<and> (\<forall>a\<in>set (auth_events ev). rank a < rank e))"

lemma event_store_rank:
  "event_store fetch_event rank \<Longrightarrow> a \<in> set (auth_events_of fetch_event e) \<Longrightarrow> rank a < rank e"
  by (cases "fetch_event e") (auto simp: event_store_def auth_events_of_def)

lemma event_store_id: "event_store fetch_event rank \<Longrightarrow> fetch_event e = Some ev \<Longrightarrow> event_id ev = e"
  by (simp add: event_store_def)

lemma event_store_finite:
  assumes "event_store fetch_event rank" and "finite C"
  shows "finite ((auth_rel fetch_event)\<^sup>* `` C)"
proof -
  have "b \<in> C \<union> (\<Union>e\<in>dom fetch_event. set (auth_events_of fetch_event e))"
    if "(a, b) \<in> (auth_rel fetch_event)\<^sup>*" "a \<in> C" for a b
    using that
  proof (cases rule: rtranclE)
    case (step y)
    then have "b \<in> set (auth_events_of fetch_event y)"
      by (simp add: auth_step_def)
    then show ?thesis
      by (cases "fetch_event y") (auto simp: auth_events_of_def dom_def)
  qed blast
  then have "(auth_rel fetch_event)\<^sup>* `` C \<subseteq>
      C \<union> (\<Union>e\<in>dom fetch_event. set (auth_events_of fetch_event e))" by blast
  then show ?thesis
    by (rule finite_subset) (use assms in \<open>simp add: event_store_def\<close>)
qed

text \<open>
  Of the stack, bottom first: what lies above an event that waits for its auth events has a lower
  rank, and its auth events are settled or lie above it.
\<close>

fun stack_ok ::
  "(event_id \<Rightarrow> 'c event option) \<Rightarrow> (event_id \<Rightarrow> nat) \<Rightarrow> event_id set \<Rightarrow> (event_id \<times> bool) list \<Rightarrow> bool"
where
  "stack_ok fetch_event rank D [] = True"
| "stack_ok fetch_event rank D ((x, expanded) # upper) =
     (stack_ok fetch_event rank D upper \<and>
      (expanded \<longrightarrow> (\<forall>y\<in>fst ` set upper. rank y < rank x) \<and>
         set (auth_events_of fetch_event x) \<subseteq> D \<union> fst ` set upper))"

lemma stack_ok_pop:
  "stack_ok f rank D (rest @ [(x, e)]) \<Longrightarrow> stack_ok f rank (insert x D) rest"
  by (induction rest) auto

lemma stack_ok_top: "stack_ok f rank D (rest @ [(x, True)]) \<Longrightarrow> set (auth_events_of f x) \<subseteq> D"
  by (induction rest) auto

lemma stack_ok_above:
  "stack_ok f rank D (rest @ [(x, e)]) \<Longrightarrow> (y, True) \<in> set rest \<Longrightarrow> rank x < rank y"
  by (induction rest) auto

lemma stack_ok_skip_low:
  assumes "event_store f rank" and "stack_ok f rank D (rest @ [(x, False)])"
    and "\<forall>z\<in>fst ` set rest. rank z < rank x"
  shows "stack_ok f rank D rest"
  using assms(2,3)
proof (induction rest)
  case (Cons p rest)
  obtain y e where p: "p = (y, e)" by (cases p)
  have "x \<notin> set (auth_events_of f y)"
    using event_store_rank [OF assms(1), of x y] Cons.prems(2) p by auto
  with Cons p show ?case by auto
qed simp

lemma stack_ok_skip:
  assumes "event_store f rank" and "stack_ok f rank D (rest @ [(x, False)])"
    and "(x, True) \<in> set rest"
  shows "stack_ok f rank D rest"
  using assms(2,3)
proof (induction rest)
  case (Cons p rest)
  obtain y e where p: "p = (y, e)" by (cases p)
  show ?case
  proof (cases "(x, True) \<in> set rest")
    case True
    then have "x \<in> fst ` set rest" by force
    with True Cons p show ?thesis by auto
  next
    case False
    with Cons.prems p have "y = x" "e" by auto
    moreover have "\<forall>z\<in>fst ` set rest. rank z < rank x"
      using Cons.prems(1) p \<open>y = x\<close> \<open>e\<close> by auto
    moreover have "stack_ok f rank D rest"
      using stack_ok_skip_low [OF assms(1)] Cons.prems(1) p calculation by auto
    ultimately show ?thesis
      using Cons.prems(1) p event_store_rank [OF assms(1), of x x] by auto
  qed
qed simp

lemma stack_ok_unexpanded: "\<forall>p\<in>set new. \<not> snd p \<Longrightarrow> stack_ok f rank D new"
  by (induction f rank D new rule: stack_ok.induct) auto

lemma stack_ok_expand:
  assumes "event_store f rank" and "stack_ok f rank D (rest @ [(x, False)])"
    and "\<And>a. a \<in> set (auth_events_of f x) \<Longrightarrow> a \<in> fst ` set new \<or> a \<in> D"
    and "\<forall>p\<in>set new. fst p \<in> set (auth_events_of f x) \<and> \<not> snd p"
  shows "stack_ok f rank D (rest @ [(x, True)] @ new)"
proof -
  have lower: "\<forall>a\<in>fst ` set new. rank a < rank x"
    using assms(4) event_store_rank [OF assms(1)] by auto
  have "stack_ok f rank D new"
    using assms(4) by (simp add: stack_ok_unexpanded)
  then have top: "stack_ok f rank D ((x, True) # new)"
    using lower assms(3) by auto
  show ?thesis
    using assms(2)
  proof (induction rest)
    case (Cons p rest)
    obtain y e where p: "p = (y, e)" by (cases p)
    have "stack_ok f rank D (rest @ [(x, True)] @ new)"
      using Cons p by simp
    moreover have "\<forall>a\<in>fst ` set new. rank a < rank y" if "rank x < rank y"
      using lower that by (meson less_trans)
    ultimately show ?case using Cons.prems p by auto
  qed (use top in simp)
qed
definition reaches_set :: "(event_id \<Rightarrow> 'c event option) \<Rightarrow> event_id list \<Rightarrow> event_id \<Rightarrow> bool" where
  "reaches_set fetch_event C x \<longleftrightarrow> (\<exists>c\<in>set C. (x, c) \<in> (auth_rel fetch_event)\<^sup>*)"

definition sub_inv ::
  "event_id list \<Rightarrow> (event_id \<Rightarrow> 'c event option) \<Rightarrow> (event_id \<Rightarrow> nat) \<Rightarrow> (event_id \<rightharpoonup> bool) \<Rightarrow>
     (event_id \<rightharpoonup> event_id list) \<Rightarrow> (event_id \<times> bool) list \<Rightarrow> bool"
where
  "sub_inv C f rank reaches auth_of stack \<longleftrightarrow>
     stack_ok f rank (dom reaches) stack \<and>
     (\<forall>x os. auth_of x = Some os \<longrightarrow> os = auth_events_of f x) \<and>
     dom auth_of = dom reaches \<union> {x. (x, True) \<in> set stack} \<and>
     (\<forall>x\<in>dom reaches. set (auth_events_of f x) \<subseteq> dom reaches) \<and>
     (\<forall>x b. reaches x = Some b \<longrightarrow> b = reaches_set f C x) \<and>
     set C \<subseteq> dom auth_of \<union> fst ` set stack \<and>
     dom auth_of \<union> fst ` set stack \<subseteq> (auth_rel f)\<^sup>* `` set C"

lemma reaches_set_step:
  "reaches_set f C x \<longleftrightarrow> x \<in> set C \<or> (\<exists>a\<in>set (auth_events_of f x). reaches_set f C a)"
proof -
  have "(x, c) \<in> (auth_rel f)\<^sup>* \<longleftrightarrow>
      x = c \<or> (\<exists>a\<in>set (auth_events_of f x). (a, c) \<in> (auth_rel f)\<^sup>*)" for c
    by (auto simp: auth_step_def elim: converse_rtranclE intro: converse_rtrancl_into_rtrancl)
  then show ?thesis by (auto simp: reaches_set_def)
qed

lemma sub_inv_settle:
  assumes "sub_inv C f rank reaches auth_of (rest @ [(x, True)])"
  defines "r \<equiv> reaches_conflicted C auth_of reaches x"
  shows "sub_inv C f rank (reaches(x \<mapsto> r)) auth_of rest"
proof -
  note inv = assms(1) [unfolded sub_inv_def]
  have ok: "stack_ok f rank (dom reaches) (rest @ [(x, True)])"
    and auth: "\<forall>x os. auth_of x = Some os \<longrightarrow> os = auth_events_of f x"
    and dom: "dom auth_of = dom reaches \<union> {y. (y, True) \<in> set (rest @ [(x, True)])}"
    and closed: "\<forall>x\<in>dom reaches. set (auth_events_of f x) \<subseteq> dom reaches"
    and correct: "\<forall>x b. reaches x = Some b \<longrightarrow> b = reaches_set f C x"
    using inv by blast+
  have below: "set (auth_events_of f x) \<subseteq> dom reaches" by (rule stack_ok_top [OF ok])
  have x: "x \<in> dom auth_of" unfolding dom by simp
  then have auth_x: "auth_of x = Some (auth_events_of f x)" using auth by blast
  have "unwrap_or False (reaches a) \<longleftrightarrow> reaches_set f C a"
    if "a \<in> set (auth_events_of f x)" for a
    using subsetD [OF below that] correct by (cases "reaches a") auto
  then have r: "r = reaches_set f C x"
    unfolding r_def reaches_conflicted_def
    by (subst reaches_set_step) (simp add: auth_x list_ex_iff)
  have same: "dom auth_of \<union> fst ` set (rest @ [(x, True)]) = dom auth_of \<union> fst ` set rest"
    using x by auto
  have "stack_ok f rank (dom (reaches(x \<mapsto> r))) rest"
    using stack_ok_pop [OF ok] by simp
  moreover have "dom auth_of = dom (reaches(x \<mapsto> r)) \<union> {y. (y, True) \<in> set rest}"
    unfolding dom by auto
  moreover have "\<forall>y\<in>dom (reaches(x \<mapsto> r)). set (auth_events_of f y) \<subseteq> dom (reaches(x \<mapsto> r))"
    using closed below by auto
  moreover have "\<forall>y b. (reaches(x \<mapsto> r)) y = Some b \<longrightarrow> b = reaches_set f C y"
    using correct r by simp
  ultimately show ?thesis
    using inv unfolding sub_inv_def same by blast
qed

lemma sub_inv_skip:
  assumes "event_store f rank" and "sub_inv C f rank reaches auth_of (rest @ [(x, False)])"
    and "auth_of x \<noteq> None"
  shows "sub_inv C f rank reaches auth_of rest"
proof -
  note inv = assms(2) [unfolded sub_inv_def]
  have same: "{y. (y, True) \<in> set (rest @ [(x, False)])} = {y. (y, True) \<in> set rest}"
    "dom auth_of \<union> fst ` set (rest @ [(x, False)]) = dom auth_of \<union> fst ` set rest"
    using assms(3) by auto
  have ok: "stack_ok f rank (dom reaches) (rest @ [(x, False)])"
    and dom: "dom auth_of = dom reaches \<union> {y. (y, True) \<in> set rest}"
    using inv unfolding same by blast+
  have x: "x \<in> dom auth_of" using assms(3) by blast
  have "stack_ok f rank (dom reaches) rest"
  proof (cases "x \<in> dom reaches")
    case True
    then have "insert x (dom reaches) = dom reaches" by blast
    with stack_ok_pop [OF ok] show ?thesis by simp
  next
    case False
    with x dom stack_ok_skip [OF assms(1) ok] show ?thesis by blast
  qed
  then show ?thesis
    using inv unfolding sub_inv_def same by blast
qed

lemma sub_inv_expand:
  assumes "event_store f rank" and "sub_inv C f rank reaches auth_of (rest @ [(x, False)])"
    and "auth_of x = None"
  shows "sub_inv C f rank reaches (auth_of(x \<mapsto> auth_events_of f x))
    (rest @ [(x, True)] @ map (\<lambda>a. (a, False)) (filter (\<lambda>a. auth_of a = None) (auth_events_of f x)))"
proof -
  let ?new = "map (\<lambda>a. (a, False)) (filter (\<lambda>a. auth_of a = None) (auth_events_of f x))"
  let ?auth = "auth_of(x \<mapsto> auth_events_of f x)"
  note inv = assms(2) [unfolded sub_inv_def]
  have ok: "stack_ok f rank (dom reaches) (rest @ [(x, False)])"
    and dom: "dom auth_of = dom reaches \<union> {y. (y, True) \<in> set (rest @ [(x, False)])}"
    and reach: "dom auth_of \<union> fst ` set (rest @ [(x, False)]) \<subseteq> (auth_rel f)\<^sup>* `` set C"
    and closed: "\<forall>x\<in>dom reaches. set (auth_events_of f x) \<subseteq> dom reaches"
    and correct: "\<forall>x b. reaches x = Some b \<longrightarrow> b = reaches_set f C x"
    and auth: "\<forall>x os. auth_of x = Some os \<longrightarrow> os = auth_events_of f x"
    and roots: "set C \<subseteq> dom auth_of \<union> fst ` set (rest @ [(x, False)])"
    using inv by - (elim conjE, assumption)+
  have "a \<in> fst ` set ?new \<or> a \<in> dom reaches" if "a \<in> set (auth_events_of f x)" for a
  proof (cases "auth_of a")
    case None
    then have "(a, False) \<in> set ?new" using that by simp
    then show ?thesis by (metis fst_conv image_eqI)
  next
    case (Some os)
    have "(a, True) \<notin> set rest"
    proof
      assume "(a, True) \<in> set rest"
      then have "rank x < rank a" by (rule stack_ok_above [OF ok])
      then show False using event_store_rank [OF assms(1) that] by simp
    qed
    moreover have "a \<in> dom auth_of" using Some by blast
    ultimately show ?thesis unfolding dom by simp
  qed
  then have ok': "stack_ok f rank (dom reaches) (rest @ [(x, True)] @ ?new)"
    by (rule stack_ok_expand [OF assms(1) ok]) auto
  have dom': "dom ?auth = dom reaches \<union> {y. (y, True) \<in> set (rest @ [(x, True)] @ ?new)}"
    unfolding dom_fun_upd dom by auto
  have auth': "\<forall>y os. ?auth y = Some os \<longrightarrow> os = auth_events_of f y"
    using auth by simp
  have all: "dom ?auth \<union> fst ` set (rest @ [(x, True)] @ ?new) =
      dom auth_of \<union> fst ` set (rest @ [(x, False)]) \<union> fst ` set ?new"
    by auto
  have new: "fst ` set ?new \<subseteq> (auth_rel f)\<^sup>* `` set C"
  proof
    fix a assume "a \<in> fst ` set ?new"
    then have "(x, a) \<in> auth_rel f" by (auto simp: auth_step_def)
    moreover have "x \<in> (auth_rel f)\<^sup>* `` set C"
      by (rule subsetD [OF reach]) simp
    then obtain c where "c \<in> set C" "(c, x) \<in> (auth_rel f)\<^sup>*" by blast
    ultimately show "a \<in> (auth_rel f)\<^sup>* `` set C" by (meson ImageI rtrancl_into_rtrancl)
  qed
  have roots': "set C \<subseteq> dom ?auth \<union> fst ` set (rest @ [(x, True)] @ ?new)"
    unfolding all using roots by (rule subset_trans) (rule Un_upper1)
  have reach': "dom ?auth \<union> fst ` set (rest @ [(x, True)] @ ?new) \<subseteq> (auth_rel f)\<^sup>* `` set C"
    unfolding all using reach new by (rule Un_least)
  show ?thesis
    unfolding sub_inv_def by (intro conjI ok' auth' dom' closed correct roots' reach')
qed

lemma subgraph_loop_steps:
  "subgraph_loop C f reaches auth_of [] = Some reaches"
  "subgraph_loop C f reaches auth_of (rest @ [(x, True)]) =
     subgraph_loop C f (upsert x (\<lambda>_. reaches_conflicted C auth_of (map_of reaches) x)
       (reaches_conflicted C auth_of (map_of reaches) x) reaches) auth_of rest"
  "auth_of x \<noteq> None \<Longrightarrow>
     subgraph_loop C f reaches auth_of (rest @ [(x, False)]) = subgraph_loop C f reaches auth_of rest"
  "auth_of x = None \<Longrightarrow>
     subgraph_loop C f reaches auth_of (rest @ [(x, False)]) =
     subgraph_loop C f reaches (auth_of(x \<mapsto> auth_events_of f x))
       (rest @ [(x, True)] @ map (\<lambda>a. (a, False)) (filter (\<lambda>a. auth_of a = None) (auth_events_of f x)))"
  by (subst subgraph_loop.simps, simp add: Let_def)+

lemma subgraph_measure:
  assumes "event_store f rank" and "sub_inv C f rank reaches auth_of (rest @ [(x, False)])"
    and "auth_of x = None"
  shows "card ((auth_rel f)\<^sup>* `` set C - dom (auth_of(x \<mapsto> os))) < card ((auth_rel f)\<^sup>* `` set C - dom auth_of)"
proof (rule psubset_card_mono)
  show "finite ((auth_rel f)\<^sup>* `` set C - dom auth_of)"
    using event_store_finite [OF assms(1), of "set C"] by simp
  have "x \<in> (auth_rel f)\<^sup>* `` set C" using assms(2) by (simp add: sub_inv_def)
  moreover have "x \<notin> dom auth_of" using assms(3) by (simp add: domIff)
  ultimately show "(auth_rel f)\<^sup>* `` set C - dom (auth_of(x \<mapsto> os)) \<subset> (auth_rel f)\<^sup>* `` set C - dom auth_of"
    by auto
qed

lemma subgraph_loop_correct:
  assumes "event_store f rank" and "sub_inv C f rank (map_of reaches) auth_of stack"
    and "distinct (map fst reaches)"
  shows "\<exists>res auth_of'. subgraph_loop C f reaches auth_of stack = Some res \<and>
    sub_inv C f rank (map_of res) auth_of' [] \<and> distinct (map fst res)"
  using assms(2,3)
proof (induction "(card ((auth_rel f)\<^sup>* `` set C - dom auth_of), length stack)"
    arbitrary: reaches auth_of stack
    rule: wf_induct_rule [OF wf_lex_prod [OF wf_less_than wf_less_than]])
  case 1
  consider "stack = []" | rest x where "stack = rest @ [(x, True)]"
    | rest x where "stack = rest @ [(x, False)]" "auth_of x = None"
    | rest x where "stack = rest @ [(x, False)]" "auth_of x \<noteq> None"
    by (cases stack rule: rev_cases; metis surj_pair)
  then show ?case
  proof cases
    case 1
    then show ?thesis using "1.prems" subgraph_loop_steps(1) [of C f reaches auth_of] by blast
  next
    case (2 rest x)
    let ?r = "reaches_conflicted C auth_of (map_of reaches) x"
    have map: "map_of (upsert x (\<lambda>_. ?r) ?r reaches) = (map_of reaches)(x \<mapsto> ?r)"
      by (rule ext) (simp add: map_of_upsert split: option.split)
    have inv: "sub_inv C f rank (map_of (upsert x (\<lambda>_. ?r) ?r reaches)) auth_of rest"
      unfolding map using "1.prems"(1) 2 by (simp add: sub_inv_settle)
    show ?thesis
      unfolding 2 subgraph_loop_steps by (rule "1.hyps" [OF _ inv]) (use 2 "1.prems"(2) in simp_all)
  next
    case (3 rest x)
    note prems = "1.prems"(1) [unfolded 3(1)]
    show ?thesis
      unfolding 3(1) subgraph_loop_steps(4) [of auth_of x, OF 3(2)]
      by (rule "1.hyps" [OF _ sub_inv_expand [OF assms(1) prems 3(2)] "1.prems"(2)])
        (use subgraph_measure [OF assms(1) prems 3(2)] in simp)
  next
    case (4 rest x)
    note prems = "1.prems"(1) [unfolded 4(1)]
    show ?thesis
      unfolding 4(1) subgraph_loop_steps(3) [of auth_of x, OF 4(2)]
      by (rule "1.hyps" [OF _ sub_inv_skip [OF assms(1) prems 4(2)] "1.prems"(2)]) (simp add: 4)
  qed
qed

lemma sub_inv_start: "sub_inv C f rank (map_of []) Map.empty (map (\<lambda>i. (i, False)) C)"
  by (auto simp: sub_inv_def stack_ok_unexpanded image_iff)

lemma sub_inv_done:
  assumes "sub_inv C f rank reaches auth_of []"
  shows "reaches x = Some True \<longleftrightarrow> x \<in> (auth_rel f)\<^sup>* `` set C \<and> reaches_set f C x"
proof -
  have dom: "dom auth_of = dom reaches" and roots: "set C \<subseteq> dom auth_of"
    and sound: "dom auth_of \<subseteq> (auth_rel f)\<^sup>* `` set C"
    and closed: "\<forall>x\<in>dom reaches. set (auth_events_of f x) \<subseteq> dom reaches"
    and correct: "\<forall>x b. reaches x = Some b \<longrightarrow> b = reaches_set f C x"
    using assms unfolding sub_inv_def by - (elim conjE, simp)+
  have complete: "b \<in> dom reaches" if path: "(a, b) \<in> (auth_rel f)\<^sup>*" and a: "a \<in> set C" for a b
    using path
  proof (induction rule: rtrancl_induct)
    case base
    show ?case using roots a unfolding dom by blast
  next
    case (step y z)
    then show ?case using closed by (auto simp: auth_step_def)
  qed
  show ?thesis
  proof
    assume "reaches x = Some True"
    then show "x \<in> (auth_rel f)\<^sup>* `` set C \<and> reaches_set f C x"
      using correct sound unfolding dom by blast
  next
    assume x: "x \<in> (auth_rel f)\<^sup>* `` set C \<and> reaches_set f C x"
    then obtain b where "reaches x = Some b" using complete by blast
    with correct x show "reaches x = Some True" by metis
  qed
qed

text \<open>
  C8: The conflicted state subgraph is computed as its comment says: the walk ends and returns
  exactly the events on an auth path between two conflicted events, endpoints included.
\<close>

theorem conflicted_state_subgraph_correct:
  assumes "event_store event_fetch rank"
  shows "\<exists>sub. conflicted_state_subgraph conflicted event_fetch = Some sub \<and> distinct sub \<and>
    set sub = {x. \<exists>a\<in>set conflicted. \<exists>c\<in>set conflicted.
      (a, x) \<in> (auth_rel event_fetch)\<^sup>* \<and> (x, c) \<in> (auth_rel event_fetch)\<^sup>*}"
proof -
  have start: "sub_inv conflicted event_fetch rank (map_of []) Map.empty (map (\<lambda>i. (i, False)) conflicted)"
    by (rule sub_inv_start)
  obtain res auth_of where
    loop: "subgraph_loop conflicted event_fetch [] Map.empty (map (\<lambda>i. (i, False)) conflicted) = Some res"
    and inv: "sub_inv conflicted event_fetch rank (map_of res) auth_of []"
    and dist: "distinct (map fst res)"
    using subgraph_loop_correct [OF assms start] by auto
  have "distinct (map fst (filter snd res))"
    by (rule distinct_map_filter [OF dist])
  moreover have "x \<in> set (map fst (filter snd res)) \<longleftrightarrow> map_of res x = Some True" for x
    by (simp only: map_of_eq_Some_iff [OF dist]) force
  ultimately show ?thesis
    using loop sub_inv_done [OF inv] by (simp add: conflicted_state_subgraph_def set_eq_iff reaches_set_def Image_iff)
qed

definition sample_states :: "state_alist list" where
  "sample_states =
     [[((RoomPowerLevels, []), ''$power''), ((OtherType ''m.room.topic'', []), ''$topicA''),
       ((RoomMember, ''@bob:a''), ''$ban'')],
      [((OtherType ''m.room.topic'', []), ''$topicB''), ((RoomPowerLevels, []), ''$power''),
       ((RoomMember, ''@bob:a''), ''$bob'')]]"

lemma sample_states_facts:
  "\<forall>s\<in>set sample_states. state_set s" "sample_states \<noteq> []"
  unfolding sample_states_def state_set_def by simp_all

theorem separate_correct_witness:
  "fst (separate sample_states) (RoomPowerLevels, []) = Some ''$power'' \<and>
   ''$topicB'' \<in> set (unwrap_or [] (map_of (snd (separate sample_states)) (OtherType ''m.room.topic'', [])))"
proof -
  note sep = separate_correct [OF sample_states_facts prod.collapse [symmetric]]
  have "\<forall>s\<in>set sample_states. map_of s (RoomPowerLevels, []) = Some ''$power''"
    by code_simp
  moreover have "(\<exists>s\<in>set sample_states. map_of s (OtherType ''m.room.topic'', []) = Some ''$topicB'') \<and>
      (\<exists>s\<in>set sample_states. map_of s (OtherType ''m.room.topic'', []) \<noteq> Some ''$topicB'')"
    by code_simp
  ultimately show ?thesis using sep by blast
qed

theorem auth_chain_diff_correct_witness:
  "set (get_auth_chain_diff [[''$create'', ''$alice''], [''$bob'', ''$create'']]) = {''$alice'', ''$bob''}"
  using auth_chain_diff_correct [of "[[''$create'', ''$alice''], [''$bob'', ''$create'']]"] by auto

lemma sample_event_store: "event_store sample_fetch sample_rank"
proof -
  have "finite (dom sample_fetch)"
    by (simp add: sample_fetch_def finite_dom_map_of)
  moreover have "event_id ev = e" if "sample_fetch e = Some ev" for e ev
    using map_of_SomeD [OF that [unfolded sample_fetch_def]]
    unfolding sample_store_def set_map by blast
  ultimately show ?thesis
    using sample_rank_less by (auto simp: event_store_def)
qed

theorem conflicted_state_subgraph_correct_witness:
  "\<exists>sub. conflicted_state_subgraph [''$ban'', ''$bob''] sample_fetch = Some sub \<and> ''$bob'' \<in> set sub"
  using conflicted_state_subgraph_correct [OF sample_event_store, of "[''$ban'', ''$bob'']"] by auto

end
