(* ===== verification/Db_Codec.thy ===== *)
theory Db_Codec
  imports Prelude "HOL-Library.Sublist"
begin

section \<open>The database codec\<close>

text \<open>
  \<open>phantom-database/src/codec/serialize.rs\<close> and \<open>deserialize.rs\<close>: how keys and values become
  bytes. A tuple is its components with a separator byte between them, integers are big-endian.

  What \<open>serde\<close> hands the serializer is a value of \<open>ser_value\<close>, one constructor per method it
  calls; the type that drives the deserializer is a \<open>de_type\<close>. Strings are their UTF-8 bytes. The
  calls the source leaves \<open>unhandled!\<close> panic. Debug assertions are checked when \<open>dbg\<close> holds and
  skipped otherwise, as in the two build profiles. What \<open>serde_json\<close> and \<open>minicbor\<close> write is part
  of the value, what they read is the parameter \<open>foreign\<close>. Positions are natural numbers: they
  stay within the buffer, whose length is a \<open>usize\<close>.
\<close>

definition SEP :: u8 where
  "SEP = 0xFF"

datatype codec_error = SerdeSer | SerdeDe | CodecIo | CodecUtf8 | CodecPanic

definition debug_assert :: "bool \<Rightarrow> bool \<Rightarrow> (codec_error, unit) result" where
  "debug_assert dbg c = (if dbg \<and> \<not> c then Inl CodecPanic else Inr ())"

lemma debug_assert_True [simp]: "debug_assert dbg True = Inr ()"
  by (simp add: debug_assert_def)

subsection \<open>Serializing\<close>

datatype ser_value =
    SerStr bytes
  | SerBytes bytes
  | SerU64 u64
  | SerU32 u32
  | SerU8 u8
  | SerI64 i64
  | SerI32 u32
  | SerJson "bytes option"
  | SerCbor "bytes option"
  | SerInterfix
  | SerSeparator
  | SerNone
  | SerSome ser_value
  | SerSeq "ser_value list"
  | SerTuple "ser_value list"
  | SerUnhandled

text \<open>\<open>ser_cap\<close> is the capacity of an \<open>ArrayVec\<close> buffer; the other buffers grow.\<close>

record serializer =
  ser_out :: bytes
  ser_cap :: "nat option"
  ser_depth :: u32
  ser_sep :: bool
  ser_fin :: bool

definition ser_write_all :: "bytes \<Rightarrow> serializer \<Rightarrow> (codec_error, serializer) result" where
  "ser_write_all buf s =
     (if (case ser_cap s of None \<Rightarrow> True | Some cap \<Rightarrow> length (ser_out s) + length buf \<le> cap)
      then Inr (s\<lparr>ser_out := ser_out s @ buf\<rparr>)
      else Inl CodecIo)"

definition ser_sequence_start :: "bool \<Rightarrow> serializer \<Rightarrow> (codec_error, serializer) result" where
  "ser_sequence_start dbg s =
     res_bind (debug_assert dbg (\<not> ser_fin s)) (\<lambda>_.
       Inr (if dbg then s\<lparr>ser_depth := saturating_add (ser_depth s) 1\<rparr> else s))"

definition ser_sequence_end :: "bool \<Rightarrow> serializer \<Rightarrow> (codec_error, serializer) result" where
  "ser_sequence_end dbg s =
     Inr (if dbg then s\<lparr>ser_depth := saturating_sub (ser_depth s) 1\<rparr> else s)"

definition ser_tuple_start :: "bool \<Rightarrow> serializer \<Rightarrow> (codec_error, serializer) result" where
  "ser_tuple_start dbg s =
     res_bind (debug_assert dbg (\<not> ser_sep s)) (\<lambda>_. ser_sequence_start dbg s)"

definition ser_tuple_end :: "bool \<Rightarrow> serializer \<Rightarrow> (codec_error, serializer) result" where
  "ser_tuple_end dbg s = ser_sequence_end dbg s"

definition ser_separator :: "bool \<Rightarrow> serializer \<Rightarrow> (codec_error, serializer) result" where
  "ser_separator dbg s =
     res_bind (debug_assert dbg (\<not> ser_fin s)) (\<lambda>_. ser_write_all [SEP] s)"

definition ser_record_start :: "bool \<Rightarrow> serializer \<Rightarrow> (codec_error, serializer) result" where
  "ser_record_start dbg s =
     res_bind (debug_assert dbg (\<not> ser_fin s)) (\<lambda>_.
       if ser_sep s then ser_separator dbg s else Inr (s\<lparr>ser_sep := True\<rparr>))"

definition ser_write :: "bool \<Rightarrow> bytes \<Rightarrow> serializer \<Rightarrow> (codec_error, serializer) result" where
  "ser_write dbg buf s =
     res_bind (debug_assert dbg (\<not> ser_fin s)) (\<lambda>_. ser_write_all buf s)"

definition ser_set_finalized :: "bool \<Rightarrow> serializer \<Rightarrow> (codec_error, serializer) result" where
  "ser_set_finalized dbg s =
     res_bind (debug_assert dbg (\<not> ser_fin s)) (\<lambda>_.
       Inr (if dbg then s\<lparr>ser_fin := True\<rparr> else s))"

definition serialize_bytes :: "bool \<Rightarrow> bytes \<Rightarrow> serializer \<Rightarrow> (codec_error, serializer) result" where
  "serialize_bytes dbg v s =
     res_bind (debug_assert dbg (ser_depth s > 0)) (\<lambda>_. ser_write dbg v s)"

definition serialize_str :: "bool \<Rightarrow> bytes \<Rightarrow> serializer \<Rightarrow> (codec_error, serializer) result" where
  "serialize_str dbg v s =
     res_bind (debug_assert dbg (ser_depth s > 0)) (\<lambda>_. serialize_bytes dbg v s)"

definition serialize_foreign :: "bytes option \<Rightarrow> serializer \<Rightarrow> (codec_error, serializer) result" where
  "serialize_foreign doc s = res_bind (ok_or SerdeSer doc) (\<lambda>text. ser_write_all text s)"

fun serialize_value :: "bool \<Rightarrow> ser_value \<Rightarrow> serializer \<Rightarrow> (codec_error, serializer) result"
  and serialize_elements :: "bool \<Rightarrow> ser_value list \<Rightarrow> serializer \<Rightarrow> (codec_error, serializer) result"
  and serialize_records :: "bool \<Rightarrow> ser_value list \<Rightarrow> serializer \<Rightarrow> (codec_error, serializer) result"
where
  "serialize_value dbg (SerStr v) s = serialize_str dbg v s"
| "serialize_value dbg (SerBytes v) s = serialize_bytes dbg v s"
| "serialize_value dbg (SerU64 v) s = ser_write dbg (to_be_bytes v) s"
| "serialize_value dbg (SerU32 v) s = ser_write dbg (be_bytes 4 (unat v)) s"
| "serialize_value dbg (SerU8 v) s = ser_write dbg [v] s"
| "serialize_value dbg (SerI64 v) s = ser_write dbg (to_be_bytes v) s"
| "serialize_value dbg (SerI32 v) s = ser_write dbg (be_bytes 4 (unat v)) s"
| "serialize_value dbg (SerJson doc) s = serialize_foreign doc s"
| "serialize_value dbg (SerCbor doc) s = serialize_foreign doc s"
| "serialize_value dbg SerInterfix s = ser_set_finalized dbg s"
| "serialize_value dbg SerSeparator s = ser_separator dbg s"
| "serialize_value dbg SerNone s = Inr s"
| "serialize_value dbg (SerSome v) s = serialize_value dbg v s"
| "serialize_value dbg (SerSeq vs) s =
     res_bind (ser_sequence_start dbg s) (\<lambda>s.
     res_bind (serialize_elements dbg vs s) (\<lambda>s. ser_sequence_end dbg s))"
| "serialize_value dbg (SerTuple vs) s =
     res_bind (ser_tuple_start dbg s) (\<lambda>s.
     res_bind (serialize_records dbg vs s) (\<lambda>s. ser_tuple_end dbg s))"
| "serialize_value dbg SerUnhandled s = Inl CodecPanic"
| "serialize_elements dbg [] s = Inr s"
| "serialize_elements dbg (v # vs) s =
     res_bind (serialize_value dbg v s) (\<lambda>s. serialize_elements dbg vs s)"
| "serialize_records dbg [] s = Inr s"
| "serialize_records dbg (v # vs) s =
     res_bind (ser_record_start dbg s) (\<lambda>s.
     res_bind (serialize_value dbg v s) (\<lambda>s. serialize_records dbg vs s))"

definition serialize :: "bool \<Rightarrow> nat option \<Rightarrow> ser_value \<Rightarrow> (codec_error, bytes) result" where
  "serialize dbg cap val =
     (case serialize_value dbg val
         \<lparr>ser_out = [], ser_cap = cap, ser_depth = 0, ser_sep = False, ser_fin = False\<rparr> of
        Inl CodecPanic \<Rightarrow> Inl CodecPanic
      | Inl _ \<Rightarrow> Inl SerdeSer
      | Inr s \<Rightarrow> res_bind (debug_assert dbg (ser_depth s = 0)) (\<lambda>_. Inr (ser_out s)))"

definition serialize_to_vec :: "bool \<Rightarrow> ser_value \<Rightarrow> (codec_error, bytes) result" where
  "serialize_to_vec dbg val = serialize dbg None val"

subsection \<open>Deserializing\<close>

datatype de_type =
    DeStr
  | DeString
  | DeBytes
  | DeU64
  | DeI64
  | DeOption de_type
  | DeTuple "de_type list"
  | DeNewtype de_type
  | DeStruct
  | DeCbor
  | DeAny
  | DeIgnore
  | DeIgnoreAll
  | DeUnhandled

datatype 'j de_value =
    VStr bytes
  | VBytes bytes
  | VU64 u64
  | VI64 i64
  | VNone
  | VSome "'j de_value"
  | VTuple "'j de_value list"
  | VDoc 'j
  | VUnit

record 'j foreign =
  from_json :: "bytes \<Rightarrow> 'j option"
  from_cbor :: "bytes \<Rightarrow> 'j option"

record deserializer =
  de_buf :: bytes
  de_pos :: nat
  de_rec :: nat
  de_seq :: bool

text \<open>
  \<open>std::str::from_utf8\<close>: which byte strings are UTF-8. Continuation bytes are \<open>80..BF\<close>; the
  second byte of a sequence is restricted after \<open>E0\<close>, \<open>ED\<close>, \<open>F0\<close> and \<open>F4\<close>.
\<close>

definition in_range :: "u8 \<Rightarrow> u8 \<Rightarrow> u8 \<Rightarrow> bool" where
  "in_range lo hi b \<longleftrightarrow> lo \<le> b \<and> b \<le> hi"

abbreviation continuation :: "u8 \<Rightarrow> bool" where
  "continuation \<equiv> in_range 0x80 0xBF"

fun second_range :: "u8 \<Rightarrow> u8 \<Rightarrow> bool" where
  "second_range a b =
     (if a = 0xE0 then in_range 0xA0 0xBF b
      else if a = 0xED then in_range 0x80 0x9F b
      else if a = 0xF0 then in_range 0x90 0xBF b
      else if a = 0xF4 then in_range 0x80 0x8F b
      else continuation b)"

fun valid_utf8 :: "bytes \<Rightarrow> bool" where
  "valid_utf8 [] = True"
| "valid_utf8 (a # rest) =
     (if a < 0x80 then valid_utf8 rest
      else if in_range 0xC2 0xDF a then
        (case rest of b # r \<Rightarrow> continuation b \<and> valid_utf8 r | _ \<Rightarrow> False)
      else if in_range 0xE0 0xEF a then
        (case rest of b # c # r \<Rightarrow> second_range a b \<and> continuation c \<and> valid_utf8 r | _ \<Rightarrow> False)
      else if in_range 0xF0 0xF4 a then
        (case rest of
           b # c # d # r \<Rightarrow> second_range a b \<and> continuation c \<and> continuation d \<and> valid_utf8 r
         | _ \<Rightarrow> False)
      else False)"

definition str_from_bytes :: "bytes \<Rightarrow> (codec_error, bytes) result" where
  "str_from_bytes bs = (if valid_utf8 bs then Inr bs else Inl CodecUtf8)"

text \<open>\<open>&self.buf[self.pos..]\<close>\<close>

definition de_rest :: "deserializer \<Rightarrow> (codec_error, bytes) result" where
  "de_rest d = (if de_pos d \<le> length (de_buf d) then Inr (drop (de_pos d) (de_buf d)) else Inl CodecPanic)"

definition de_inc_pos :: "bool \<Rightarrow> nat \<Rightarrow> deserializer \<Rightarrow> (codec_error, deserializer) result" where
  "de_inc_pos dbg n d =
     res_bind (debug_assert dbg (de_pos d + n \<le> length (de_buf d))) (\<lambda>_.
       Inr (d\<lparr>de_pos := de_pos d + n\<rparr>))"

definition de_sequence_start :: "bool \<Rightarrow> deserializer \<Rightarrow> (codec_error, deserializer) result" where
  "de_sequence_start dbg d =
     res_bind (debug_assert dbg (\<not> de_seq d)) (\<lambda>_. Inr (d\<lparr>de_seq := True\<rparr>))"

definition de_record_next :: "bool \<Rightarrow> deserializer \<Rightarrow> (codec_error, bytes \<times> deserializer) result" where
  "de_record_next dbg d =
     res_bind (de_rest d) (\<lambda>rest.
       let piece = takeWhile (\<lambda>b. b \<noteq> SEP) rest in
       res_bind (de_inc_pos dbg (length piece) d) (\<lambda>d. Inr (piece, d)))"

definition de_record_trail :: "bool \<Rightarrow> deserializer \<Rightarrow> (codec_error, bytes \<times> deserializer) result" where
  "de_record_trail dbg d =
     res_bind (de_rest d) (\<lambda>rest.
     res_bind (de_inc_pos dbg (length rest) d) (\<lambda>d. Inr (rest, d)))"

definition de_record_ignore :: "bool \<Rightarrow> deserializer \<Rightarrow> (codec_error, deserializer) result" where
  "de_record_ignore dbg d =
     (if de_seq d then res_bind (de_record_next dbg d) (\<lambda>(_, d). Inr d)
      else res_bind (de_record_trail dbg d) (\<lambda>(_, d). Inr d))"

definition de_started :: "deserializer \<Rightarrow> bool" where
  "de_started d \<longleftrightarrow> de_pos d \<noteq> 0 \<or> de_rec d > 0"

definition de_record_peek_byte :: "bool \<Rightarrow> deserializer \<Rightarrow> (codec_error, u8 option) result" where
  "de_record_peek_byte dbg d =
     res_bind (de_rest d) (\<lambda>rest.
     res_bind (debug_assert dbg (\<not> de_started d \<or> (rest \<noteq> [] \<and> hd rest = SEP))) (\<lambda>_.
       let i = (if de_started d then 1 else 0) in
       Inr (if i < length rest then Some (rest ! i) else None)))"

definition de_record_start :: "bool \<Rightarrow> deserializer \<Rightarrow> (codec_error, deserializer) result" where
  "de_record_start dbg d =
     res_bind (debug_assert dbg (\<not> de_started d \<or>
         (de_pos d < length (de_buf d) \<and> de_buf d ! de_pos d = SEP))) (\<lambda>_.
     res_bind (de_inc_pos dbg (if de_started d then 1 else 0) d) (\<lambda>d.
       Inr (d\<lparr>de_rec := de_rec d + 1\<rparr>)))"

definition de_word :: "bool \<Rightarrow> deserializer \<Rightarrow> (codec_error, u64 \<times> deserializer) result" where
  "de_word dbg d =
     res_bind (de_rest d) (\<lambda>rest.
       if length rest < 8 then Inl SerdeDe
       else res_bind (de_inc_pos dbg 8 d) (\<lambda>d. Inr (from_be_bytes (take 8 rest), d)))"

definition de_str :: "bool \<Rightarrow> deserializer \<Rightarrow> (codec_error, bytes \<times> deserializer) result" where
  "de_str dbg d =
     res_bind (de_record_next dbg d) (\<lambda>(piece, d).
     res_bind (str_from_bytes piece) (\<lambda>out. Inr (out, d)))"

definition de_json ::
  "bool \<Rightarrow> 'j foreign \<Rightarrow> deserializer \<Rightarrow> (codec_error, 'j de_value \<times> deserializer) result"
where
  "de_json dbg F d =
     res_bind (de_record_next dbg d) (\<lambda>(piece, d).
     res_bind (ok_or SerdeDe (from_json F piece)) (\<lambda>doc. Inr (VDoc doc, d)))"

definition de_any ::
  "bool \<Rightarrow> 'j foreign \<Rightarrow> deserializer \<Rightarrow> (codec_error, 'j de_value \<times> deserializer) result"
where
  "de_any dbg F d =
     res_bind (de_record_peek_byte dbg d) (\<lambda>b.
       if b = Some 0x7B \<or> b = Some 0x5B then de_json dbg F d
       else res_bind (de_str dbg d) (\<lambda>(s, d). Inr (VStr s, d)))"

fun deserialize_value ::
  "bool \<Rightarrow> 'j foreign \<Rightarrow> de_type \<Rightarrow> deserializer \<Rightarrow> (codec_error, 'j de_value \<times> deserializer) result"
  and deserialize_fields ::
  "bool \<Rightarrow> 'j foreign \<Rightarrow> de_type list \<Rightarrow> deserializer \<Rightarrow>
     (codec_error, 'j de_value list \<times> deserializer) result"
where
  "deserialize_value dbg F DeStr d = res_bind (de_str dbg d) (\<lambda>(s, d). Inr (VStr s, d))"
| "deserialize_value dbg F DeString d = res_bind (de_str dbg d) (\<lambda>(s, d). Inr (VStr s, d))"
| "deserialize_value dbg F DeBytes d =
     res_bind (de_record_trail dbg d) (\<lambda>(b, d). Inr (VBytes b, d))"
| "deserialize_value dbg F DeU64 d = res_bind (de_word dbg d) (\<lambda>(w, d). Inr (VU64 w, d))"
| "deserialize_value dbg F DeI64 d = res_bind (de_word dbg d) (\<lambda>(w, d). Inr (VI64 w, d))"
| "deserialize_value dbg F (DeOption t) d =
     (if de_pos d \<ge> length (de_buf d) \<or> de_buf d ! de_pos d = SEP then Inr (VNone, d)
      else res_bind (deserialize_value dbg F t d) (\<lambda>(v, d). Inr (VSome v, d)))"
| "deserialize_value dbg F (DeTuple ts) d =
     res_bind (de_sequence_start dbg d) (\<lambda>d.
     res_bind (deserialize_fields dbg F ts d) (\<lambda>(vs, d). Inr (VTuple vs, d)))"
| "deserialize_value dbg F (DeNewtype t) d = deserialize_value dbg F t d"
| "deserialize_value dbg F DeStruct d = de_json dbg F d"
| "deserialize_value dbg F DeCbor d =
     res_bind (de_record_trail dbg d) (\<lambda>(b, d).
     res_bind (ok_or SerdeDe (from_cbor F b)) (\<lambda>doc. Inr (VDoc doc, d)))"
| "deserialize_value dbg F DeAny d = de_any dbg F d"
| "deserialize_value dbg F DeIgnore d = res_bind (de_record_ignore dbg d) (\<lambda>d. Inr (VUnit, d))"
| "deserialize_value dbg F DeIgnoreAll d =
     res_bind (de_record_trail dbg d) (\<lambda>(_, d). Inr (VUnit, d))"
| "deserialize_value dbg F DeUnhandled d = Inl CodecPanic"
| "deserialize_fields dbg F [] d = Inr ([], d)"
| "deserialize_fields dbg F (t # ts) d =
     (if de_pos d \<ge> length (de_buf d) then Inl SerdeDe
      else res_bind (de_record_start dbg d) (\<lambda>d.
        res_bind (deserialize_value dbg F t d) (\<lambda>(v, d).
        res_bind (deserialize_fields dbg F ts d) (\<lambda>(vs, d). Inr (v # vs, d)))))"

definition de_finished :: "deserializer \<Rightarrow> bool" where
  "de_finished d \<longleftrightarrow>
     de_pos d \<le> length (de_buf d) \<and>
     (let unparsed = drop (de_pos d) (de_buf d) in unparsed = [] \<or> unparsed = [SEP])"

definition from_slice :: "bool \<Rightarrow> 'j foreign \<Rightarrow> de_type \<Rightarrow> bytes \<Rightarrow> (codec_error, 'j de_value) result" where
  "from_slice dbg F t buf =
     res_bind (deserialize_value dbg F t \<lparr>de_buf = buf, de_pos = 0, de_rec = 0, de_seq = False\<rparr>)
       (\<lambda>(v, d). res_bind (debug_assert dbg (de_finished d)) (\<lambda>_. Inr v))"

end
