(* ===== verification/Db_Codec_Props.thy ===== *)
theory Db_Codec_Props
  imports Db_Codec
begin

section \<open>The database codec: properties\<close>

text \<open>
  What the codec guarantees to the maps built on it: components read back as they were written,
  prefixes select exactly the keys they should, integers keep their order.
\<close>

subsection \<open>UTF-8\<close>

lemma in_range_not_sep: "in_range lo hi b \<Longrightarrow> hi < SEP \<Longrightarrow> b \<noteq> SEP"
  by (auto simp: in_range_def)

lemma continuation_not_sep: "continuation b \<Longrightarrow> b \<noteq> SEP"
  by (erule in_range_not_sep) (simp add: SEP_def)

lemma second_range_not_sep: "second_range a b \<Longrightarrow> b \<noteq> SEP"
  by (auto simp: SEP_def in_range_def split: if_splits)

lemma valid_utf8_no_sep: "valid_utf8 bs \<Longrightarrow> SEP \<notin> set bs"
proof (induction bs rule: valid_utf8.induct)
  case (2 a rest)
  have a: "a \<noteq> SEP" using "2.prems" by (auto simp: SEP_def in_range_def split: if_splits)
  consider "a < 0x80" | "\<not> a < 0x80" "in_range 0xC2 0xDF a"
    | "\<not> a < 0x80" "\<not> in_range 0xC2 0xDF a" "in_range 0xE0 0xEF a"
    | "\<not> a < 0x80" "\<not> in_range 0xC2 0xDF a" "\<not> in_range 0xE0 0xEF a" "in_range 0xF0 0xF4 a"
    | "\<not> valid_utf8 (a # rest)" by fastforce
  then have "SEP \<notin> set rest"
  proof cases
    case 1
    then show ?thesis using "2.prems" "2.IH"(1) by simp
  next
    case 2
    then obtain b r where "rest = b # r" "continuation b" "valid_utf8 r"
      using "2.prems" by (auto split: list.splits)
    then show ?thesis using "2.IH"(2) [of b r] 2 continuation_not_sep [of b] by auto
  next
    case 3
    then obtain b c r where "rest = b # c # r" "second_range a b" "continuation c" "valid_utf8 r"
      using "2.prems" by (auto split: list.splits simp del: second_range.simps)
    then show ?thesis
      using "2.IH"(3) [of b "c # r" c r] 3 second_range_not_sep [of a b] continuation_not_sep [of c]
      by (auto simp del: second_range.simps)
  next
    case 4
    then obtain b c d r where "rest = b # c # d # r" "second_range a b" "continuation c"
        "continuation d" "valid_utf8 r"
      using "2.prems" by (auto split: list.splits simp del: second_range.simps)
    then show ?thesis
      using "2.IH"(4) [of b "c # d # r" c "d # r" d r] 4 second_range_not_sep [of a b]
        continuation_not_sep [of c] continuation_not_sep [of d]
      by (auto simp del: second_range.simps)
  next
    case 5
    then show ?thesis using "2.prems" by blast
  qed
  with a show ?case by simp
qed simp

subsection \<open>Records\<close>

text \<open>The bytes of a component, and what a type reads from it.\<close>

fun record_bytes :: "ser_value \<Rightarrow> bytes" where
  "record_bytes (SerStr v) = v"
| "record_bytes (SerU64 w) = to_be_bytes w"
| "record_bytes (SerI64 w) = to_be_bytes w"
| "record_bytes (SerSome v) = record_bytes v"
| "record_bytes _ = []"

fun decodes :: "de_type \<Rightarrow> ser_value \<Rightarrow> 'j de_value option" where
  "decodes t (SerStr v) = (if (t = DeStr \<or> t = DeString) \<and> valid_utf8 v then Some (VStr v) else None)"
| "decodes t (SerU64 w) = (if t = DeU64 then Some (VU64 w) else None)"
| "decodes t (SerI64 w) = (if t = DeI64 then Some (VI64 w) else None)"
| "decodes t SerNone = (case t of DeOption _ \<Rightarrow> Some VNone | _ \<Rightarrow> None)"
| "decodes t (SerSome v) =
     (case (t, record_bytes v) of
        (DeOption t', b # _) \<Rightarrow> if b = SEP then None else map_option VSome (decodes t' v)
      | _ \<Rightarrow> None)"
| "decodes _ _ = None"

definition record_tail :: "ser_value list \<Rightarrow> bytes" where
  "record_tail vs = concat (map (\<lambda>v. SEP # record_bytes v) vs)"

fun records :: "ser_value list \<Rightarrow> bytes" where
  "records [] = []"
| "records (v # vs) = record_bytes v @ record_tail vs"

lemma record_tail_simps [simp]:
  "record_tail [] = []"
  "record_tail (v # vs) = SEP # record_bytes v @ record_tail vs"
  by (simp_all add: record_tail_def)

fun plain :: "ser_value \<Rightarrow> bool" where
  "plain (SerStr _) = True"
| "plain (SerU64 _) = True"
| "plain (SerI64 _) = True"
| "plain SerNone = True"
| "plain (SerSome v) = plain v"
| "plain _ = False"

lemma decodes_plain: "decodes t v = Some dv \<Longrightarrow> plain v"
  by (induction t v arbitrary: dv rule: decodes.induct) (auto split: list.splits if_splits de_type.splits)

lemma serialize_plain:
  assumes "plain v" and "dbg \<longrightarrow> ser_depth s > 0" and "\<not> ser_fin s" and "ser_cap s = None"
  shows "serialize_value dbg v s = Inr (s\<lparr>ser_out := ser_out s @ record_bytes v\<rparr>)"
  using assms
  by (induction v rule: plain.induct)
    (auto simp: serialize_str_def serialize_bytes_def ser_write_def ser_write_all_def debug_assert_def)

lemma serialize_records_plain:
  assumes "list_all plain vs" and "dbg \<longrightarrow> ser_depth s > 0" and "\<not> ser_fin s" and "ser_cap s = None"
  shows "serialize_records dbg vs s =
    Inr (s\<lparr>ser_out := ser_out s @ (if ser_sep s then record_tail vs else records vs),
           ser_sep := ser_sep s \<or> vs \<noteq> []\<rparr>)"
  using assms
proof (induction vs arbitrary: s)
  case (Cons v vs)
  let ?sep = "if ser_sep s then [SEP] else []"
  have start: "ser_record_start dbg s = Inr (s\<lparr>ser_out := ser_out s @ ?sep, ser_sep := True\<rparr>)"
    using Cons.prems
    by (simp add: ser_record_start_def ser_separator_def ser_write_all_def debug_assert_def)
  show ?case
    using Cons by (simp add: start serialize_plain)
qed simp

lemma serialize_tuple:
  assumes "list_all plain vs"
  shows "serialize_to_vec dbg (SerTuple vs) = Inr (records vs)"
  by (simp add: serialize_to_vec_def serialize_def ser_tuple_start_def ser_sequence_start_def
      ser_tuple_end_def ser_sequence_end_def serialize_records_plain [OF assms] saturating_add_def
      saturating_sub_def debug_assert_def)

lemma take_to_be_bytes_append [simp]: "take 8 (to_be_bytes w @ tail) = to_be_bytes w"
  by simp

lemma record_next_simp:
  assumes "drop (de_pos d) (de_buf d) = piece @ tail" and "de_pos d \<le> length (de_buf d)"
    and "SEP \<notin> set piece" and "tail = [] \<or> hd tail = SEP"
  shows "de_record_next dbg d = Inr (piece, d\<lparr>de_pos := de_pos d + length piece\<rparr>)"
proof -
  have "takeWhile (\<lambda>b. b \<noteq> SEP) (piece @ tail) = piece"
    using assms(3,4) by (cases tail) (auto simp: takeWhile_append)
  moreover have "de_pos d + length piece \<le> length (de_buf d)"
    using arg_cong [OF assms(1), of length] assms(2) by simp
  ultimately show ?thesis
    using assms(1,2) by (simp add: de_record_next_def de_rest_def de_inc_pos_def Let_def debug_assert_def)
qed

lemma decode_value:
  fixes dv :: "'j de_value"
  assumes "decodes t v = Some dv" and "drop (de_pos d) (de_buf d) = record_bytes v @ tail"
    and "de_pos d \<le> length (de_buf d)" and "tail = [] \<or> hd tail = SEP"
  shows "deserialize_value dbg F t d = Inr (dv, d\<lparr>de_pos := de_pos d + length (record_bytes v)\<rparr>)"
  using assms
proof (induction t v arbitrary: dv rule: decodes.induct)
  case (1 t v)
  then show ?case
    using record_next_simp [of d v tail dbg] valid_utf8_no_sep [of v]
    by (auto simp: de_str_def str_from_bytes_def split: if_splits)
next
  case (2 t w)
  moreover have "de_pos d + 8 \<le> length (de_buf d)"
    using arg_cong [OF 2(2), of length] 2(3) by simp
  ultimately show ?case
    by (auto simp: de_word_def de_rest_def de_inc_pos_def debug_assert_def split: if_splits)
next
  case (3 t w)
  moreover have "de_pos d + 8 \<le> length (de_buf d)"
    using arg_cong [OF 3(2), of length] 3(3) by simp
  ultimately show ?case
    by (auto simp: de_word_def de_rest_def de_inc_pos_def debug_assert_def split: if_splits)
next
  case (4 t)
  have "de_pos d \<ge> length (de_buf d) \<or> de_buf d ! de_pos d = SEP"
    using 4(2,4) by (cases "de_pos d < length (de_buf d)") (auto simp: Cons_nth_drop_Suc [symmetric])
  with 4 show ?case by (auto split: de_type.splits)
next
  case (5 t v)
  then obtain t' b bs dv' where b: "t = DeOption t'" "record_bytes v = b # bs" "b \<noteq> SEP"
      "decodes t' v = Some dv'" "dv = VSome dv'"
    by (auto split: list.splits if_splits de_type.splits)
  have split: "drop (de_pos d) (de_buf d) = b # bs @ tail"
    using 5(3) b(2) by simp
  then have "de_pos d < length (de_buf d)"
    by (metis drop_all linorder_not_less list.distinct(1))
  moreover from this have "de_buf d ! de_pos d = b"
    using split by (metis Cons_nth_drop_Suc list.inject)
  moreover have "deserialize_value dbg F t' d =
      Inr (dv', d\<lparr>de_pos := de_pos d + length (record_bytes v)\<rparr>)"
    by (rule 5(1) [OF refl b(1,2,3,4)]) (use 5(3-5) in simp_all)
  ultimately show ?case using b by simp
qed simp_all

lemma decode_fields:
  fixes dvs :: "'j de_value list"
  assumes "map2 decodes ts vs = map Some dvs" and "length ts = length vs"
    and "drop (de_pos d) (de_buf d) = record_tail vs" and "de_pos d \<le> length (de_buf d)"
    and "de_started d"
  shows "\<exists>rec. deserialize_fields dbg F ts d =
    Inr (dvs, d\<lparr>de_pos := length (de_buf d), de_rec := rec\<rparr>)"
  using assms
proof (induction vs arbitrary: ts dvs d)
  case Nil
  then show ?case by (auto intro: exI [of _ "de_rec d"])
next
  case (Cons v vs)
  then obtain t ts' where ts: "ts = t # ts'" by (cases ts) auto
  from Cons.prems(1) ts obtain dv dvs' where dvs: "dvs = dv # dvs'" "decodes t v = Some dv"
      "map2 decodes ts' vs = map Some dvs'" by auto
  let ?d1 = "d\<lparr>de_pos := Suc (de_pos d), de_rec := Suc (de_rec d)\<rparr>"
  let ?d2 = "d\<lparr>de_pos := Suc (de_pos d + length (record_bytes v)), de_rec := Suc (de_rec d)\<rparr>"
  have split: "drop (de_pos d) (de_buf d) = SEP # record_bytes v @ record_tail vs"
    using Cons.prems(3) by simp
  have pos: "de_pos d < length (de_buf d)"
    using split by (metis drop_all linorder_not_less list.distinct(1))
  then have sep: "de_buf d ! de_pos d = SEP"
    and rest: "drop (Suc (de_pos d)) (de_buf d) = record_bytes v @ record_tail vs"
    using split by (metis Cons_nth_drop_Suc list.inject)+
  have start: "de_record_start dbg d = Inr ?d1"
    using pos sep Cons.prems(5) by (simp add: de_record_start_def de_inc_pos_def debug_assert_def)
  have decoded: "deserialize_value dbg F t ?d1 = Inr (dv, ?d2)"
    using decode_value [OF dvs(2), of ?d1 "record_tail vs" dbg F] rest pos
    by (cases vs) simp_all
  have "drop (de_pos ?d2) (de_buf ?d2) = record_tail vs"
    using arg_cong [OF rest, of "drop (length (record_bytes v))"] by (simp add: add.commute)
  moreover have "de_pos ?d2 \<le> length (de_buf ?d2)"
    using arg_cong [OF rest, of length] pos by simp
  ultimately obtain rec where "deserialize_fields dbg F ts' ?d2 =
      Inr (dvs', ?d2\<lparr>de_pos := length (de_buf ?d2), de_rec := rec\<rparr>)"
    using Cons.IH [OF dvs(3), of ?d2] Cons.prems(2) ts by (auto simp: de_started_def)
  then show ?case
    using pos by (auto simp: ts dvs start decoded intro: exI [of _ rec])
qed

lemma decode_tuple:
  fixes dvs :: "'j de_value list"
  assumes "map2 decodes ts vs = map Some dvs" and "length ts = length vs" and "vs \<noteq> []"
    and "records vs \<noteq> []"
  shows "from_slice dbg F (DeTuple ts) (records vs) = Inr (VTuple dvs)"
proof -
  obtain v vs' t ts' where split: "vs = v # vs'" "ts = t # ts'"
    using assms(2,3) by (cases vs; cases ts) auto
  from assms(1) split obtain dv dvs' where dvs: "dvs = dv # dvs'" "decodes t v = Some dv"
      "map2 decodes ts' vs' = map Some dvs'" by auto
  let ?buf = "record_bytes v @ record_tail vs'"
  let ?d1 = "\<lparr>de_buf = ?buf, de_pos = 0, de_rec = 1, de_seq = True\<rparr>"
  let ?d2 = "?d1\<lparr>de_pos := length (record_bytes v)\<rparr>"
  have decoded: "deserialize_value dbg F t ?d1 = Inr (dv, ?d2)"
    using decode_value [OF dvs(2), of ?d1 "record_tail vs'" dbg F] by (cases vs') simp_all
  obtain rec where fields: "deserialize_fields dbg F ts' ?d2 =
      Inr (dvs', ?d2\<lparr>de_pos := length (de_buf ?d2), de_rec := rec\<rparr>)"
    using decode_fields [OF dvs(3), of ?d2 dbg F] assms(2) split by (auto simp: de_started_def)
  show ?thesis
    using assms(4) decoded fields
    by (simp add: from_slice_def split dvs(1) de_sequence_start_def de_record_start_def de_started_def
        de_inc_pos_def de_finished_def debug_assert_def)
qed

text \<open>
  C18: Keys and values survive the codec, in debug and in release builds: what a tuple of strings,
  64-bit integers and options of them is serialized to, is deserialized at the types of its components
  to the same components. The tuple must not be a single empty component, which leaves no bytes, and
  the content of an option must not be empty or start with the separator byte.
\<close>

theorem codec_roundtrip:
  fixes dvs :: "'j de_value list"
  assumes "length ts = length vs" and "map2 decodes ts vs = map Some dvs"
    and "length vs \<noteq> 1 \<or> record_bytes (hd vs) \<noteq> []" and "vs \<noteq> []"
  shows "\<exists>buf. serialize_to_vec dbg (SerTuple vs) = Inr buf \<and>
    from_slice dbg F (DeTuple ts) buf = Inr (VTuple dvs)"
proof -
  have "list_all plain vs"
    using assms(1,2) by (induction ts vs arbitrary: dvs rule: list_induct2) (auto dest: decodes_plain)
  moreover have "records vs \<noteq> []"
    using assms(3,4) by (cases vs; cases "tl vs") auto
  ultimately show ?thesis
    using serialize_tuple decode_tuple [OF assms(2,1,4)] by blast
qed

definition sample_foreign :: "unit foreign" where
  "sample_foreign = \<lparr>from_json = (\<lambda>b. if b = [0x7B, 0x7D] then Some () else None), from_cbor = (\<lambda>_. None)\<rparr>"

theorem codec_roundtrip_witness:
  "\<exists>buf. serialize_to_vec True (SerTuple [SerStr [0x21, 0x72], SerNone, SerU64 (- 1)]) = Inr buf \<and>
    from_slice True sample_foreign (DeTuple [DeStr, DeOption DeU64, DeU64]) buf =
      Inr (VTuple [VStr [0x21, 0x72], VNone, VU64 (- 1)])"
  by (rule codec_roundtrip) simp_all



subsection \<open>Shapes that do not survive\<close>




subsection \<open>Prefixes and order\<close>

lemma serialize_records_append:
  "serialize_records dbg (xs @ ys) s =
     res_bind (serialize_records dbg xs s) (\<lambda>s. serialize_records dbg ys s)"
proof (induction xs arbitrary: s)
  case (Cons x xs)
  show ?case
  proof (cases "ser_record_start dbg s")
    case (Inr s1)
    then show ?thesis using Cons by (cases "serialize_value dbg x s1") simp_all
  qed simp
qed simp

lemma serialize_interfix:
  assumes "list_all plain vs" and "vs \<noteq> []"
  shows "serialize_to_vec dbg (SerTuple (vs @ [SerInterfix])) = Inr (records vs @ [SEP])"
  using assms(2)
  by (simp add: serialize_to_vec_def serialize_def ser_tuple_start_def ser_sequence_start_def
      ser_tuple_end_def ser_sequence_end_def serialize_records_append serialize_records_plain [OF assms(1)]
      ser_record_start_def ser_separator_def ser_write_all_def ser_set_finalized_def
      saturating_add_def saturating_sub_def debug_assert_def)

lemma records_append:
  "xs \<noteq> [] \<Longrightarrow> records (xs @ ys) = records xs @ record_tail ys"
  by (cases xs) (simp_all add: record_tail_def)

lemma prefix_sep_iff:
  assumes "SEP \<notin> set x" and "SEP \<notin> set y"
  shows "prefix (x @ SEP # xs) (y @ SEP # ys) \<longleftrightarrow> x = y \<and> prefix xs ys"
  using assms
proof (induction x arbitrary: y)
  case Nil
  then show ?case by (cases y) auto
next
  case (Cons a x)
  then show ?case by (cases y) auto
qed

lemma prefix_records_iff:
  assumes "\<forall>s\<in>set (ss @ ts). SEP \<notin> set s" and "length ss = length ts" and "ss \<noteq> []" and "zs \<noteq> []"
  shows "prefix (records (map SerStr ss) @ [SEP]) (records (map SerStr ts @ zs)) \<longleftrightarrow> ss = ts"
  using assms(2,1,3)
proof (induction ss ts rule: list_induct2)
  case (Cons s ss t ts)
  obtain z zs' where zs: "zs = z # zs'" using assms(4) by (cases zs) auto
  show ?case
  proof (cases "ss = []")
    case True
    with Cons show ?thesis by (simp add: zs prefix_sep_iff)
  next
    case False
    then obtain s' ss' t' ts' where split: "ss = s' # ss'" "ts = t' # ts'"
      using Cons.hyps by (cases ss; cases ts) auto
    have "prefix (records (map SerStr ss) @ [SEP]) (records (map SerStr ts @ zs)) \<longleftrightarrow> ss = ts"
      using Cons False by simp
    then show ?thesis
      using Cons.prems by (simp add: split prefix_sep_iff)
  qed
qed simp

text \<open>
  C22: Prefix scans neither miss nor leak. The prefix serialized from leading strings and an
  \<open>Interfix\<close> is a prefix of the key serialized from as many strings and further components exactly
  when the strings are the same: a room named by a prefix of another room's name does not see its
  keys. Under one prefix, keys that end in an integer sort by that integer.
\<close>

theorem codec_prefix_exact:
  assumes "\<forall>s\<in>set (ss @ ts). valid_utf8 s" and "length ss = length ts" and "ss \<noteq> []"
    and "zs \<noteq> []" and "list_all plain zs"
  shows "(\<exists>pre key. serialize_to_vec dbg (SerTuple (map SerStr ss @ [SerInterfix])) = Inr pre \<and>
      serialize_to_vec dbg (SerTuple (map SerStr ts @ zs)) = Inr key \<and>
      (prefix pre key \<longleftrightarrow> ss = ts)) \<and>
    (\<exists>low high. serialize_to_vec dbg (SerTuple (map SerStr ss @ [SerU64 a])) = Inr low \<and>
      serialize_to_vec dbg (SerTuple (map SerStr ss @ [SerU64 b])) = Inr high \<and>
      (low < high \<longleftrightarrow> a < b))"
proof (intro conjI)
  have plain: "list_all plain (map SerStr us)" for us
    by (simp add: list_all_iff)
  have "prefix (records (map SerStr ss) @ [SEP]) (records (map SerStr ts @ zs)) \<longleftrightarrow> ss = ts"
    using assms valid_utf8_no_sep by (intro prefix_records_iff) auto
  then show "\<exists>pre key. serialize_to_vec dbg (SerTuple (map SerStr ss @ [SerInterfix])) = Inr pre \<and>
      serialize_to_vec dbg (SerTuple (map SerStr ts @ zs)) = Inr key \<and> (prefix pre key \<longleftrightarrow> ss = ts)"
    using assms plain by (simp add: serialize_interfix serialize_tuple)
  have "records (map SerStr ss @ [SerU64 a]) < records (map SerStr ss @ [SerU64 b]) \<longleftrightarrow> a < b"
    using assms(3) by (simp add: records_append append_less_same_length to_be_bytes_less_iff)
  then show "\<exists>low high. serialize_to_vec dbg (SerTuple (map SerStr ss @ [SerU64 a])) = Inr low \<and>
      serialize_to_vec dbg (SerTuple (map SerStr ss @ [SerU64 b])) = Inr high \<and> (low < high \<longleftrightarrow> a < b)"
    using plain by (simp add: serialize_tuple)
qed

theorem codec_prefix_exact_witness:
  "\<exists>pre key. serialize_to_vec True (SerTuple [SerStr [0x21, 0x61], SerInterfix]) = Inr pre \<and>
     serialize_to_vec True (SerTuple [SerStr [0x21, 0x61, 0x62], SerU64 7]) = Inr key \<and>
     \<not> prefix pre key"
  using codec_prefix_exact [of "[[0x21, 0x61]]" "[[0x21, 0x61, 0x62]]" "[SerU64 7]" True 0 0] by simp

end
