(* ===== verification/Db_Map.thy ===== *)
theory Db_Map
  imports Db_Codec
begin

section \<open>The database: maps, transactions, cursors\<close>

text \<open>
  \<open>phantom-database\<close>: the engine with its corks (\<open>engine/mod.rs\<close>, \<open>store/cork.rs\<close>), the maps
  (\<open>map/*.rs\<close>), their watchers, the cursors that scan them and the transactions that write several
  of them at once (\<open>store/txn.rs\<close>).

  RocksDB is the parameter \<open>rocksdb\<close>: its state has the type \<open>'d\<close>, its raw iterators the type
  \<open>'it\<close>. The state of the program is the record \<open>database\<close>. An operation returns the state it leaves
  and its result, since an operation that fails half way may have written. Reads that miss the block
  cache run on a worker pool; the pool answers what \<open>get_blocking\<close> and \<open>State::init\<close> answer, and the
  model calls these in place. A watcher that fired is recorded in \<open>woken\<close>.
\<close>

subsection \<open>Errors\<close>

datatype error_kind = KNotFound | KCorruption | KNotSupported | KInvalidArgument | KIOError
  | KMergeInProgress | KIncomplete | KShutdownInProgress | KTimedOut | KAborted | KBusy | KExpired
  | KTryAgain | KCompactionTooLarge | KColumnFamilyDropped | KUnknown

datatype io_kind = IoNotFound | IoInvalidData | IoInvalidInput | IoInterrupted | IoUnsupported
  | IoFileTooLarge | IoResourceBusy | IoTimedOut | IoWouldBlock | IoOther

record rocks_error =
  re_kind :: error_kind
  re_text :: string

datatype db_error = DbIo io_kind string | DbNotFound | DbCodec codec_error

fun io_error_kind :: "error_kind \<Rightarrow> io_kind" where
  "io_error_kind KNotFound = IoNotFound"
| "io_error_kind KCorruption = IoInvalidData"
| "io_error_kind KInvalidArgument = IoInvalidInput"
| "io_error_kind KAborted = IoInterrupted"
| "io_error_kind KNotSupported = IoUnsupported"
| "io_error_kind KCompactionTooLarge = IoFileTooLarge"
| "io_error_kind KMergeInProgress = IoResourceBusy"
| "io_error_kind KBusy = IoResourceBusy"
| "io_error_kind KExpired = IoTimedOut"
| "io_error_kind KTimedOut = IoTimedOut"
| "io_error_kind KIncomplete = IoWouldBlock"
| "io_error_kind KTryAgain = IoWouldBlock"
| "io_error_kind KColumnFamilyDropped = IoOther"
| "io_error_kind KShutdownInProgress = IoOther"
| "io_error_kind KIOError = IoOther"
| "io_error_kind KUnknown = IoOther"

definition map_err :: "rocks_error \<Rightarrow> db_error" where
  "map_err e = DbIo (io_error_kind (re_kind e)) (re_text e)"

definition is_incomplete :: "rocks_error \<Rightarrow> bool" where
  "is_incomplete e \<longleftrightarrow> re_kind e = KIncomplete"

subsection \<open>RocksDB and the engine\<close>

type_synonym column = string

datatype batch_op = BatchPut column bytes bytes | BatchDelete column bytes

record ('d, 'it) rocksdb =
  put_cf :: "'d \<Rightarrow> column \<Rightarrow> bytes \<Rightarrow> bytes \<Rightarrow> (rocks_error, 'd) result"
  delete_cf :: "'d \<Rightarrow> column \<Rightarrow> bytes \<Rightarrow> (rocks_error, 'd) result"
  write_batch :: "'d \<Rightarrow> batch_op list \<Rightarrow> (rocks_error, 'd) result"
  flush_wal :: "'d \<Rightarrow> bool \<Rightarrow> (rocks_error, 'd) result"
  get_pinned :: "'d \<Rightarrow> column \<Rightarrow> bytes \<Rightarrow> (rocks_error, bytes option) result"
  get_block_cache :: "'d \<Rightarrow> column \<Rightarrow> bytes \<Rightarrow> (rocks_error, bytes option) result"
  raw_iterator :: "'d \<Rightarrow> column \<Rightarrow> bytes option \<Rightarrow> 'it"
  it_seek :: "'it \<Rightarrow> bytes \<Rightarrow> 'it"
  it_seek_for_prev :: "'it \<Rightarrow> bytes \<Rightarrow> 'it"
  it_seek_to_first :: "'it \<Rightarrow> 'it"
  it_seek_to_last :: "'it \<Rightarrow> 'it"
  it_next :: "'it \<Rightarrow> 'it"
  it_prev :: "'it \<Rightarrow> 'it"
  it_item :: "'it \<Rightarrow> (bytes \<times> bytes) option"
  it_status :: "'it \<Rightarrow> rocks_error option"

record 'd database =
  eng_db :: 'd
  corks :: u32
  watchers :: "column \<Rightarrow> bytes list"
  woken :: "(column \<times> bytes) list"

definition engine_write ::
  "('d \<Rightarrow> (rocks_error, 'd) result) \<Rightarrow> 'd database \<Rightarrow> 'd database \<times> (db_error, unit) result"
where
  "engine_write f s =
     (case f (eng_db s) of
        Inl e \<Rightarrow> (s, Inl (map_err e))
      | Inr d \<Rightarrow> (s\<lparr>eng_db := d\<rparr>, Inr ()))"

definition engine_flush ::
  "('d, 'it) rocksdb \<Rightarrow> 'd database \<Rightarrow> 'd database \<times> (db_error, unit) result"
where
  "engine_flush R s = engine_write (\<lambda>d. flush_wal R d False) s"

definition engine_sync ::
  "('d, 'it) rocksdb \<Rightarrow> 'd database \<Rightarrow> 'd database \<times> (db_error, unit) result"
where
  "engine_sync R s = engine_write (\<lambda>d. flush_wal R d True) s"

definition engine_cork :: "'d database \<Rightarrow> 'd database" where
  "engine_cork s = s\<lparr>corks := corks s + 1\<rparr>"

definition engine_uncork :: "'d database \<Rightarrow> 'd database" where
  "engine_uncork s = s\<lparr>corks := corks s - 1\<rparr>"

definition engine_corked :: "'d database \<Rightarrow> bool" where
  "engine_corked s \<longleftrightarrow> corks s > 0"

definition flush_if_uncorked ::
  "('d, 'it) rocksdb \<Rightarrow> 'd database \<Rightarrow> 'd database \<times> (db_error, unit) result"
where
  "flush_if_uncorked R s = (if engine_corked s then (s, Inr ()) else engine_flush R s)"

text \<open>A cork guard, by its two flags; dropping it is the last thing its holder does.\<close>

record cork =
  cork_flush :: bool
  cork_sync :: bool

definition cork_new :: "bool \<Rightarrow> bool \<Rightarrow> 'd database \<Rightarrow> cork \<times> 'd database" where
  "cork_new flush sync s = (\<lparr>cork_flush = flush, cork_sync = sync\<rparr>, engine_cork s)"

definition cork_drop :: "('d, 'it) rocksdb \<Rightarrow> cork \<Rightarrow> 'd database \<Rightarrow> 'd database" where
  "cork_drop R c s =
     (let s1 = engine_uncork s;
          s2 = (if cork_flush c then fst (engine_flush R s1) else s1)
      in if cork_sync c then fst (engine_sync R s2) else s2)"

subsection \<open>Watchers\<close>

definition watchers_watch :: "bytes \<Rightarrow> bytes list \<Rightarrow> bytes list" where
  "watchers_watch p ws = (if p \<in> set ws then ws else ws @ [p])"

definition watchers_triggered :: "bytes \<Rightarrow> bytes list \<Rightarrow> bytes list" where
  "watchers_triggered key ws =
     (if length ws \<le> length key then filter (\<lambda>p. prefix p key) ws
      else filter (\<lambda>p. p \<in> set ws) (map (\<lambda>len. take len key) [0..<Suc (length key)]))"

definition watchers_wake :: "bytes \<Rightarrow> bytes list \<Rightarrow> bytes list \<times> bytes list" where
  "watchers_wake key ws =
     (if ws = [] then ([], [])
      else let triggered = watchers_triggered key ws in
        (filter (\<lambda>p. p \<in> set ws) triggered, filter (\<lambda>p. p \<notin> set triggered) ws))"

definition map_watch_prefix :: "column \<Rightarrow> bytes \<Rightarrow> 'd database \<Rightarrow> 'd database" where
  "map_watch_prefix c p s = s\<lparr>watchers := (watchers s)(c := watchers_watch p (watchers s c))\<rparr>"

definition map_wake :: "column \<Rightarrow> bytes \<Rightarrow> 'd database \<Rightarrow> 'd database" where
  "map_wake c key s =
     (case watchers_wake key (watchers s c) of (fired, left) \<Rightarrow>
        s\<lparr>watchers := (watchers s)(c := left), woken := woken s @ map (Pair c) fired\<rparr>)"

subsection \<open>Writing a map\<close>

definition map_insert ::
  "('d, 'it) rocksdb \<Rightarrow> column \<Rightarrow> bytes \<Rightarrow> bytes \<Rightarrow> 'd database \<Rightarrow> 'd database \<times> (db_error, unit) result"
where
  "map_insert R c key val s =
     st_bind (engine_write (\<lambda>d. put_cf R d c key val) s) (\<lambda>_ s.
     st_bind (flush_if_uncorked R s) (\<lambda>_ s. (map_wake c key s, Inr ())))"

definition map_insert_batch ::
  "('d, 'it) rocksdb \<Rightarrow> column \<Rightarrow> (bytes \<times> bytes) list \<Rightarrow> 'd database \<Rightarrow>
     'd database \<times> (db_error, unit) result"
where
  "map_insert_batch R c kvs s =
     st_bind (engine_write (\<lambda>d. write_batch R d (map (\<lambda>(k, v). BatchPut c k v) kvs)) s) (\<lambda>_ s.
     st_bind (flush_if_uncorked R s) (\<lambda>_ s.
       (foldl (\<lambda>s k. map_wake c k s) s (map fst kvs), Inr ())))"

definition map_remove ::
  "('d, 'it) rocksdb \<Rightarrow> column \<Rightarrow> bytes \<Rightarrow> 'd database \<Rightarrow> 'd database \<times> (db_error, unit) result"
where
  "map_remove R c key s =
     st_bind (engine_write (\<lambda>d. delete_cf R d c key) s) (\<lambda>_ s. flush_if_uncorked R s)"

text \<open>\<open>serialize(..)?\<close> before a write; the capacities are those of the buffers given.\<close>

definition map_bput_raw ::
  "bool \<Rightarrow> ('d, 'it) rocksdb \<Rightarrow> column \<Rightarrow> nat option \<Rightarrow> ser_value \<Rightarrow> bytes \<Rightarrow> 'd database \<Rightarrow>
     'd database \<times> (db_error, unit) result"
where
  "map_bput_raw dbg R c kcap key val s =
     (case serialize dbg kcap key of
        Inl e \<Rightarrow> (s, Inl (DbCodec e))
      | Inr k \<Rightarrow> map_insert R c k val s)"

definition map_raw_bput ::
  "bool \<Rightarrow> ('d, 'it) rocksdb \<Rightarrow> column \<Rightarrow> bytes \<Rightarrow> nat option \<Rightarrow> ser_value \<Rightarrow> 'd database \<Rightarrow>
     'd database \<times> (db_error, unit) result"
where
  "map_raw_bput dbg R c key vcap val s =
     (case serialize dbg vcap val of
        Inl e \<Rightarrow> (s, Inl (DbCodec e))
      | Inr v \<Rightarrow> map_insert R c key v s)"

definition map_bput ::
  "bool \<Rightarrow> ('d, 'it) rocksdb \<Rightarrow> column \<Rightarrow> nat option \<Rightarrow> nat option \<Rightarrow> ser_value \<Rightarrow> ser_value \<Rightarrow>
     'd database \<Rightarrow> 'd database \<times> (db_error, unit) result"
where
  "map_bput dbg R c kcap vcap key val s =
     (case serialize dbg vcap val of
        Inl e \<Rightarrow> (s, Inl (DbCodec e))
      | Inr v \<Rightarrow> map_bput_raw dbg R c kcap key v s)"

definition map_put ::
  "bool \<Rightarrow> ('d, 'it) rocksdb \<Rightarrow> column \<Rightarrow> ser_value \<Rightarrow> ser_value \<Rightarrow> 'd database \<Rightarrow>
     'd database \<times> (db_error, unit) result"
where
  "map_put dbg R c key val s = map_bput dbg R c None None key val s"

definition map_put_raw ::
  "bool \<Rightarrow> ('d, 'it) rocksdb \<Rightarrow> column \<Rightarrow> ser_value \<Rightarrow> bytes \<Rightarrow> 'd database \<Rightarrow>
     'd database \<times> (db_error, unit) result"
where
  "map_put_raw dbg R c key val s = map_bput_raw dbg R c None key val s"

definition map_raw_put ::
  "bool \<Rightarrow> ('d, 'it) rocksdb \<Rightarrow> column \<Rightarrow> bytes \<Rightarrow> ser_value \<Rightarrow> 'd database \<Rightarrow>
     'd database \<times> (db_error, unit) result"
where
  "map_raw_put dbg R c key val s = map_raw_bput dbg R c key None val s"

definition map_aput ::
  "bool \<Rightarrow> ('d, 'it) rocksdb \<Rightarrow> column \<Rightarrow> nat \<Rightarrow> nat \<Rightarrow> ser_value \<Rightarrow> ser_value \<Rightarrow> 'd database \<Rightarrow>
     'd database \<times> (db_error, unit) result"
where
  "map_aput dbg R c kmax vmax key val s = map_bput dbg R c (Some kmax) (Some vmax) key val s"

definition map_aput_raw ::
  "bool \<Rightarrow> ('d, 'it) rocksdb \<Rightarrow> column \<Rightarrow> nat \<Rightarrow> ser_value \<Rightarrow> bytes \<Rightarrow> 'd database \<Rightarrow>
     'd database \<times> (db_error, unit) result"
where
  "map_aput_raw dbg R c kmax key val s = map_bput_raw dbg R c (Some kmax) key val s"

definition map_raw_aput ::
  "bool \<Rightarrow> ('d, 'it) rocksdb \<Rightarrow> column \<Rightarrow> nat \<Rightarrow> bytes \<Rightarrow> ser_value \<Rightarrow> 'd database \<Rightarrow>
     'd database \<times> (db_error, unit) result"
where
  "map_raw_aput dbg R c vmax key val s = map_raw_bput dbg R c key (Some vmax) val s"

definition map_bdel ::
  "bool \<Rightarrow> ('d, 'it) rocksdb \<Rightarrow> column \<Rightarrow> nat option \<Rightarrow> ser_value \<Rightarrow> 'd database \<Rightarrow>
     'd database \<times> (db_error, unit) result"
where
  "map_bdel dbg R c kcap key s =
     (case serialize dbg kcap key of
        Inl e \<Rightarrow> (s, Inl (DbCodec e))
      | Inr k \<Rightarrow> map_remove R c k s)"

definition map_del ::
  "bool \<Rightarrow> ('d, 'it) rocksdb \<Rightarrow> column \<Rightarrow> ser_value \<Rightarrow> 'd database \<Rightarrow>
     'd database \<times> (db_error, unit) result"
where
  "map_del dbg R c key s = map_bdel dbg R c None key s"

definition map_adel ::
  "bool \<Rightarrow> ('d, 'it) rocksdb \<Rightarrow> column \<Rightarrow> nat \<Rightarrow> ser_value \<Rightarrow> 'd database \<Rightarrow>
     'd database \<times> (db_error, unit) result"
where
  "map_adel dbg R c kmax key s = map_bdel dbg R c (Some kmax) key s"

subsection \<open>Reading a map\<close>

definition handle_from :: "(rocks_error, bytes option) result \<Rightarrow> (db_error, bytes) result" where
  "handle_from r =
     (case r of
        Inl e \<Rightarrow> Inl (map_err e)
      | Inr v \<Rightarrow> ok_or DbNotFound v)"

definition cached_handle_from ::
  "(rocks_error, bytes option) result \<Rightarrow> (db_error, bytes option) result"
where
  "cached_handle_from r =
     (case r of
        Inr None \<Rightarrow> Inl DbNotFound
      | Inr (Some v) \<Rightarrow> Inr (Some v)
      | Inl e \<Rightarrow> if is_incomplete e then Inr None else Inl (map_err e))"

definition map_get_blocking ::
  "('d, 'it) rocksdb \<Rightarrow> column \<Rightarrow> bytes \<Rightarrow> 'd database \<Rightarrow> (db_error, bytes) result"
where
  "map_get_blocking R c key s = handle_from (get_pinned R (eng_db s) c key)"

definition map_get_cached ::
  "('d, 'it) rocksdb \<Rightarrow> column \<Rightarrow> bytes \<Rightarrow> 'd database \<Rightarrow> (db_error, bytes option) result"
where
  "map_get_cached R c key s = cached_handle_from (get_block_cache R (eng_db s) c key)"

definition map_get ::
  "('d, 'it) rocksdb \<Rightarrow> column \<Rightarrow> bytes \<Rightarrow> 'd database \<Rightarrow> (db_error, bytes) result"
where
  "map_get R c key s =
     (case map_get_cached R c key s of
        Inl e \<Rightarrow> Inl e
      | Inr (Some v) \<Rightarrow> Inr v
      | Inr None \<Rightarrow> map_get_blocking R c key s)"

definition map_get_batch ::
  "('d, 'it) rocksdb \<Rightarrow> column \<Rightarrow> bytes list \<Rightarrow> 'd database \<Rightarrow> (db_error, bytes) result list"
where
  "map_get_batch R c keys s = map (\<lambda>k. map_get_blocking R c k s) keys"

text \<open>A query key that does not serialize is a panic.\<close>

definition map_bqry ::
  "bool \<Rightarrow> ('d, 'it) rocksdb \<Rightarrow> column \<Rightarrow> nat option \<Rightarrow> ser_value \<Rightarrow> 'd database \<Rightarrow>
     (db_error, bytes) result"
where
  "map_bqry dbg R c kcap key s =
     (case serialize dbg kcap key of
        Inl _ \<Rightarrow> Inl (DbCodec CodecPanic)
      | Inr k \<Rightarrow> map_get R c k s)"

definition map_qry ::
  "bool \<Rightarrow> ('d, 'it) rocksdb \<Rightarrow> column \<Rightarrow> ser_value \<Rightarrow> 'd database \<Rightarrow> (db_error, bytes) result"
where
  "map_qry dbg R c key s = map_bqry dbg R c None key s"

definition map_aqry ::
  "bool \<Rightarrow> ('d, 'it) rocksdb \<Rightarrow> column \<Rightarrow> nat \<Rightarrow> ser_value \<Rightarrow> 'd database \<Rightarrow> (db_error, bytes) result"
where
  "map_aqry dbg R c kmax key s = map_bqry dbg R c (Some kmax) key s"

definition map_exists ::
  "('d, 'it) rocksdb \<Rightarrow> column \<Rightarrow> bytes \<Rightarrow> 'd database \<Rightarrow> (db_error, unit) result"
where
  "map_exists R c key s = res_bind (map_get R c key s) (\<lambda>_. Inr ())"

text \<open>\<open>None\<close> is the panic of a key that does not serialize.\<close>

definition map_bcontains ::
  "bool \<Rightarrow> ('d, 'it) rocksdb \<Rightarrow> column \<Rightarrow> nat option \<Rightarrow> ser_value \<Rightarrow> 'd database \<Rightarrow> bool option"
where
  "map_bcontains dbg R c kcap key s =
     (case serialize dbg kcap key of
        Inl _ \<Rightarrow> None
      | Inr k \<Rightarrow> Some (case map_exists R c k s of Inl _ \<Rightarrow> False | Inr _ \<Rightarrow> True))"

subsection \<open>Cursors\<close>

text \<open>
  A cursor is a raw iterator, whether it was positioned, and whether it has not been stepped yet.
  Polling it to its end is a loop that an iterator which keeps failing never leaves, hence
  \<open>None\<close> where it does not end. A raw iterator reads a snapshot: what is written while a scan
  runs does not show in it.
\<close>

record 'it cursor_state =
  cur_inner :: 'it
  cur_seek :: bool
  cur_init :: bool

definition cursor_new ::
  "('d, 'it) rocksdb \<Rightarrow> column \<Rightarrow> bytes option \<Rightarrow> 'd database \<Rightarrow> 'it cursor_state"
where
  "cursor_new R c upper s =
     \<lparr>cur_inner = raw_iterator R (eng_db s) c upper, cur_seek = False, cur_init = True\<rparr>"

definition cursor_init ::
  "('d, 'it) rocksdb \<Rightarrow> bool \<Rightarrow> bytes option \<Rightarrow> 'it cursor_state \<Rightarrow> 'it cursor_state"
where
  "cursor_init R rv from st =
     st\<lparr>cur_inner :=
          (case from of
             Some key \<Rightarrow> if rv then it_seek_for_prev R (cur_inner st) key else it_seek R (cur_inner st) key
           | None \<Rightarrow> if rv then it_seek_to_last R (cur_inner st) else it_seek_to_first R (cur_inner st)),
        cur_seek := True\<rparr>"

definition cursor_step :: "('d, 'it) rocksdb \<Rightarrow> bool \<Rightarrow> 'it cursor_state \<Rightarrow> 'it cursor_state" where
  "cursor_step R rv st =
     (if \<not> cur_init st then
        st\<lparr>cur_inner := (if rv then it_prev R (cur_inner st) else it_next R (cur_inner st))\<rparr>
      else if \<not> cur_seek st then
        st\<lparr>cur_inner := (if rv then it_seek_to_last R (cur_inner st) else it_seek_to_first R (cur_inner st)),
           cur_init := False\<rparr>
      else st\<lparr>cur_init := False\<rparr>)"

definition cursor_get ::
  "('d, 'it) rocksdb \<Rightarrow> 'it cursor_state \<Rightarrow> (db_error, bytes \<times> bytes) result option"
where
  "cursor_get R st =
     (case it_item R (cur_inner st) of
        Some kv \<Rightarrow> Some (Inr kv)
      | None \<Rightarrow> map_option (\<lambda>e. Inl (map_err e)) (it_status R (cur_inner st)))"

partial_function (option) cursor_stream ::
  "('d, 'it) rocksdb \<Rightarrow> bool \<Rightarrow> 'it cursor_state \<Rightarrow> (db_error, bytes \<times> bytes) result list option"
where
  "cursor_stream R rv st =
     (let st' = cursor_step R rv st in
      case cursor_get R st' of
        None \<Rightarrow> Some []
      | Some x \<Rightarrow> Option.bind (cursor_stream R rv st') (\<lambda>xs. Some (x # xs)))"

declare cursor_stream.simps [code]

definition iter_bounded ::
  "('d, 'it) rocksdb \<Rightarrow> column \<Rightarrow> bool \<Rightarrow> bytes option \<Rightarrow> bytes option \<Rightarrow> 'd database \<Rightarrow>
     (db_error, bytes \<times> bytes) result list option"
where
  "iter_bounded R c rv from upper s = cursor_stream R rv (cursor_init R rv from (cursor_new R c upper s))"

definition iter_from ::
  "('d, 'it) rocksdb \<Rightarrow> column \<Rightarrow> bool \<Rightarrow> bytes option \<Rightarrow> 'd database \<Rightarrow>
     (db_error, bytes \<times> bytes) result list option"
where
  "iter_from R c rv from s = iter_bounded R c rv from None s"

text \<open>The last byte below the maximum is incremented and what follows it dropped.\<close>

definition prefix_upper_bound :: "bytes \<Rightarrow> bytes option" where
  "prefix_upper_bound p =
     (case dropWhile (\<lambda>b. b = - 1) (rev p) of
        [] \<Rightarrow> None
      | b # lower \<Rightarrow> Some (rev lower @ [b + 1]))"

fun try_take_while :: "('a \<Rightarrow> bool) \<Rightarrow> ('e, 'a) result list \<Rightarrow> ('e, 'a) result list" where
  "try_take_while P [] = []"
| "try_take_while P (Inl e # xs) = Inl e # try_take_while P xs"
| "try_take_while P (Inr a # xs) = (if P a then Inr a # try_take_while P xs else [])"

definition iter_prefix ::
  "('d, 'it) rocksdb \<Rightarrow> column \<Rightarrow> bool \<Rightarrow> bytes \<Rightarrow> 'd database \<Rightarrow>
     (db_error, bytes \<times> bytes) result list option"
where
  "iter_prefix R c rv p s =
     map_option (try_take_while (\<lambda>(k, _). prefix p k))
       (iter_bounded R c rv (if rv then None else Some p) (prefix_upper_bound p) s)"

definition ok_keys :: "('e, bytes \<times> bytes) result list \<Rightarrow> bytes list" where
  "ok_keys xs = List.map_filter (\<lambda>x. case x of Inl _ \<Rightarrow> None | Inr (k, _) \<Rightarrow> Some k) xs"

text \<open>The streams of \<open>keys.rs\<close> and \<open>stream.rs\<close>: whole columns, from a bound, under a prefix.\<close>

definition raw_stream ::
  "('d, 'it) rocksdb \<Rightarrow> column \<Rightarrow> bool \<Rightarrow> 'd database \<Rightarrow> (db_error, bytes \<times> bytes) result list option"
where
  "raw_stream R c rv s = iter_from R c rv None s"

definition raw_stream_from ::
  "('d, 'it) rocksdb \<Rightarrow> column \<Rightarrow> bool \<Rightarrow> bytes \<Rightarrow> 'd database \<Rightarrow>
     (db_error, bytes \<times> bytes) result list option"
where
  "raw_stream_from R c rv from s = iter_from R c rv (Some from) s"

definition raw_stream_prefix ::
  "('d, 'it) rocksdb \<Rightarrow> column \<Rightarrow> bool \<Rightarrow> bytes \<Rightarrow> 'd database \<Rightarrow>
     (db_error, bytes \<times> bytes) result list option"
where
  "raw_stream_prefix R c rv p s = iter_prefix R c rv p s"

text \<open>A bound or prefix that does not serialize is a panic, here \<open>None\<close>.\<close>

definition stream_prefix ::
  "bool \<Rightarrow> ('d, 'it) rocksdb \<Rightarrow> column \<Rightarrow> bool \<Rightarrow> ser_value \<Rightarrow> 'd database \<Rightarrow>
     (db_error, bytes \<times> bytes) result list option"
where
  "stream_prefix dbg R c rv p s =
     (case serialize dbg None p of Inl _ \<Rightarrow> None | Inr k \<Rightarrow> iter_prefix R c rv k s)"

definition stream_from ::
  "bool \<Rightarrow> ('d, 'it) rocksdb \<Rightarrow> column \<Rightarrow> bool \<Rightarrow> ser_value \<Rightarrow> 'd database \<Rightarrow>
     (db_error, bytes \<times> bytes) result list option"
where
  "stream_from dbg R c rv from s =
     (case serialize dbg None from of Inl _ \<Rightarrow> None | Inr k \<Rightarrow> raw_stream_from R c rv k s)"

definition map_count :: "('d, 'it) rocksdb \<Rightarrow> column \<Rightarrow> 'd database \<Rightarrow> nat option" where
  "map_count R c s = map_option length (raw_stream R c False s)"

definition raw_count_from :: "('d, 'it) rocksdb \<Rightarrow> column \<Rightarrow> bytes \<Rightarrow> 'd database \<Rightarrow> nat option" where
  "raw_count_from R c from s = map_option length (raw_stream_from R c False from s)"

definition raw_count_prefix :: "('d, 'it) rocksdb \<Rightarrow> column \<Rightarrow> bytes \<Rightarrow> 'd database \<Rightarrow> nat option" where
  "raw_count_prefix R c p s = map_option length (raw_stream_prefix R c False p s)"

subsection \<open>Removing many keys\<close>

definition remove_keys :: "('d, 'it) rocksdb \<Rightarrow> column \<Rightarrow> bytes list \<Rightarrow> 'd database \<Rightarrow> 'd database" where
  "remove_keys R c keys s = foldl (\<lambda>s k. fst (map_remove R c k s)) s keys"

definition raw_del_prefix ::
  "('d, 'it) rocksdb \<Rightarrow> column \<Rightarrow> bytes \<Rightarrow> 'd database \<Rightarrow> 'd database option"
where
  "raw_del_prefix R c p s =
     (case cork_new False False s of (guard, s1) \<Rightarrow>
        map_option (\<lambda>xs. cork_drop R guard (remove_keys R c (ok_keys xs) s1))
          (raw_stream_prefix R c False p s1))"

definition del_prefix ::
  "bool \<Rightarrow> ('d, 'it) rocksdb \<Rightarrow> column \<Rightarrow> ser_value \<Rightarrow> 'd database \<Rightarrow> 'd database option"
where
  "del_prefix dbg R c p s =
     (case serialize dbg None p of Inl _ \<Rightarrow> None | Inr k \<Rightarrow> raw_del_prefix R c k s)"

definition map_clear :: "('d, 'it) rocksdb \<Rightarrow> column \<Rightarrow> 'd database \<Rightarrow> 'd database option" where
  "map_clear R c s = map_option (\<lambda>xs. remove_keys R c (ok_keys xs) s) (raw_stream R c False s)"

subsection \<open>Transactions\<close>

record txn =
  txn_batch :: "batch_op list"
  txn_written :: "(column \<times> bytes) list"

definition txn_new :: txn where
  "txn_new = \<lparr>txn_batch = [], txn_written = []\<rparr>"

definition txn_insert :: "column \<Rightarrow> bytes \<Rightarrow> bytes \<Rightarrow> txn \<Rightarrow> txn" where
  "txn_insert c key val t =
     t\<lparr>txn_batch := txn_batch t @ [BatchPut c key val], txn_written := txn_written t @ [(c, key)]\<rparr>"

definition txn_remove :: "column \<Rightarrow> bytes \<Rightarrow> txn \<Rightarrow> txn" where
  "txn_remove c key t =
     t\<lparr>txn_batch := txn_batch t @ [BatchDelete c key], txn_written := txn_written t @ [(c, key)]\<rparr>"

definition txn_put :: "bool \<Rightarrow> column \<Rightarrow> ser_value \<Rightarrow> ser_value \<Rightarrow> txn \<Rightarrow> (db_error, txn) result" where
  "txn_put dbg c key val t =
     (case serialize dbg None key of
        Inl e \<Rightarrow> Inl (DbCodec e)
      | Inr k \<Rightarrow>
          (case serialize dbg None val of
             Inl e \<Rightarrow> Inl (DbCodec e)
           | Inr v \<Rightarrow> Inr (txn_insert c k v t)))"

definition txn_put_raw :: "bool \<Rightarrow> column \<Rightarrow> ser_value \<Rightarrow> bytes \<Rightarrow> txn \<Rightarrow> (db_error, txn) result" where
  "txn_put_raw dbg c key val t =
     (case serialize dbg None key of
        Inl e \<Rightarrow> Inl (DbCodec e)
      | Inr k \<Rightarrow> Inr (txn_insert c k val t))"

definition txn_del :: "bool \<Rightarrow> column \<Rightarrow> ser_value \<Rightarrow> txn \<Rightarrow> (db_error, txn) result" where
  "txn_del dbg c key t =
     (case serialize dbg None key of
        Inl e \<Rightarrow> Inl (DbCodec e)
      | Inr k \<Rightarrow> Inr (txn_remove c k t))"

definition txn_execute ::
  "('d, 'it) rocksdb \<Rightarrow> txn \<Rightarrow> 'd database \<Rightarrow> 'd database \<times> (db_error, unit) result"
where
  "txn_execute R t s =
     (if txn_batch t = [] then (s, Inr ())
      else
        st_bind (engine_write (\<lambda>d. write_batch R d (txn_batch t)) s) (\<lambda>_ s.
        st_bind (flush_if_uncorked R s) (\<lambda>_ s.
          (foldl (\<lambda>s (c, k). map_wake c k s) s (txn_written t), Inr ()))))"

end
