(* ===== verification/Db_Map_Props.thy ===== *)
theory Db_Map_Props
  imports Db_Map
begin

section \<open>The database: properties\<close>

text \<open>
  The locale \<open>rocks\<close> states what the code relies on of RocksDB: \<open>contents\<close> reads a column as a map,
  \<open>ahead\<close> the entries an iterator still has in front of it in a direction. From it follows what a map
  promises to its users, the locale \<open>kv_map\<close>. An engine in memory with these laws runs the definitions on concrete databases.
\<close>

subsection \<open>What RocksDB promises\<close>

definition entries :: "(bytes \<rightharpoonup> bytes) \<Rightarrow> (bytes \<times> bytes) list" where
  "entries m = map (\<lambda>k. (k, the (m k))) (sorted_list_of_set (dom m))"

definition within :: "bytes option \<Rightarrow> bytes \<Rightarrow> bool" where
  "within upper k = (case upper of None \<Rightarrow> True | Some u \<Rightarrow> k < u)"

definition bounded :: "bytes option \<Rightarrow> (bytes \<times> bytes) list \<Rightarrow> (bytes \<times> bytes) list" where
  "bounded upper xs = filter (\<lambda>(k, _). within upper k) xs"

fun apply_op :: "(column \<Rightarrow> bytes \<rightharpoonup> bytes) \<Rightarrow> batch_op \<Rightarrow> (column \<Rightarrow> bytes \<rightharpoonup> bytes)" where
  "apply_op m (BatchPut c k v) = m(c := (m c)(k \<mapsto> v))"
| "apply_op m (BatchDelete c k) = m(c := (m c)(k := None))"

locale rocks =
  fixes R :: "('d, 'it) rocksdb"
    and contents :: "'d \<Rightarrow> column \<Rightarrow> bytes \<rightharpoonup> bytes"
    and ahead :: "bool \<Rightarrow> 'it \<Rightarrow> (bytes \<times> bytes) list"
  assumes put_law: "put_cf R d c k v = Inr d' \<Longrightarrow> contents d' = apply_op (contents d) (BatchPut c k v)"
    and delete_law: "delete_cf R d c k = Inr d' \<Longrightarrow> contents d' = apply_op (contents d) (BatchDelete c k)"
    and write_law: "write_batch R d ops = Inr d' \<Longrightarrow> contents d' = foldl apply_op (contents d) ops"
    and flush_law: "flush_wal R d sync = Inr d' \<Longrightarrow> contents d' = contents d"
    and get_law: "get_pinned R d c k = Inr found \<Longrightarrow> found = contents d c k"
    and cache_law: "get_block_cache R d c k = Inr found \<Longrightarrow> found = contents d c k"
    and finite_law: "finite (dom (contents d c))"
    and seek_law: "ahead False (it_seek R (raw_iterator R d c upper) k) =
      filter (\<lambda>(k', _). k \<le> k') (bounded upper (entries (contents d c)))"
    and seek_for_prev_law: "ahead True (it_seek_for_prev R (raw_iterator R d c upper) k) =
      rev (filter (\<lambda>(k', _). k' \<le> k) (bounded upper (entries (contents d c))))"
    and first_law: "ahead False (it_seek_to_first R (raw_iterator R d c upper)) =
      bounded upper (entries (contents d c))"
    and last_law: "ahead True (it_seek_to_last R (raw_iterator R d c upper)) =
      rev (bounded upper (entries (contents d c)))"
    and item_law: "it_item R it = (case ahead rv it of [] \<Rightarrow> None | x # _ \<Rightarrow> Some x)"
    and next_law: "ahead False (it_next R it) = tl (ahead False it)"
    and prev_law: "ahead True (it_prev R it) = tl (ahead True it)"

text \<open>No operation meets an I/O error.\<close>

definition io_ok :: "('d, 'it) rocksdb \<Rightarrow> bool" where
  "io_ok R \<longleftrightarrow>
     (\<forall>d c k v. \<exists>d'. put_cf R d c k v = Inr d') \<and> (\<forall>d c k. \<exists>d'. delete_cf R d c k = Inr d') \<and>
     (\<forall>d ops. \<exists>d'. write_batch R d ops = Inr d') \<and> (\<forall>d b. \<exists>d'. flush_wal R d b = Inr d') \<and>
     (\<forall>d c k. \<exists>v. get_pinned R d c k = Inr v) \<and> (\<forall>d c k e. get_block_cache R d c k = Inl e \<longrightarrow> is_incomplete e) \<and>
     (\<forall>it. it_status R it = None)"

lemma io_okD:
  assumes "io_ok R"
  shows "\<exists>d'. put_cf R d c k v = Inr d'" "\<exists>d'. delete_cf R d c k = Inr d'"
    "\<exists>d'. write_batch R d ops = Inr d'" "\<exists>d'. flush_wal R d b = Inr d'"
    "\<exists>found. get_pinned R d c k = Inr found"
    "get_block_cache R d c k = Inl e \<Longrightarrow> is_incomplete e"
  using assms by (simp_all add: io_ok_def)

lemma io_ok_status: "io_ok R \<Longrightarrow> it_status R it = None"
  by (simp add: io_ok_def)

subsection \<open>Prefix bounds\<close>

lemma prefix_upper_bound_Nil [simp]: "prefix_upper_bound [] = None"
  by (simp add: prefix_upper_bound_def)

lemma prefix_upper_bound_Cons:
  "prefix_upper_bound (a # p) =
     (case prefix_upper_bound p of
        Some u \<Rightarrow> Some (a # u)
      | None \<Rightarrow> if a = - 1 then None else Some [a + 1])"
proof (cases "dropWhile (\<lambda>b. b = - 1) (rev p)")
  case Nil
  then have "\<forall>x\<in>set (rev p). x = - 1" by (simp only: dropWhile_eq_Nil_conv)
  then have "dropWhile (\<lambda>b. b = - 1) (rev (a # p)) = (if a = - 1 then [] else [a])"
    by (simp add: dropWhile_append)
  then show ?thesis unfolding prefix_upper_bound_def Nil by simp
next
  case (Cons b l)
  have "\<not> (\<forall>x\<in>set (rev p). x = - 1)"
  proof
    assume "\<forall>x\<in>set (rev p). x = - 1"
    then have "dropWhile (\<lambda>b. b = - 1) (rev p) = []" by (simp only: dropWhile_eq_Nil_conv)
    then show False unfolding Cons by (rule list.distinct(2) [THEN notE])
  qed
  then have "dropWhile (\<lambda>b. b = - 1) (rev (a # p)) = b # l @ [a]"
    by (simp only: rev.simps dropWhile_append Cons if_False append_Cons)
  then show ?thesis unfolding prefix_upper_bound_def Cons by simp
qed

lemma less_succ_iff:
  assumes "a \<noteq> - 1"
  shows "(x :: u8) < a + 1 \<longleftrightarrow> x \<le> a"
proof -
  have "unat (- 1 :: u8) = 255" by (simp add: unsigned_minus_1_eq_mask mask_eq_exp_minus_1)
  then have "unat a \<noteq> 255" using assms by (metis word_unat_eq_iff)
  then have "unat a + 1 < 256" using unat_bound [of a] by simp
  then have "unat (a + 1) = unat a + 1" by (simp add: unat_word_ariths)
  then show ?thesis by (simp add: word_less_nat_alt word_le_nat_alt less_Suc_eq_le)
qed

lemma max_not_less: "\<not> (- 1 :: u8) < x"
  by (simp add: not_less)

lemma prefix_range_iff: "prefix p k \<longleftrightarrow> p \<le> k \<and> within (prefix_upper_bound p) k"
proof (induction p arbitrary: k)
  case Nil
  then show ?case by (simp add: within_def)
next
  case (Cons a p)
  note IH = Cons.IH
  show ?case
  proof (cases k)
    case Nil
    then show ?thesis by simp
  next
    case k: (Cons x k')
    have le: "a # p \<le> x # k' \<longleftrightarrow> a < x \<or> a = x \<and> p \<le> k'" by (rule Cons_le_Cons)
    show ?thesis
    proof (cases "prefix_upper_bound p")
      case None
      then have pre: "prefix (a # p) (x # k') \<longleftrightarrow> a = x \<and> p \<le> k'" using IH [of k'] by (simp add: within_def)
      have "within (prefix_upper_bound (a # p)) (x # k') \<longleftrightarrow> a = - 1 \<or> x \<le> a"
        using less_succ_iff [of a x] by (simp add: prefix_upper_bound_Cons None within_def)
      then show ?thesis
        unfolding k pre le using max_not_less [of x] by fastforce
    next
      case (Some u)
      then have pre: "prefix (a # p) (x # k') \<longleftrightarrow> a = x \<and> p \<le> k' \<and> k' < u"
        using IH [of k'] by (simp add: within_def)
      have "within (prefix_upper_bound (a # p)) (x # k') \<longleftrightarrow> x < a \<or> x = a \<and> k' < u"
        by (simp add: prefix_upper_bound_Cons Some within_def)
      then show ?thesis
        unfolding k pre le by fastforce
    qed
  qed
qed

lemma sorted_entries: "sorted_wrt (\<lambda>x y. fst x < fst y) (entries m)"
proof -
  have "sorted_wrt (<) (sorted_list_of_set (dom m))" by (rule strict_sorted_list_of_set)
  then show ?thesis by (simp add: entries_def sorted_wrt_map)
qed

lemma set_entries:
  assumes "finite (dom m)"
  shows "(k, v) \<in> set (entries m) \<longleftrightarrow> m k = Some v"
proof -
  have "k \<in> set (sorted_list_of_set (dom m)) \<longleftrightarrow> k \<in> dom m" using assms by simp
  then show ?thesis by (auto simp: entries_def domIff)
qed

lemma takeWhile_eq_filter:
  "sorted_wrt (\<lambda>x y. P y \<longrightarrow> P x) xs \<Longrightarrow> takeWhile P xs = filter P xs"
  by (induction xs) (auto simp: filter_empty_conv)

lemma try_take_while_Inr: "try_take_while P (map Inr xs) = map Inr (takeWhile P xs)"
  by (induction xs) simp_all

text \<open>What a scan under a prefix must return: the entries whose key has it, in order.\<close>

definition under :: "bytes \<Rightarrow> (bytes \<rightharpoonup> bytes) \<Rightarrow> (bytes \<times> bytes) list" where
  "under p m = filter (\<lambda>(k, _). prefix p k) (entries m)"

lemma forward_scan:
  "filter (\<lambda>(k, _). p \<le> k) (bounded (prefix_upper_bound p) (entries m)) = under p m"
  unfolding bounded_def under_def filter_filter
  by (rule filter_cong) (auto simp: prefix_range_iff)

lemma backward_scan:
  "takeWhile (\<lambda>(k, _). prefix p k) (rev (bounded (prefix_upper_bound p) (entries m))) = rev (under p m)"
proof -
  let ?xs = "bounded (prefix_upper_bound p) (entries m)"
  let ?P = "\<lambda>(k, _ :: bytes). prefix p k"
  have "sorted_wrt (\<lambda>x y. fst x < fst y) ?xs"
    unfolding bounded_def by (rule sorted_wrt_filter) (rule sorted_entries)
  moreover have "?P x \<longrightarrow> ?P y" if "x \<in> set ?xs" "y \<in> set ?xs" "fst x < fst y" for x y
    using that by (cases x; cases y) (auto simp: bounded_def prefix_range_iff)
  ultimately have "sorted_wrt (\<lambda>x y. ?P x \<longrightarrow> ?P y) ?xs"
    by (rule sorted_wrt_mono_rel [rotated])
  then have "takeWhile ?P (rev ?xs) = filter ?P (rev ?xs)"
    by (intro takeWhile_eq_filter) (simp add: sorted_wrt_rev)
  also have "\<dots> = rev (filter ?P ?xs)" by (simp add: rev_filter)
  also have "filter ?P ?xs = under p m"
    unfolding bounded_def under_def filter_filter
    by (rule filter_cong) (auto simp: prefix_range_iff)
  finally show ?thesis .
qed

context rocks
begin

lemma cursor_stream_ahead:
  assumes "\<forall>it. it_status R it = None" and "ahead rv (cur_inner (cursor_step R rv st)) = xs"
  shows "cursor_stream R rv st = Some (map Inr xs)"
  using assms(2)
proof (induction xs arbitrary: st)
  case Nil
  then have "it_item R (cur_inner (cursor_step R rv st)) = None"
    using item_law [of _ rv] by simp
  then show ?case
    using assms(1) by (simp add: cursor_stream.simps [of R rv st] cursor_get_def Let_def)
next
  case (Cons x xs)
  let ?st = "cursor_step R rv st"
  have item: "it_item R (cur_inner ?st) = Some x"
    using item_law [of _ rv] Cons.prems by simp
  have "\<not> cur_init ?st" by (simp add: cursor_step_def)
  then have "ahead rv (cur_inner (cursor_step R rv ?st)) = xs"
    unfolding cursor_step_def [of R rv ?st] using Cons.prems by (cases rv) (simp_all add: next_law prev_law)
  then have "cursor_stream R rv ?st = Some (map Inr xs)" by (rule Cons.IH)
  then show ?case
    by (simp add: cursor_stream.simps [of R rv st] cursor_get_def item Let_def)
qed

lemma iter_bounded_ahead:
  assumes "\<forall>it. it_status R it = None"
    and "ahead rv (cur_inner (cursor_init R rv from (cursor_new R c upper s))) = xs"
  shows "iter_bounded R c rv from upper s = Some (map Inr xs)"
  unfolding iter_bounded_def
  by (rule cursor_stream_ahead [OF assms(1)])
    (use assms(2) in \<open>simp add: cursor_step_def cursor_init_def cursor_new_def\<close>)

lemma iter_prefix_exact:
  assumes "\<forall>it. it_status R it = None"
  shows "iter_prefix R c rv p s =
    Some (map Inr (if rv then rev (under p (contents (eng_db s) c)) else under p (contents (eng_db s) c)))"
proof (cases rv)
  case True
  have "iter_bounded R c True None (prefix_upper_bound p) s =
      Some (map Inr (rev (bounded (prefix_upper_bound p) (entries (contents (eng_db s) c)))))"
    by (rule iter_bounded_ahead [OF assms]) (simp add: cursor_init_def cursor_new_def last_law)
  then show ?thesis
    using True by (simp add: iter_prefix_def try_take_while_Inr backward_scan)
next
  case False
  have "iter_bounded R c False (Some p) (prefix_upper_bound p) s =
      Some (map Inr (under p (contents (eng_db s) c)))"
    by (rule iter_bounded_ahead [OF assms])
      (simp add: cursor_init_def cursor_new_def seek_law forward_scan)
  moreover have "takeWhile (\<lambda>(k, _). prefix p k) (under p m) = under p m" for m
    unfolding under_def by (simp add: takeWhile_eq_all_conv split_beta)
  ultimately show ?thesis
    using False by (simp add: iter_prefix_def try_take_while_Inr)
qed

end

subsection \<open>Watchers\<close>

lemma watchers_triggered_iff:
  "p \<in> set (watchers_triggered key ws) \<and> p \<in> set ws \<longleftrightarrow> p \<in> set ws \<and> prefix p key"
proof -
  have "p \<in> (\<lambda>len. take len key) ` {0..<Suc (length key)} \<longleftrightarrow> prefix p key"
  proof
    assume "prefix p key"
    then have "p = take (length p) key" "length p < Suc (length key)"
      by (auto simp: prefix_def)
    then show "p \<in> (\<lambda>len. take len key) ` {0..<Suc (length key)}" by (intro image_eqI) auto
  qed (auto simp: take_is_prefix)
  then show ?thesis by (auto simp: watchers_triggered_def simp del: upt_Suc)
qed

lemma watchers_wake_iff:
  assumes "watchers_wake key ws = (fired, left)"
  shows "p \<in> set fired \<longleftrightarrow> p \<in> set ws \<and> prefix p key"
    and "left = filter (\<lambda>p. \<not> prefix p key) ws"
proof -
  show "p \<in> set fired \<longleftrightarrow> p \<in> set ws \<and> prefix p key"
    using assms watchers_triggered_iff [of p key ws] by (auto simp: watchers_wake_def Let_def split: if_splits)
  have "filter (\<lambda>p. p \<notin> set (watchers_triggered key ws)) ws = filter (\<lambda>p. \<not> prefix p key) ws"
    by (rule filter_cong) (use watchers_triggered_iff [of _ key ws] in auto)
  then show "left = filter (\<lambda>p. \<not> prefix p key) ws"
    using assms by (auto simp: watchers_wake_def Let_def split: if_splits)
qed

lemma distinct_take_upt: "distinct (map (\<lambda>len. take len key) [0..<Suc (length key)])"
  unfolding distinct_map
proof
  show "inj_on (\<lambda>len. take len key) (set [0..<Suc (length key)])"
    by (rule inj_on_inverseI [of _ length]) auto
qed simp

text \<open>
  C23: A write wakes whom it should: of the registered prefixes exactly those the written key starts with
  fire, each once, and are forgotten, the others stay registered; which of the two lookup strategies
  is taken, by the number of watchers, makes no difference.
\<close>

theorem watchers_wake_exact:
  assumes "distinct ws"
  shows "case watchers_wake key ws of (fired, left) \<Rightarrow>
    distinct fired \<and> set fired = {p \<in> set ws. prefix p key} \<and>
    left = filter (\<lambda>p. \<not> prefix p key) ws"
proof -
  obtain fired left where wake: "watchers_wake key ws = (fired, left)" by (cases "watchers_wake key ws")
  have "distinct (watchers_triggered key ws)"
    using assms distinct_take_upt [of key] by (simp add: watchers_triggered_def distinct_filter del: upt_Suc)
  then have "distinct fired"
    using wake by (auto simp: watchers_wake_def Let_def split: if_splits)
  with watchers_wake_iff [OF wake] wake show ?thesis by auto
qed

theorem watchers_wake_exact_witness:
  "fst (watchers_wake [1, 2] [[1], [3], [], [2]]) = [[], [1]] \<and>
   set (fst (watchers_wake [1, 2] [[1], [3], [], [2]])) = {p \<in> set [[1], [3], [], [2]]. prefix p [1, 2]}"
proof
  show "fst (watchers_wake [1, 2] [[1], [3], [], [2]]) = [[], [1]]" by code_simp
  show "set (fst (watchers_wake [1, 2] [[1], [3], [], [2]])) = {p \<in> set [[1], [3], [], [2]]. prefix p [1, 2]}"
    using watchers_wake_exact [of "[[1], [3], [], [2]]" "[1, 2]"] by (simp add: split_beta)
qed

lemma map_wake_eng_db [simp]:
  "eng_db (map_wake c k s) = eng_db s" "corks (map_wake c k s) = corks s"
  by (auto simp: map_wake_def split: prod.split)

lemma set_watchers_wake:
  "set (watchers (map_wake c k s) c') = {p \<in> set (watchers s c'). c' = c \<longrightarrow> \<not> prefix p k}"
  "set (woken (map_wake c k s)) = set (woken s) \<union> {(c, p) | p. p \<in> set (watchers s c) \<and> prefix p k}"
proof -
  obtain fired left where wake: "watchers_wake k (watchers s c) = (fired, left)"
    by (cases "watchers_wake k (watchers s c)")
  show "set (watchers (map_wake c k s) c') = {p \<in> set (watchers s c'). c' = c \<longrightarrow> \<not> prefix p k}"
    using watchers_wake_iff(2) [OF wake] by (auto simp: map_wake_def wake)
  show "set (woken (map_wake c k s)) = set (woken s) \<union> {(c, p) | p. p \<in> set (watchers s c) \<and> prefix p k}"
    using watchers_wake_iff(1) [OF wake] by (auto simp: map_wake_def wake)
qed

lemma wake_all:
  fixes s :: "'d database"
  defines "wake \<equiv> foldl (\<lambda>s (c, k). map_wake c k s)"
  shows "eng_db (wake s written) = eng_db s" "corks (wake s written) = corks s"
    and "set (watchers (wake s written) c) = {p \<in> set (watchers s c). \<forall>k. (c, k) \<in> set written \<longrightarrow> \<not> prefix p k}"
    and "set (woken (wake s written)) = set (woken s) \<union>
      {(c, p). p \<in> set (watchers s c) \<and> (\<exists>k. (c, k) \<in> set written \<and> prefix p k)}"
  unfolding wake_def
proof (induction written arbitrary: s)
  case (Cons x written)
  obtain c0 k0 where x: "x = (c0, k0)" by (cases x)
  {
    case 1 then show ?case using Cons(1) by (simp add: x)
  next
    case 2 then show ?case using Cons(2) by (simp add: x)
  next
    case 3 then show ?case using Cons(3) [of "map_wake c0 k0 s"] by (auto simp: x set_watchers_wake)
  next
    case 4 then show ?case using Cons(4) [of "map_wake c0 k0 s"] by (auto simp: x set_watchers_wake)
  }
qed simp_all

subsection \<open>Writes\<close>

context rocks
begin

abbreviation table :: "'d database \<Rightarrow> column \<Rightarrow> bytes \<rightharpoonup> bytes" where
  "table s \<equiv> contents (eng_db s)"

lemma flush_keeps:
  assumes "flush_if_uncorked R s = (s', r)"
  shows "table s' = table s" "corks s' = corks s" "watchers s' = watchers s" "woken s' = woken s"
  using assms flush_law
  by (auto simp: flush_if_uncorked_def engine_flush_def engine_write_def split: if_splits sum.splits)

lemma engine_write_cases:
  assumes "engine_write f s = (s', r)"
  shows "(\<exists>e. r = Inl e \<and> s' = s) \<or> (\<exists>d. r = Inr () \<and> f (eng_db s) = Inr d \<and> s' = s\<lparr>eng_db := d\<rparr>)"
  using assms by (auto simp: engine_write_def split: sum.splits)

lemma map_insert_cases:
  assumes "map_insert R c key val s = (s', r)"
  shows "(\<exists>e. r = Inl e \<and> table s' \<in> {table s, apply_op (table s) (BatchPut c key val)} \<and>
        watchers s' = watchers s \<and> woken s' = woken s) \<or>
    (r = Inr () \<and> table s' = apply_op (table s) (BatchPut c key val) \<and>
      set (watchers s' c) = {p \<in> set (watchers s c). \<not> prefix p key} \<and>
      set (woken s') = set (woken s) \<union> {(c, p) | p. p \<in> set (watchers s c) \<and> prefix p key})"
proof -
  obtain s1 r1 where w: "engine_write (\<lambda>d. put_cf R d c key val) s = (s1, r1)"
    by (cases "engine_write (\<lambda>d. put_cf R d c key val) s")
  from engine_write_cases [OF w] show ?thesis
  proof
    assume "\<exists>e. r1 = Inl e \<and> s1 = s"
    then show ?thesis using assms w by (auto simp: map_insert_def)
  next
    assume "\<exists>d. r1 = Inr () \<and> put_cf R (eng_db s) c key val = Inr d \<and> s1 = s\<lparr>eng_db := d\<rparr>"
    then have s1: "r1 = Inr ()" "table s1 = apply_op (table s) (BatchPut c key val)"
        "watchers s1 = watchers s" "woken s1 = woken s"
      using put_law by (auto simp del: apply_op.simps)
    obtain s2 r2 where fl: "flush_if_uncorked R s1 = (s2, r2)"
      by (cases "flush_if_uncorked R s1")
    note s2 = flush_keeps [OF fl]
    show ?thesis
      using assms w s1 s2 fl
      by (cases r2) (auto simp: map_insert_def set_watchers_wake simp del: apply_op.simps)
  qed
qed

lemma map_remove_ok:
  assumes "io_ok R"
  shows "\<exists>s'. map_remove R c key s = (s', Inr ()) \<and> table s' = apply_op (table s) (BatchDelete c key) \<and>
    corks s' = corks s \<and> watchers s' = watchers s \<and> woken s' = woken s"
proof -
  obtain d where d: "delete_cf R (eng_db s) c key = Inr d" using io_okD(2) [OF assms] by blast
  let ?s1 = "s\<lparr>eng_db := d\<rparr>"
  obtain d2 where d2: "flush_wal R d False = Inr d2" using io_okD(4) [OF assms] by blast
  have "\<exists>s2. flush_if_uncorked R ?s1 = (s2, Inr ())"
    using d2 by (simp add: flush_if_uncorked_def engine_flush_def engine_write_def engine_corked_def)
  then obtain s2 where fl: "flush_if_uncorked R ?s1 = (s2, Inr ())" by blast
  show ?thesis
    using flush_keeps [OF fl] fl delete_law [OF d]
    by (simp add: map_remove_def engine_write_def d del: apply_op.simps)
qed

lemma remove_keys_ok:
  assumes "io_ok R"
  shows "table (remove_keys R c keys s) = (table s)(c := table s c |` (- set keys)) \<and>
    corks (remove_keys R c keys s) = corks s \<and> watchers (remove_keys R c keys s) = watchers s \<and>
    woken (remove_keys R c keys s) = woken s"
proof (induction keys arbitrary: s)
  case Nil
  then show ?case by (simp add: remove_keys_def restrict_map_def)
next
  case (Cons k keys)
  obtain s1 where s1: "map_remove R c k s = (s1, Inr ())" "table s1 = apply_op (table s) (BatchDelete c k)"
      "corks s1 = corks s" "watchers s1 = watchers s" "woken s1 = woken s"
    using map_remove_ok [OF assms] by blast
  have "remove_keys R c (k # keys) s = remove_keys R c keys s1"
    by (simp add: remove_keys_def s1(1))
  then show ?case
    using Cons.IH [of s1] s1(2-) by (auto simp: restrict_map_def fun_eq_iff)
qed

lemma keys_under:
  "map fst (under p (contents d c)) = filter (prefix p) (sorted_list_of_set (dom (contents d c)))"
  by (simp add: under_def entries_def filter_map o_def)

lemma raw_del_prefix_ok:
  assumes "io_ok R"
  shows "\<exists>s'. raw_del_prefix R c p s = Some s' \<and> corks s' = corks s \<and>
    table s' = (table s)(c := table s c |` {k. \<not> prefix p k})"
proof -
  have status: "\<forall>it. it_status R it = None" using io_ok_status [OF assms] by blast
  let ?s1 = "engine_cork s"
  let ?keys = "map fst (under p (table s c))"
  have "raw_stream_prefix R c False p ?s1 = Some (map Inr (under p (table s c)))"
    by (simp add: raw_stream_prefix_def iter_prefix_exact [OF status] engine_cork_def)
  moreover have "ok_keys (map Inr (under p (table s c)) :: (db_error, bytes \<times> bytes) result list) = ?keys"
    by (simp add: ok_keys_def map_filter_def comp_def split_beta)
  moreover have "set ?keys = {k \<in> dom (table s c). prefix p k}"
    using finite_law by (auto simp: keys_under)
  ultimately show ?thesis
    using remove_keys_ok [OF assms, of c ?keys ?s1]
    by (auto simp: raw_del_prefix_def cork_new_def cork_drop_def engine_uncork_def engine_cork_def
        restrict_map_def fun_eq_iff)
qed

end

subsection \<open>What a map promises to its users\<close>

locale kv_map =
  fixes insert :: "column \<Rightarrow> bytes \<Rightarrow> bytes \<Rightarrow> 's \<Rightarrow> 's \<times> (db_error, unit) result"
    and get :: "column \<Rightarrow> bytes \<Rightarrow> 's \<Rightarrow> (db_error, bytes) result"
    and stored :: "'s \<Rightarrow> column \<Rightarrow> bytes \<rightharpoonup> bytes"
  assumes insert_ok: "insert c k v s = (s', Inr ()) \<Longrightarrow> stored s' = (stored s)(c := (stored s c)(k \<mapsto> v))"
    and insert_err: "insert c k v s = (s', Inl e) \<Longrightarrow>
      stored s' = stored s \<or> stored s' = (stored s)(c := (stored s c)(k \<mapsto> v))"
    and get_found: "get c k s = Inr v \<Longrightarrow> stored s c k = Some v"
    and get_missing: "get c k s = Inl DbNotFound \<Longrightarrow> stored s c k = None"
begin

lemma insert_other:
  assumes "insert c k v s = (s', r)" and "(c', k') \<noteq> (c, k)"
  shows "stored s' c' k' = stored s c' k'"
  using assms insert_ok [of c k v s s'] insert_err [of c k v s s'] by (cases r) (auto split: if_splits)

lemma read_your_write:
  assumes "insert c k v s = (s', Inr ())" and "get c k s' = Inr w"
  shows "w = v"
  using insert_ok [OF assms(1)] get_found [OF assms(2)] by simp

lemma insert_keeps:
  assumes "insert c k v s = (s', r)" and "stored s c' k' = Some w" and "(c', k') = (c, k) \<longrightarrow> w = v"
  shows "stored s' c' k' = Some w"
  using assms insert_other [OF assms(1), of c' k'] insert_ok [of c k v s s'] insert_err [of c k v s s']
  by (cases "(c', k') = (c, k)"; cases r) auto

end

context rocks
begin

lemma map_get_found: "map_get R c k s = Inr v \<Longrightarrow> contents (eng_db s) c k = Some v"
  using get_law [of "eng_db s" c k] cache_law [of "eng_db s" c k]
  by (auto simp: map_get_def map_get_cached_def cached_handle_from_def map_get_blocking_def handle_from_def
      split: sum.splits option.splits if_splits)

lemma map_get_missing: "map_get R c k s = Inl DbNotFound \<Longrightarrow> contents (eng_db s) c k = None"
  using get_law [of "eng_db s" c k] cache_law [of "eng_db s" c k]
  by (auto simp: map_get_def map_get_cached_def cached_handle_from_def map_get_blocking_def handle_from_def
      map_err_def ok_or_Inl_iff split: sum.splits option.splits if_splits)

lemma map_get_ok:
  assumes "io_ok R"
  shows "map_get R c k s = ok_or DbNotFound (contents (eng_db s) c k)"
proof -
  obtain v where v: "get_pinned R (eng_db s) c k = Inr v" using io_okD(5) [OF assms] by blast
  show ?thesis
    using get_law [OF v] cache_law [of "eng_db s" c k] io_okD(6) [OF assms, of "eng_db s" c k] v
    by (cases "get_block_cache R (eng_db s) c k"; cases v)
      (auto simp: map_get_def map_get_cached_def cached_handle_from_def map_get_blocking_def handle_from_def
        split: option.splits)
qed

lemma map_insert_ok:
  assumes "io_ok R"
  shows "\<exists>s'. map_insert R c key val s = (s', Inr ())"
proof -
  obtain d where d: "put_cf R (eng_db s) c key val = Inr d" using io_okD(1) [OF assms] by blast
  obtain d2 where d2: "flush_wal R d False = Inr d2" using io_okD(4) [OF assms] by blast
  show ?thesis
    by (simp add: map_insert_def engine_write_def d flush_if_uncorked_def engine_flush_def d2)
qed

end

sublocale rocks \<subseteq> kv: kv_map "map_insert R" "map_get R" "\<lambda>s. contents (eng_db s)"
proof
  fix c k v s s' e
  show "map_insert R c k v s = (s', Inr ()) \<Longrightarrow>
      contents (eng_db s') = (contents (eng_db s))(c := (contents (eng_db s) c)(k \<mapsto> v))"
    using map_insert_cases [of c k v s s' "Inr ()"] by simp
  show "map_insert R c k v s = (s', Inl e) \<Longrightarrow> contents (eng_db s') = contents (eng_db s) \<or>
      contents (eng_db s') = (contents (eng_db s))(c := (contents (eng_db s) c)(k \<mapsto> v))"
    using map_insert_cases [of c k v s s' "Inl e"] by simp
qed (rule map_get_found map_get_missing; assumption)+

subsection \<open>A store in memory\<close>

text \<open>
  The smallest engine with these laws: an association list per database and iterators that are a
  position in a sorted list. It is what concrete runs use.
\<close>

type_synonym mem_db = "((column \<times> bytes) \<times> bytes) list"
type_synonym mem_it = "(bytes \<times> bytes) list \<times> nat option"

definition mem_keys :: "mem_db \<Rightarrow> column \<Rightarrow> bytes list" where
  "mem_keys d c = sort (remdups (map (snd \<circ> fst) (filter (\<lambda>x. fst (fst x) = c) d)))"

definition mem_entries :: "mem_db \<Rightarrow> column \<Rightarrow> (bytes \<times> bytes) list" where
  "mem_entries d c = map (\<lambda>k. (k, the (map_of d (c, k)))) (mem_keys d c)"

fun mem_op :: "mem_db \<Rightarrow> batch_op \<Rightarrow> mem_db" where
  "mem_op d (BatchPut c k v) = ((c, k), v) # filter (\<lambda>x. fst x \<noteq> (c, k)) d"
| "mem_op d (BatchDelete c k) = filter (\<lambda>x. fst x \<noteq> (c, k)) d"

fun mem_item :: "mem_it \<Rightarrow> (bytes \<times> bytes) option" where
  "mem_item (xs, Some i) = (if i < length xs then Some (xs ! i) else None)"
| "mem_item (xs, None) = None"

fun mem_next :: "mem_it \<Rightarrow> mem_it" where
  "mem_next (xs, Some i) = (xs, if Suc i < length xs then Some (Suc i) else None)"
| "mem_next (xs, None) = (xs, None)"

fun mem_prev :: "mem_it \<Rightarrow> mem_it" where
  "mem_prev (xs, Some (Suc i)) = (xs, if Suc i < length xs then Some i else None)"
| "mem_prev (xs, _) = (xs, None)"

definition mem_at :: "(bytes \<times> bytes) list \<Rightarrow> nat \<Rightarrow> mem_it" where
  "mem_at xs n = (xs, if n < length xs then Some n else None)"

definition mem_rocks :: "(mem_db, mem_it) rocksdb" where
  "mem_rocks =
     \<lparr>put_cf = (\<lambda>d c k v. Inr (mem_op d (BatchPut c k v))),
      delete_cf = (\<lambda>d c k. Inr (mem_op d (BatchDelete c k))),
      write_batch = (\<lambda>d ops. Inr (foldl mem_op d ops)),
      flush_wal = (\<lambda>d _. Inr d),
      get_pinned = (\<lambda>d c k. Inr (map_of d (c, k))),
      get_block_cache = (\<lambda>d c k. Inl \<lparr>re_kind = KIncomplete, re_text = []\<rparr>),
      raw_iterator = (\<lambda>d c upper. (bounded upper (mem_entries d c), None)),
      it_seek = (\<lambda>(xs, _) k. mem_at xs (length (takeWhile (\<lambda>(k', _). k' < k) xs))),
      it_seek_for_prev = (\<lambda>(xs, _) k.
        case length (takeWhile (\<lambda>(k', _). k' \<le> k) xs) of 0 \<Rightarrow> (xs, None) | Suc n \<Rightarrow> mem_at xs n),
      it_seek_to_first = (\<lambda>(xs, _). mem_at xs 0),
      it_seek_to_last = (\<lambda>(xs, _). case length xs of 0 \<Rightarrow> (xs, None) | Suc n \<Rightarrow> mem_at xs n),
      it_next = mem_next, it_prev = mem_prev, it_item = mem_item, it_status = (\<lambda>_. None)\<rparr>"

definition mem_contents :: "mem_db \<Rightarrow> column \<Rightarrow> bytes \<rightharpoonup> bytes" where
  "mem_contents d c k = map_of d (c, k)"

fun mem_ahead :: "bool \<Rightarrow> mem_it \<Rightarrow> (bytes \<times> bytes) list" where
  "mem_ahead rv (xs, Some i) =
     (if i < length xs then if rv then rev (take (Suc i) xs) else drop i xs else [])"
| "mem_ahead rv (xs, None) = []"

lemma mem_io_ok: "io_ok mem_rocks"
  by (simp add: io_ok_def mem_rocks_def is_incomplete_def)

lemma mem_op_contents: "mem_contents (mem_op d op) = apply_op (mem_contents d) op"
proof -
  have "map_of (filter (\<lambda>x. fst x \<noteq> a) d) b = (if b = a then None else map_of d b)" for a b
    by (induction d) auto
  then show ?thesis by (cases op) (auto simp: mem_contents_def fun_eq_iff)
qed

lemma mem_ops_contents: "mem_contents (foldl mem_op d ops) = foldl apply_op (mem_contents d) ops"
  by (induction ops arbitrary: d) (simp_all add: mem_op_contents)

lemma mem_entries_eq: "mem_entries d c = entries (mem_contents d c)"
proof -
  have "dom (mem_contents d c) = set (map (snd \<circ> fst) (filter (\<lambda>x. fst (fst x) = c) d))"
    by (induction d) (force simp: mem_contents_def dom_def)+
  then have "sorted_list_of_set (dom (mem_contents d c)) = mem_keys d c"
    by (simp only: mem_keys_def sorted_list_of_set_sort_remdups)
  then show ?thesis by (simp add: mem_entries_def entries_def mem_contents_def)
qed

lemma finite_mem_contents: "finite (dom (mem_contents d c))"
  by (rule finite_subset [of _ "(snd \<circ> fst) ` set d"])
    (force simp: mem_contents_def dest: map_of_SomeD)+

lemma sorted_bounded: "sorted_wrt (\<lambda>x y. fst x < fst y) (bounded upper (entries m))"
  unfolding bounded_def by (rule sorted_wrt_filter) (rule sorted_entries)

lemma drop_takeWhile_less:
  "sorted_wrt (\<lambda>x y. fst x < fst y) xs \<Longrightarrow>
     drop (length (takeWhile (\<lambda>(k', _). k' < k) xs)) xs = filter (\<lambda>(k', _ :: 'b). (k :: 'a::linorder) \<le> k') xs"
  by (induction xs) (auto simp: not_less intro!: filter_True [symmetric])

lemma takeWhile_le:
  "sorted_wrt (\<lambda>x y. fst x < fst y) xs \<Longrightarrow>
     takeWhile (\<lambda>(k', _). k' \<le> k) xs = filter (\<lambda>(k', _ :: 'b). k' \<le> (k :: 'a::linorder)) xs"
  by (rule takeWhile_eq_filter) (auto elim!: sorted_wrt_mono_rel [rotated])

lemma mem_ahead_at:
  "mem_ahead False (mem_at xs n) = drop n xs"
  "n < length xs \<Longrightarrow> mem_ahead True (mem_at xs n) = rev (take (Suc n) xs)"
  by (simp_all add: mem_at_def)

interpretation mem: rocks mem_rocks mem_contents mem_ahead
proof
  fix d c k v d' ops sync upper rv and it :: mem_it and found
  show "put_cf mem_rocks d c k v = Inr d' \<Longrightarrow> mem_contents d' = apply_op (mem_contents d) (BatchPut c k v)"
    by (auto simp: mem_rocks_def mem_op_contents simp del: mem_op.simps apply_op.simps)
  show "delete_cf mem_rocks d c k = Inr d' \<Longrightarrow> mem_contents d' = apply_op (mem_contents d) (BatchDelete c k)"
    by (auto simp: mem_rocks_def mem_op_contents simp del: mem_op.simps apply_op.simps)
  show "write_batch mem_rocks d ops = Inr d' \<Longrightarrow> mem_contents d' = foldl apply_op (mem_contents d) ops"
    by (auto simp: mem_rocks_def mem_ops_contents)
  show "flush_wal mem_rocks d sync = Inr d' \<Longrightarrow> mem_contents d' = mem_contents d"
    "get_pinned mem_rocks d c k = Inr found \<Longrightarrow> found = mem_contents d c k"
    "get_block_cache mem_rocks d c k = Inr found \<Longrightarrow> found = mem_contents d c k"
    by (simp_all add: mem_rocks_def mem_contents_def)
  show "finite (dom (mem_contents d c))" by (rule finite_mem_contents)
  let ?xs = "bounded upper (entries (mem_contents d c))"
  have it: "raw_iterator mem_rocks d c upper = (?xs, None)"
    by (simp add: mem_rocks_def mem_entries_eq)
  show "mem_ahead False (it_seek mem_rocks (raw_iterator mem_rocks d c upper) k) =
      filter (\<lambda>(k', _). k \<le> k') ?xs"
    unfolding it by (simp add: mem_rocks_def mem_ahead_at drop_takeWhile_less sorted_bounded)
  show "mem_ahead True (it_seek_for_prev mem_rocks (raw_iterator mem_rocks d c upper) k) =
      rev (filter (\<lambda>(k', _). k' \<le> k) ?xs)"
  proof (cases "length (takeWhile (\<lambda>(k', _). k' \<le> k) ?xs)")
    case 0
    then show ?thesis
      unfolding it using takeWhile_le [OF sorted_bounded, of k upper "mem_contents d c"]
      by (simp add: mem_rocks_def)
  next
    case (Suc n)
    moreover have "n < length ?xs"
      using Suc length_takeWhile_le [of "\<lambda>(k', _). k' \<le> k" ?xs] by simp
    moreover have "take (Suc n) ?xs = takeWhile (\<lambda>(k', _). k' \<le> k) ?xs"
      using takeWhile_eq_take [of "\<lambda>(k', _). k' \<le> k" ?xs] Suc by simp
    ultimately show ?thesis
      unfolding it by (simp add: mem_rocks_def mem_ahead_at takeWhile_le [OF sorted_bounded])
  qed
  show "mem_ahead False (it_seek_to_first mem_rocks (raw_iterator mem_rocks d c upper)) = ?xs"
    unfolding it by (simp add: mem_rocks_def mem_ahead_at)
  show "mem_ahead True (it_seek_to_last mem_rocks (raw_iterator mem_rocks d c upper)) = rev ?xs"
    unfolding it by (cases "length ?xs") (simp_all add: mem_rocks_def mem_ahead_at)
  obtain ys pos where y: "it = (ys, pos)" by (cases it)
  show "it_item mem_rocks it = (case mem_ahead rv it of [] \<Rightarrow> None | x # _ \<Rightarrow> Some x)"
    by (cases pos) (auto simp: y mem_rocks_def Cons_nth_drop_Suc [symmetric] take_Suc_conv_app_nth)
  show "mem_ahead False (it_next mem_rocks it) = tl (mem_ahead False it)"
    by (cases pos) (auto simp: y mem_rocks_def tl_drop drop_Suc)
  show "mem_ahead True (it_prev mem_rocks it) = tl (mem_ahead True it)"
    by (cases pos; cases "the pos") (auto simp: y mem_rocks_def take_Suc_conv_app_nth)
qed

definition sample_db :: "mem_db database" where
  "sample_db = \<lparr>eng_db = [((''a'', [1, 255, 2]), [7]), ((''a'', [1]), [8]), ((''a'', [1, 255]), [9]),
     ((''a'', [2]), [6]), ((''b'', [1, 255]), [5])],
     corks = 0, watchers = (\<lambda>c. if c = ''a'' then [[1], [3]] else []), woken = []\<rparr>"

fun op_key :: "batch_op \<Rightarrow> column \<times> bytes" where
  "op_key (BatchPut c k v) = (c, k)"
| "op_key (BatchDelete c k) = (c, k)"

text \<open>The list of written keys is that of the batch.\<close>

definition txn_in_step :: "txn \<Rightarrow> bool" where
  "txn_in_step t \<longleftrightarrow> map op_key (txn_batch t) = txn_written t"

subsection \<open>Properties of maps and transactions\<close>

text \<open>
  C19: A scan under a prefix, in either direction, ends and yields exactly the entries whose key starts with
  the prefix, in key order or its reverse: the upper bound computed from the prefix, with its trailing
  maximal bytes dropped, neither cuts off a key of the range nor leaves the reverse scan starting
  outside it.
\<close>

theorem prefix_scan_exact:
  assumes "rocks R contents ahead" and "io_ok R"
  shows "\<exists>kvs. raw_stream_prefix R c rv p s = Some (map Inr kvs) \<and>
    sorted_wrt (\<lambda>x y. if rv then fst y < fst x else fst x < fst y) kvs \<and>
    set kvs = {(k, v). contents (eng_db s) c k = Some v \<and> prefix p k}"
proof -
  let ?m = "contents (eng_db s) c"
  have "raw_stream_prefix R c rv p s = Some (map Inr (if rv then rev (under p ?m) else under p ?m))"
    unfolding raw_stream_prefix_def
    by (rule rocks.iter_prefix_exact [OF assms(1)]) (simp add: io_ok_status [OF assms(2)])
  moreover have "sorted_wrt (\<lambda>x y. fst x < fst y) (under p ?m)"
    unfolding under_def by (rule sorted_wrt_filter) (rule sorted_entries)
  moreover have "set (under p ?m) = {(k, v). ?m k = Some v \<and> prefix p k}"
    using set_entries [OF rocks.finite_law [OF assms(1)]] by (auto simp: under_def)
  ultimately show ?thesis by (cases rv) (auto simp: sorted_wrt_rev)
qed

theorem prefix_scan_exact_witness:
  "\<exists>kvs. raw_stream_prefix mem_rocks ''a'' True [1, 255] sample_db = Some (map Inr kvs) \<and>
    sorted_wrt (\<lambda>x y. fst y < fst x) kvs \<and>
    set kvs = {(k, v). mem_contents (eng_db sample_db) ''a'' k = Some v \<and> prefix [1, 255] k}"
  using prefix_scan_exact [OF mem.rocks_axioms mem_io_ok, of "''a''" True "[1, 255]" sample_db] by simp

text \<open>
  The three outcomes of an insert. On success exactly this key has changed, in this column, and exactly the
  watchers of a prefix of the key have fired. On an error either nothing was written, or the write
  went through and only the flush of the log failed; then the value is there although the caller
  sees an error, and no watcher was woken.
\<close>

theorem map_insert_outcomes:
  assumes "rocks R contents ahead" and "map_insert R c key val s = (s', r)"
  shows "case r of
      Inr _ \<Rightarrow>
        contents (eng_db s') = (contents (eng_db s))(c := (contents (eng_db s) c)(key \<mapsto> val)) \<and>
        set (watchers s' c) = {p \<in> set (watchers s c). \<not> prefix p key} \<and>
        set (woken s') = set (woken s) \<union> {(c, p) | p. p \<in> set (watchers s c) \<and> prefix p key}
    | Inl _ \<Rightarrow>
        contents (eng_db s') \<in> {contents (eng_db s),
          (contents (eng_db s))(c := (contents (eng_db s) c)(key \<mapsto> val))} \<and>
        watchers s' = watchers s \<and> woken s' = woken s"
  using rocks.map_insert_cases [OF assms] by auto

theorem map_insert_outcomes_witness:
  "\<exists>s'. map_insert mem_rocks ''a'' [1, 4] [0] sample_db = (s', Inr ()) \<and> set (watchers s' ''a'') = {[3]} \<and>
    mem_contents (eng_db s') ''a'' [1, 4] = Some [0]"
proof -
  obtain s' where s': "map_insert mem_rocks ''a'' [1, 4] [0] sample_db = (s', Inr ())"
    using mem.map_insert_ok [OF mem_io_ok] by blast
  have left: "set (watchers s' ''a'') = {p \<in> set (watchers sample_db ''a''). \<not> prefix p [1, 4]}"
    and stored: "mem_contents (eng_db s') = (mem_contents (eng_db sample_db))
      (''a'' := (mem_contents (eng_db sample_db) ''a'')([1, 4] \<mapsto> [0]))"
    using map_insert_outcomes [OF mem.rocks_axioms s'] by simp_all
  have "watchers sample_db ''a'' = [[1], [3]]" by (simp add: sample_db_def)
  then have "set (watchers s' ''a'') = {[3]}" unfolding left by auto
  moreover have "mem_contents (eng_db s') ''a'' [1, 4] = Some [0]" by (simp add: stored)
  ultimately show ?thesis using s' by blast
qed

text \<open>
  C20: A transaction is all or nothing. If it reports success, its operations have been applied in the order
  they were added, on all columns, and exactly the watchers of a prefix of a written or removed key
  have fired. If the batch is refused, nothing has changed; the one other failure is a flush of the
  log after the batch was applied as a whole. An empty transaction changes nothing.
\<close>

theorem txn_execute_atomic:
  assumes "rocks R contents ahead" and "txn_execute R t s = (s', r)"
    and "txn_in_step t"
  shows "case r of
      Inr _ \<Rightarrow>
        contents (eng_db s') = foldl apply_op (contents (eng_db s)) (txn_batch t) \<and>
        set (woken s') = set (woken s) \<union>
          {(c, p). p \<in> set (watchers s c) \<and> (\<exists>k. (c, k) \<in> set (txn_written t) \<and> prefix p k)}
    | Inl _ \<Rightarrow>
        contents (eng_db s') \<in> {contents (eng_db s), foldl apply_op (contents (eng_db s)) (txn_batch t)} \<and>
        watchers s' = watchers s \<and> woken s' = woken s"
proof (cases "txn_batch t = []")
  case True
  then have "s' = s" "r = Inr ()" "txn_written t = []"
    using assms(2,3) by (auto simp: txn_execute_def txn_in_step_def)
  with True show ?thesis by simp
next
  case False
  obtain s1 r1 where w: "engine_write (\<lambda>d. write_batch R d (txn_batch t)) s = (s1, r1)"
    by (cases "engine_write (\<lambda>d. write_batch R d (txn_batch t)) s")
  from rocks.engine_write_cases [OF assms(1) w] show ?thesis
  proof
    assume "\<exists>e. r1 = Inl e \<and> s1 = s"
    then show ?thesis using assms(2) w False by (auto simp: txn_execute_def)
  next
    assume "\<exists>d. r1 = Inr () \<and> write_batch R (eng_db s) (txn_batch t) = Inr d \<and> s1 = s\<lparr>eng_db := d\<rparr>"
    then have s1: "r1 = Inr ()" "contents (eng_db s1) = foldl apply_op (contents (eng_db s)) (txn_batch t)"
        "watchers s1 = watchers s" "woken s1 = woken s"
      using rocks.write_law [OF assms(1)] by auto
    obtain s2 r2 where fl: "flush_if_uncorked R s1 = (s2, r2)"
      by (cases "flush_if_uncorked R s1")
    note s2 = rocks.flush_keeps [OF assms(1) fl]
    show ?thesis
      using assms(2) w s1 s2 fl False wake_all [of s2 "txn_written t"]
      by (cases r2) (auto simp: txn_execute_def)
  qed
qed

text \<open>A new transaction is in step, and adding to one keeps it so.\<close>

lemma txn_in_step_ops [simp]:
  "txn_in_step txn_new"
  "txn_in_step (txn_insert c k v t) = txn_in_step t"
  "txn_in_step (txn_remove c k t) = txn_in_step t"
  by (simp_all add: txn_in_step_def txn_new_def txn_insert_def txn_remove_def)

theorem txn_execute_atomic_witness:
  "\<exists>s'. txn_execute mem_rocks (txn_remove ''a'' [2] (txn_insert ''b'' [3] [4] txn_new)) sample_db = (s', Inr ()) \<and>
    mem_contents (eng_db s') ''a'' [2] = None \<and> mem_contents (eng_db s') ''b'' [3] = Some [4]"
proof -
  let ?t = "txn_remove ''a'' [2] (txn_insert ''b'' [3] [4] txn_new)"
  obtain s' where s': "txn_execute mem_rocks ?t sample_db = (s', Inr ())"
    by (simp add: txn_execute_def txn_remove_def txn_insert_def txn_new_def engine_write_def
        flush_if_uncorked_def engine_flush_def mem_rocks_def)
  have "mem_contents (eng_db s') = foldl apply_op (mem_contents (eng_db sample_db)) (txn_batch ?t)"
    using txn_execute_atomic [OF mem.rocks_axioms s'] by simp
  also have "txn_batch ?t = [BatchPut ''b'' [3] [4], BatchDelete ''a'' [2]]"
    by (simp add: txn_remove_def txn_insert_def txn_new_def)
  finally have "mem_contents (eng_db s') ''a'' [2] = None" "mem_contents (eng_db s') ''b'' [3] = Some [4]"
    by simp_all
  then show ?thesis using s' by blast
qed

text \<open>
  Deleting a prefix removes every key under it and no other: other keys of the column and all other columns
  are untouched, and the cork held meanwhile is given back.
\<close>

theorem del_prefix_exact:
  assumes "rocks R contents ahead" and "io_ok R"
  shows "\<exists>s'. raw_del_prefix R c p s = Some s' \<and> corks s' = corks s \<and>
    contents (eng_db s') =
      (contents (eng_db s))(c := contents (eng_db s) c |` {k. \<not> prefix p k})"
  by (rule rocks.raw_del_prefix_ok [OF assms])

theorem del_prefix_exact_witness:
  "\<exists>s'. raw_del_prefix mem_rocks ''a'' [1, 255] sample_db = Some s' \<and>
    mem_contents (eng_db s') ''a'' [1, 255, 2] = None \<and> mem_contents (eng_db s') ''a'' [1] = Some [8] \<and>
    mem_contents (eng_db s') ''b'' [1, 255] = Some [5]"
proof -
  obtain s' where s': "raw_del_prefix mem_rocks ''a'' [1, 255] sample_db = Some s'"
      "mem_contents (eng_db s') = (mem_contents (eng_db sample_db))
         (''a'' := mem_contents (eng_db sample_db) ''a'' |` {k. \<not> prefix [1, 255] k})"
    using del_prefix_exact [OF mem.rocks_axioms mem_io_ok, of "''a''" "[1, 255]" sample_db] by blast
  have "mem_contents (eng_db sample_db) ''a'' [1] = Some [8]"
    "mem_contents (eng_db sample_db) ''b'' [1, 255] = Some [5]"
    by (simp_all add: mem_contents_def sample_db_def)
  then have "mem_contents (eng_db s') ''a'' [1, 255, 2] = None" "mem_contents (eng_db s') ''a'' [1] = Some [8]"
    "mem_contents (eng_db s') ''b'' [1, 255] = Some [5]"
    by (simp_all add: s'(2) restrict_map_def)
  then show ?thesis using s'(1) by blast
qed
end
