(* ===== verification/Pdu_Count.thy ===== *)
theory Pdu_Count
  imports Prelude
begin

section \<open>Event counts and timeline keys\<close>

text \<open>
  The position of an event in a room's timeline and the database key made from it:
  \<open>matrix/pdu/count.rs\<close> (\<open>Count\<close>), \<open>matrix/pdu/id.rs\<close> (\<open>Id\<close>), \<open>matrix/pdu/raw_id.rs\<close>
  (\<open>RawId\<close>) and the byte helpers of \<open>bytes.rs\<close> they call. An \<open>i64\<close> is a 64-bit word read
  by \<open>sint\<close>, so the source's \<open>as\<close> casts between \<open>u64\<close> and \<open>i64\<close> are the identity on words.
  A \<open>debug_assert\<close> is the predicate \<open>debug_assert_valid\<close>; the operations are those of a
  release build, which does not evaluate it.
\<close>

subsection \<open>Byte helpers\<close>

datatype bytes_error = TryFromSlice

definition u8x8_from_bytes :: "bytes \<Rightarrow> (bytes_error, bytes) result" where
  "u8x8_from_bytes bs = (if length bs = 8 then Inr bs else Inl TryFromSlice)"

definition u64_from_u8x8 :: "bytes \<Rightarrow> u64" where
  "u64_from_u8x8 bs = from_be_bytes bs"

definition u64_from_bytes :: "bytes \<Rightarrow> (bytes_error, u64) result" where
  "u64_from_bytes bs = res_bind (u8x8_from_bytes bs) (\<lambda>a. Inr (u64_from_u8x8 a))"

definition u64_from_bytes_or_zero :: "bytes \<Rightarrow> u64" where
  "u64_from_bytes_or_zero bs = (case u64_from_bytes bs of Inl _ \<Rightarrow> 0 | Inr w \<Rightarrow> w)"

text \<open>\<open>u64_from_u8\<close> panics on a slice of another length: \<open>None\<close>.\<close>

definition u64_from_u8 :: "bytes \<Rightarrow> u64 option" where
  "u64_from_u8 bs = ok (u64_from_bytes bs)"

definition increment :: "bytes option \<Rightarrow> bytes" where
  "increment old =
     to_be_bytes ((case old of None \<Rightarrow> 0 | Some bs \<Rightarrow> u64_from_bytes_or_zero bs) + 1)"

lemma u64_from_bytes_to_be_bytes [simp]: "u64_from_bytes (to_be_bytes w) = Inr w"
  by (simp add: u64_from_bytes_def u8x8_from_bytes_def u64_from_u8x8_def)

lemma u64_from_u8_to_be_bytes [simp]: "u64_from_u8 (to_be_bytes w) = Some w"
  by (simp add: u64_from_u8_def)

lemma u64_from_bytes_or_zero_to_be_bytes [simp]: "u64_from_bytes_or_zero (to_be_bytes w) = w"
  by (simp add: u64_from_bytes_or_zero_def)

subsection \<open>Counts\<close>

datatype direction = Forward | Backward

datatype count = Normal u64 | Backfilled i64

datatype count_error = CountOverflow | CountUnderflow

definition from_signed :: "i64 \<Rightarrow> count" where
  "from_signed s = (if sint s \<le> 0 then Backfilled s else Normal s)"

definition from_unsigned :: "u64 \<Rightarrow> count" where
  "from_unsigned u = from_signed u"

fun into_unsigned :: "count \<Rightarrow> u64" where
  "into_unsigned (Normal i) = i"
| "into_unsigned (Backfilled i) = i"

fun into_signed :: "count \<Rightarrow> i64" where
  "into_signed (Normal i) = i"
| "into_signed (Backfilled i) = i"

fun into_normal :: "count \<Rightarrow> count" where
  "into_normal (Normal i) = Normal i"
| "into_normal (Backfilled _) = Normal 0"

fun count_checked_add :: "count \<Rightarrow> u64 \<Rightarrow> (count_error, count) result" where
  "count_checked_add (Normal i) add =
     res_bind (ok_or CountOverflow (checked_add i add)) (\<lambda>r. Inr (Normal r))"
| "count_checked_add (Backfilled i) add =
     res_bind (ok_or CountOverflow (checked_add_i64 i add)) (\<lambda>r. Inr (Backfilled r))"

fun count_checked_sub :: "count \<Rightarrow> u64 \<Rightarrow> (count_error, count) result" where
  "count_checked_sub (Normal i) sub =
     res_bind (ok_or CountUnderflow (checked_sub i sub)) (\<lambda>r. Inr (Normal r))"
| "count_checked_sub (Backfilled i) sub =
     res_bind (ok_or CountUnderflow (checked_sub_i64 i sub)) (\<lambda>r. Inr (Backfilled r))"

fun checked_inc :: "count \<Rightarrow> direction \<Rightarrow> (count_error, count) result" where
  "checked_inc c Forward = count_checked_add c 1"
| "checked_inc c Backward = count_checked_sub c 1"

fun count_saturating_add :: "count \<Rightarrow> u64 \<Rightarrow> count" where
  "count_saturating_add (Normal i) add = Normal (saturating_add i add)"
| "count_saturating_add (Backfilled i) add = Backfilled (saturating_add_i64 i add)"

fun count_saturating_sub :: "count \<Rightarrow> u64 \<Rightarrow> count" where
  "count_saturating_sub (Normal i) sub = Normal (saturating_sub i sub)"
| "count_saturating_sub (Backfilled i) sub = Backfilled (saturating_sub_i64 i sub)"

fun saturating_inc :: "count \<Rightarrow> direction \<Rightarrow> count" where
  "saturating_inc c Forward = count_saturating_add c 1"
| "saturating_inc c Backward = count_saturating_sub c 1"

definition count_min :: count where
  "count_min = Backfilled (word_of_int i64_min)"

definition count_max :: count where
  "count_max = Normal (word_of_int i64_max)"

definition count_default :: count where
  "count_default = Normal 0"

fun debug_assert_valid :: "count \<Rightarrow> bool" where
  "debug_assert_valid (Normal i) = True"
| "debug_assert_valid (Backfilled i) = (sint i \<le> 0)"

text \<open>\<open>impl PartialEq\<close> and \<open>impl Ord\<close> compare the signed readings.\<close>

definition count_eq :: "count \<Rightarrow> count \<Rightarrow> bool" where
  "count_eq a b \<longleftrightarrow> sint (into_signed a) = sint (into_signed b)"

definition count_less :: "count \<Rightarrow> count \<Rightarrow> bool" where
  "count_less a b \<longleftrightarrow> sint (into_signed a) < sint (into_signed b)"

definition count_hash_input :: "count \<Rightarrow> i64" where
  "count_hash_input c = into_signed c"

text \<open>
  The counts the constructors produce: \<open>Normal\<close> above zero within the signed range,
  \<open>Backfilled\<close> at or below zero.
\<close>

fun valid_count :: "count \<Rightarrow> bool" where
  "valid_count (Normal i) = (0 < sint i)"
| "valid_count (Backfilled i) = (sint i \<le> 0)"

lemma valid_from_signed: "valid_count (from_signed s)"
  by (simp add: from_signed_def)

lemma from_signed_into_signed: "valid_count c \<Longrightarrow> from_signed (into_signed c) = c"
  by (cases c) (auto simp: from_signed_def)

lemma into_signed_from_signed: "into_signed (from_signed s) = s"
  by (simp add: from_signed_def)

lemma into_unsigned_eq_signed: "into_unsigned c = into_signed c"
  by (cases c) auto

lemma from_unsigned_into_unsigned: "valid_count c \<Longrightarrow> from_unsigned (into_unsigned c) = c"
  by (simp add: from_unsigned_def into_unsigned_eq_signed from_signed_into_signed)

subsection \<open>Identifiers and their keys\<close>

record pdu_id =
  shortroomid :: u64
  shorteventid :: count

text \<open>A \<open>RawId\<close> is an array of 16 or of 24 bytes; the model keeps the bytes as a list.\<close>

datatype raw_id = RawNormal bytes | RawBackfilled bytes

abbreviation INT_LEN :: nat where
  "INT_LEN \<equiv> 8"

definition NORMAL_LEN :: nat where
  "NORMAL_LEN = INT_LEN + INT_LEN"

definition BACKFILLED_LEN :: nat where
  "BACKFILLED_LEN = INT_LEN + INT_LEN + INT_LEN"

fun raw_shortroomid :: "raw_id \<Rightarrow> bytes" where
  "raw_shortroomid (RawNormal raw) = take INT_LEN raw"
| "raw_shortroomid (RawBackfilled raw) = take INT_LEN raw"

fun raw_shorteventid :: "raw_id \<Rightarrow> bytes" where
  "raw_shorteventid (RawNormal raw) = take INT_LEN (drop INT_LEN raw)"
| "raw_shorteventid (RawBackfilled raw) = take INT_LEN (drop (INT_LEN * 2) raw)"

fun as_bytes :: "raw_id \<Rightarrow> bytes" where
  "as_bytes (RawNormal raw) = raw"
| "as_bytes (RawBackfilled raw) = raw"

text \<open>\<open>From<&[u8]>\<close> is \<open>unimplemented!\<close> for any other length: \<open>None\<close>.\<close>

definition raw_from_slice :: "bytes \<Rightarrow> raw_id option" where
  "raw_from_slice bs =
     (if length bs = NORMAL_LEN then Some (RawNormal bs)
      else if length bs = BACKFILLED_LEN then Some (RawBackfilled bs)
      else None)"

definition raw_from_id :: "pdu_id \<Rightarrow> raw_id" where
  "raw_from_id i =
     (case shorteventid i of
        Normal n \<Rightarrow> RawNormal (to_be_bytes (shortroomid i) @ to_be_bytes n)
      | Backfilled n \<Rightarrow>
          RawBackfilled (to_be_bytes (shortroomid i) @ to_be_bytes 0 @ to_be_bytes n))"

definition id_from_raw :: "raw_id \<Rightarrow> pdu_id" where
  "id_from_raw raw =
     \<lparr>shortroomid = u64_from_u8x8 (raw_shortroomid raw),
      shorteventid = from_unsigned (u64_from_u8x8 (raw_shorteventid raw))\<rparr>"

definition pdu_count :: "raw_id \<Rightarrow> count" where
  "pdu_count raw = shorteventid (id_from_raw raw)"

lemma drop_to_be_bytes [simp]: "drop 8 (to_be_bytes w @ bs) = bs" "take 8 (to_be_bytes w @ bs) = to_be_bytes w"
  by simp_all

lemma drop_to_be_bytes2 [simp]: "drop 16 (to_be_bytes v @ to_be_bytes w @ bs) = bs"
  by simp

lemma take_to_be_bytes [simp]: "take 8 (to_be_bytes w) = to_be_bytes w"
  by simp

text \<open>C32: A timeline key decodes to the identifier it was made from, and its bytes read back
  from the database give the same key, for every count the constructors produce.\<close>

theorem raw_id_roundtrip:
  assumes "valid_count (shorteventid i)"
  shows "id_from_raw (raw_from_id i) = i \<and>
    raw_from_slice (as_bytes (raw_from_id i)) = Some (raw_from_id i) \<and>
    pdu_count (raw_from_id i) = shorteventid i"
proof (cases "shorteventid i")
  case (Normal n)
  then have raw: "raw_from_id i = RawNormal (to_be_bytes (shortroomid i) @ to_be_bytes n)"
    by (simp add: raw_from_id_def)
  have "from_unsigned n = Normal n"
    using from_unsigned_into_unsigned [OF assms] Normal by simp
  with raw Normal show ?thesis
    by (simp add: id_from_raw_def pdu_count_def u64_from_u8x8_def raw_from_slice_def NORMAL_LEN_def)
next
  case (Backfilled n)
  then have raw: "raw_from_id i =
      RawBackfilled (to_be_bytes (shortroomid i) @ to_be_bytes 0 @ to_be_bytes n)"
    by (simp add: raw_from_id_def)
  have "from_unsigned n = Backfilled n"
    using from_unsigned_into_unsigned [OF assms] Backfilled by simp
  with raw Backfilled show ?thesis
    by (simp add: id_from_raw_def pdu_count_def u64_from_u8x8_def raw_from_slice_def
        NORMAL_LEN_def BACKFILLED_LEN_def)
qed

theorem raw_id_roundtrip_witness:
  "let i = \<lparr>shortroomid = 7, shorteventid = Backfilled (- 3)\<rparr> in
    valid_count (shorteventid i) \<and> id_from_raw (raw_from_id i) = i"
  using raw_id_roundtrip [of "\<lparr>shortroomid = 7, shorteventid = Backfilled (- 3)\<rparr>"]
  by (simp add: Let_def)

text \<open>
  Within a room the timeline is iterated in byte order of these keys, so that order has to be
  the order of the counts. The helper is the part of the key behind the room.
\<close>

fun count_tail :: "count \<Rightarrow> bytes" where
  "count_tail (Normal n) = to_be_bytes n"
| "count_tail (Backfilled n) = to_be_bytes 0 @ to_be_bytes n"

lemma as_bytes_raw_from_id:
  "as_bytes (raw_from_id i) = to_be_bytes (shortroomid i) @ count_tail (shorteventid i)"
  by (simp add: raw_from_id_def split: count.split)

lemma word_less_sint_pos:
  fixes v w :: i64
  assumes "0 < sint v" and "0 < sint w"
  shows "v < w \<longleftrightarrow> sint v < sint w"
  using unat_sint_i64 [of v] unat_sint_i64 [of w] assms by (simp add: word_less_def)

lemma word_less_sint_neg:
  fixes v w :: i64
  assumes "sint v < 0" and "sint w < 0"
  shows "v < w \<longleftrightarrow> sint v < sint w"
  using unat_sint_i64 [of v] unat_sint_i64 [of w] assms by (simp add: word_less_def)

lemma count_tail_less_iff:
  assumes "valid_count c" "valid_count d" "into_signed c \<noteq> 0" "into_signed d \<noteq> 0"
  shows "count_tail c < count_tail d \<longleftrightarrow> count_less c d"
proof -
  have neg: "sint (w :: i64) \<le> 0 \<Longrightarrow> w \<noteq> 0 \<Longrightarrow> sint w < 0" for w
    by (metis order_le_less sint_0 sint_eq_iff)
  have pos: "0 < sint (w :: i64) \<Longrightarrow> 0 < w" for w
    by (metis order_less_irrefl sint_0 word_neq_0_conv)
  show ?thesis
  proof (cases c; cases d)
    fix n m assume "c = Normal n" "d = Normal m"
    then show ?thesis
      using assms by (simp add: count_less_def to_be_bytes_less_iff word_less_sint_pos)
  next
    fix n m assume cd: "c = Normal n" "d = Backfilled m"
    then have "\<not> to_be_bytes n @ [] < to_be_bytes 0 @ to_be_bytes m"
      using assms by (subst append_less_same_length) (auto simp: to_be_bytes_less_iff)
    with cd show ?thesis
      using assms by (simp add: count_less_def)
  next
    fix n m assume cd: "c = Backfilled n" "d = Normal m"
    then have "to_be_bytes 0 @ to_be_bytes n < to_be_bytes m @ []"
      using assms pos [of m] by (subst append_less_same_length) (auto simp: to_be_bytes_less_iff)
    with cd show ?thesis
      using assms by (simp add: count_less_def)
  next
    fix n m assume "c = Backfilled n" "d = Backfilled m"
    then show ?thesis
      using assms neg [of n] neg [of m]
      by (simp add: count_less_def append_less_same_length to_be_bytes_less_iff word_less_sint_neg)
  qed
qed

text \<open>C33: Timeline keys sort by room and, within a room, by count: byte order of the keys is
  the lexicographic order on (room, count), live events above backfilled ones. The one count
  left out is zero, which no event is given.\<close>

theorem raw_id_order:
  assumes "valid_count (shorteventid i)" "valid_count (shorteventid j)"
    and "into_signed (shorteventid i) \<noteq> 0" "into_signed (shorteventid j) \<noteq> 0"
  shows "as_bytes (raw_from_id i) < as_bytes (raw_from_id j) \<longleftrightarrow>
    shortroomid i < shortroomid j \<or>
    shortroomid i = shortroomid j \<and> count_less (shorteventid i) (shorteventid j)"
  using count_tail_less_iff [OF assms]
  by (simp add: as_bytes_raw_from_id append_less_same_length to_be_bytes_less_iff)

theorem raw_id_order_witness:
  "let i = \<lparr>shortroomid = 7, shorteventid = Backfilled (- 3)\<rparr>;
       j = \<lparr>shortroomid = 7, shorteventid = Normal 2\<rparr> in
    as_bytes (raw_from_id i) < as_bytes (raw_from_id j)"
  using raw_id_order [of "\<lparr>shortroomid = 7, shorteventid = Backfilled (- 3)\<rparr>"
      "\<lparr>shortroomid = 7, shorteventid = Normal 2\<rparr>"]
  by (simp add: Let_def count_less_def)

text \<open>
  Stepping a count. The two variants never trade places: a live count stops at zero and a
  backfilled one runs past it.
\<close>

lemma sint_one_i64: "sint (1 :: i64) = 1"
  by simp

lemma pos_unat_i64: "0 < sint (n :: i64) \<Longrightarrow> int (unat n) = sint n"
  using unat_sint_i64 [of n] by simp

lemma checked_sub_one_pos:
  assumes "0 < sint (n :: i64)"
  shows "checked_sub n 1 = Some (n - 1)" and "sint (n - 1) = sint n - 1"
proof -
  have "1 \<le> n"
    using unat_sint_i64 [of n] assms by (simp add: word_le_def)
  then show "checked_sub n 1 = Some (n - 1)"
    by (simp add: checked_sub_def)
  show "sint (n - 1) = sint n - 1"
    using sint_i64_sub [of n 1] sint_i64_bounds [of n] assms
    by (simp add: in_i64_def i64_min_def i64_max_def)
qed

lemma checked_add_one_pos:
  assumes "0 < sint (n :: i64)"
  shows "checked_add n 1 = Some (n + 1)"
    and "sint n < i64_max \<Longrightarrow> sint (n + 1) = sint n + 1"
proof -
  have "sint n \<le> 9223372036854775807"
    using sint_i64_bounds [of n] by (simp add: in_i64_def i64_max_def)
  then have "unat n + 1 < 18446744073709551616"
    using pos_unat_i64 [OF assms] by linarith
  then show "checked_add n 1 = Some (n + 1)"
    by (simp add: checked_add_def)
  show "sint n < i64_max \<Longrightarrow> sint (n + 1) = sint n + 1"
    using sint_i64_add [of n 1] assms by (simp add: in_i64_def i64_min_def i64_max_def)
qed

text \<open>Stepping a count moves its signed reading by exactly one in the asked direction, or
  reports the end of the 64-bit range; it never wraps around.\<close>

theorem checked_inc_steps:
  assumes "valid_count c" and "count_less count_min c" and "count_less c count_max"
  shows "\<exists>c'. checked_inc c dir = Inr c' \<and>
    sint (into_signed c') = sint (into_signed c) + (if dir = Forward then 1 else - 1)"
proof -
  have range: "i64_min < sint (into_signed c)" "sint (into_signed c) < i64_max"
    using assms(2,3)
    by (simp_all add: count_less_def count_min_def count_max_def sint_word_of_int_i64 in_i64_def
        i64_min_def i64_max_def)
  show ?thesis
  proof (cases c)
    case (Normal n)
    then have "0 < sint n"
      using assms(1) by simp
    note facts = checked_sub_one_pos [OF this] checked_add_one_pos [OF this]
    show ?thesis
      using Normal range facts by (cases dir) auto
  next
    case (Backfilled n)
    have "checked_add_i64 n 1 = Some (n + 1)" "sint (n + 1) = sint n + 1"
      "checked_sub_i64 n 1 = Some (n - 1)" "sint (n - 1) = sint n - 1"
      using Backfilled range sint_i64_add [of n 1] sint_i64_sub [of n 1]
      by (auto simp: checked_add_i64_def checked_sub_i64_def in_i64_def)
    with Backfilled show ?thesis
      by (cases dir) auto
  qed
qed

theorem checked_inc_steps_witness:
  "\<exists>c'. checked_inc (Backfilled (- 1)) Forward = Inr c' \<and> sint (into_signed c') = 0"
  using checked_inc_steps [of "Backfilled (- 1)" Forward]
  by (simp add: count_less_def count_min_def count_max_def i64_min_def i64_max_def)

text \<open>At zero the step leaves the counts the constructors produce: forward from
  \<open>Backfilled(0)\<close> is \<open>Backfilled(1)\<close>, which the debug assertion of the next conversion rejects,
  and backward from \<open>Normal(0)\<close> is an underflow although negative counts exist.\<close>

theorem checked_inc_at_zero:
  "checked_inc (from_signed 0) Forward = Inr (Backfilled 1) \<and>
   \<not> debug_assert_valid (Backfilled 1) \<and>
   checked_inc (Normal 1) Backward = Inr (Normal 0) \<and>
   checked_inc (Normal 0) Backward = Inl CountUnderflow \<and>
   saturating_inc (Normal 0) Backward = Normal 0 \<and>
   count_eq (Normal 0) (from_signed 0)"
  by (simp add: from_signed_def arith_defs count_eq_def)

end
