(* ===== verification/Server_Counter.thy ===== *)
theory Server_Counter
  imports Pdu_Count Number_Source Db_Map_Props
begin

section \<open>The server's global counter\<close>

text \<open>
  \<open>ops/server_state/counter.rs\<close> of \<open>phantom-service\<close>: the counter every short id and every
  event's place in the timeline is drawn from. It is held in memory and written through to the
  column \<open>global\<close>. The state \<open>server\<close> is the database with the number in memory; the write lock the
  source holds while it draws makes a draw one step.
\<close>

datatype srv_error = SrvDb db_error | SrvBytes bytes_error | SrvDatabase | SrvArithmetic | SrvPanic

record 'd server =
  srv_db :: "'d database"
  srv_count :: u64

definition GLOBAL :: column where
  "GLOBAL = ''global''"

definition COUNTER :: bytes where
  "COUNTER = [0x63]"

text \<open>\<open>Error::is_not_found\<close>: an I/O error of that kind counts as well.\<close>

fun is_not_found :: "db_error \<Rightarrow> bool" where
  "is_not_found DbNotFound = True"
| "is_not_found (DbIo k _) = (k = IoNotFound)"
| "is_not_found (DbCodec _) = False"

definition stored_count :: "('d, 'it) rocksdb \<Rightarrow> 'd database \<Rightarrow> (srv_error, u64) result" where
  "stored_count R db =
     (case map_get_blocking R GLOBAL COUNTER db of
        Inr v \<Rightarrow> (case u64_from_bytes v of Inl e \<Rightarrow> Inl (SrvBytes e) | Inr w \<Rightarrow> Inr w)
      | Inl e \<Rightarrow> if is_not_found e then Inr 0 else Inl (SrvDb e))"

text \<open>\<open>Counter::new\<close>; a counter that cannot be read is a panic.\<close>

definition server_counter_new :: "('d, 'it) rocksdb \<Rightarrow> 'd database \<Rightarrow> 'd server option" where
  "server_counter_new R db =
     (case stored_count R db of
        Inl _ \<Rightarrow> None
      | Inr w \<Rightarrow> Some \<lparr>srv_db = db, srv_count = w\<rparr>)"

definition count_matches :: "bool \<Rightarrow> ('d, 'it) rocksdb \<Rightarrow> 'd server \<Rightarrow> bool" where
  "count_matches dbg R s \<longleftrightarrow> dbg \<longrightarrow> stored_count R (srv_db s) = Inr (srv_count s)"

text \<open>The number in memory has been advanced when the write fails.\<close>

definition server_counter_next ::
  "bool \<Rightarrow> ('d, 'it) rocksdb \<Rightarrow> 'd server \<Rightarrow> 'd server \<times> (srv_error, u64) result"
where
  "server_counter_next dbg R s =
     (case cork_new False False (srv_db s) of (guard, db1) \<Rightarrow>
        if \<not> count_matches dbg R s then (s, Inl SrvPanic)
        else
          (case checked_add (srv_count s) 1 of
             None \<Rightarrow> (s, Inl SrvPanic)
           | Some n \<Rightarrow>
               (case map_insert R GLOBAL COUNTER (to_be_bytes n) db1 of
                  (db2, Inl e) \<Rightarrow>
                    (\<lparr>srv_db = cork_drop R guard db2, srv_count = n\<rparr>, Inl (SrvDb e))
                | (db2, Inr _) \<Rightarrow>
                    (\<lparr>srv_db = cork_drop R guard db2, srv_count = n\<rparr>, Inr n))))"

definition server_counter_current ::
  "bool \<Rightarrow> ('d, 'it) rocksdb \<Rightarrow> 'd server \<Rightarrow> (srv_error, u64) result"
where
  "server_counter_current dbg R s =
     (if count_matches dbg R s then Inr (srv_count s) else Inl SrvPanic)"

subsection \<open>Numbers are fresh\<close>

definition server_issue :: "bool \<Rightarrow> ('d, 'it) rocksdb \<Rightarrow> 'd server \<Rightarrow> (u64 \<times> 'd server) option" where
  "server_issue dbg R s =
     (case server_counter_next dbg R s of (s', Inl _) \<Rightarrow> None | (s', Inr i) \<Rightarrow> Some (i, s'))"

lemma cork_drop_plain [simp]:
  "cork_drop R \<lparr>cork_flush = False, cork_sync = False\<rparr> s = engine_uncork s"
  by (simp add: cork_drop_def)

lemma eng_db_cork [simp]:
  "eng_db (engine_cork s) = eng_db s" "eng_db (engine_uncork s) = eng_db s"
  by (simp_all add: engine_cork_def engine_uncork_def)

lemma server_counter_next_cases:
  assumes "server_counter_next dbg R s = (s', r)"
  obtains "s' = s" "r = Inl SrvPanic" "\<not> count_matches dbg R s \<or> checked_add (srv_count s) 1 = None"
  | n db e where "checked_add (srv_count s) 1 = Some n" "srv_count s' = n" "srv_db s' = engine_uncork db"
      "map_insert R GLOBAL COUNTER (to_be_bytes n) (engine_cork (srv_db s)) = (db, Inl e)" "r = Inl (SrvDb e)"
  | n db where "checked_add (srv_count s) 1 = Some n" "srv_count s' = n" "srv_db s' = engine_uncork db"
      "map_insert R GLOBAL COUNTER (to_be_bytes n) (engine_cork (srv_db s)) = (db, Inr ())" "r = Inr n"
  using assms
  by (auto simp: server_counter_next_def cork_new_def split: if_splits option.splits prod.splits sum.splits)

lemma server_issue_Some:
  assumes "server_issue dbg R s = Some (i, s')"
  shows "srv_count s < i" "srv_count s' = i"
proof -
  have drawn: "server_counter_next dbg R s = (s', Inr i)"
    using assms by (auto simp: server_issue_def split: prod.splits sum.splits)
  obtain n where "checked_add (srv_count s) 1 = Some n" "srv_count s' = n" "i = n"
    using drawn by (cases rule: server_counter_next_cases) auto
  then show "srv_count s < i" "srv_count s' = i"
    by (simp_all add: checked_add_Some_iff word_less_nat_alt)
qed

interpretation server_source: number_source "server_issue dbg R" srv_count "\<lambda>_. True"
  by unfold_locales (auto dest: server_issue_Some)

subsection \<open>Numbers survive a restart\<close>

lemma checked_succ:
  fixes w :: u64
  assumes "w \<noteq> - 1"
  shows "checked_add w 1 = Some (w + 1)"
proof -
  have "unat w \<noteq> unat (- 1 :: u64)" using assms by (simp add: word_unat_eq_iff [symmetric])
  then have "unat w + 1 < 2 ^ 64"
    using unat_bound [of w] by (simp add: unsigned_minus_1_eq_mask mask_eq_exp_minus_1)
  then show ?thesis by (simp add: checked_add_def)
qed

context rocks
begin

lemma stored_count_after:
  assumes "io_ok R" and "map_insert R GLOBAL COUNTER (to_be_bytes n) db = (db', Inr ())"
  shows "stored_count R (engine_uncork db') = Inr n"
proof -
  obtain v where v: "get_pinned R (eng_db db') GLOBAL COUNTER = Inr v"
    using io_okD(5) [OF assms(1)] by blast
  have "v = Some (to_be_bytes n)"
    using get_law [OF v] kv.insert_ok [OF assms(2)] by simp
  then show ?thesis
    by (simp add: stored_count_def map_get_blocking_def v handle_from_def)
qed

lemma server_next_ok:
  assumes "io_ok R" and "count_matches dbg R s" and "srv_count s \<noteq> - 1"
  shows "\<exists>s'. server_counter_next dbg R s = (s', Inr (srv_count s + 1)) \<and> srv_count s' = srv_count s + 1 \<and>
    stored_count R (srv_db s') = Inr (srv_count s + 1)"
proof -
  have n: "checked_add (srv_count s) 1 = Some (srv_count s + 1)" by (rule checked_succ [OF assms(3)])
  obtain db where db: "map_insert R GLOBAL COUNTER (to_be_bytes (srv_count s + 1)) (engine_cork (srv_db s)) = (db, Inr ())"
    using map_insert_ok [OF assms(1)] by blast
  show ?thesis
    using stored_count_after [OF assms(1) db] assms(2)
    by (simp add: server_counter_next_def cork_new_def n db)
qed

lemma draws_stored:
  assumes "io_ok R" and "stored_count R (srv_db s) = Inr (srv_count s)"
    and "draws (server_issue dbg R) n s = Some (is, s')"
  shows "stored_count R (srv_db s') = Inr (srv_count s')"
  using assms(2,3)
proof (induction n arbitrary: s "is")
  case (Suc n)
  then obtain i s1 is1 where step: "server_issue dbg R s = Some (i, s1)"
      "draws (server_issue dbg R) n s1 = Some (is1, s')"
    by (auto split: option.splits)
  have "server_counter_next dbg R s = (s1, Inr i)"
    using step(1) by (auto simp: server_issue_def split: prod.splits sum.splits)
  then have "stored_count R (srv_db s1) = Inr (srv_count s1)"
    by (cases rule: server_counter_next_cases) (auto simp: stored_count_after [OF assms(1)])
  then show ?case using Suc.IH step(2) by blast
qed simp

end

text \<open>
  C21: Numbers are never handed out twice, across restarts either: a server that draws numbers, stops, and is
  started again on the database it left draws numbers above all the earlier ones.
\<close>

theorem server_counter_restart:
  assumes "rocks R contents ahead" and "io_ok R" and "server_counter_new R db = Some s"
    and "draws (server_issue dbg R) n s = Some (first, s1)"
    and "server_counter_new R (srv_db s1) = Some s2"
    and "draws (server_issue dbg R) m s2 = Some (second, s3)"
  shows "sorted_wrt (<) (first @ second)"
proof -
  have "stored_count R (srv_db s) = Inr (srv_count s)"
    using assms(3) by (auto simp: server_counter_new_def split: sum.splits)
  then have "stored_count R (srv_db s1) = Inr (srv_count s1)"
    by (rule rocks.draws_stored [OF assms(1,2) _ assms(4)])
  then have "srv_count s2 = srv_count s1"
    using assms(5) by (auto simp: server_counter_new_def)
  then show ?thesis
    using server_source.draws_increasing [OF TrueI assms(4)] server_source.draws_increasing [OF TrueI assms(6)]
    by (auto simp: sorted_wrt_append intro: order_le_less_trans)
qed

definition empty_db :: "mem_db database" where
  "empty_db = \<lparr>eng_db = [], corks = 0, watchers = (\<lambda>_. []), woken = []\<rparr>"

definition sample_server :: "mem_db server" where
  "sample_server = \<lparr>srv_db = empty_db, srv_count = 0\<rparr>"

lemma stored_count_empty: "stored_count mem_rocks empty_db = Inr 0"
  by (simp add: stored_count_def map_get_blocking_def handle_from_def mem_rocks_def empty_db_def)

lemma sample_server_new: "server_counter_new mem_rocks empty_db = Some sample_server"
  by (simp add: server_counter_new_def stored_count_empty sample_server_def)

theorem server_counter_restart_witness:
  "\<exists>i s1 s2 j s3. server_issue True mem_rocks sample_server = Some (i, s1) \<and>
     server_counter_new mem_rocks (srv_db s1) = Some s2 \<and>
     server_issue True mem_rocks s2 = Some (j, s3) \<and> i < j"
proof -
  obtain s1 where s1: "server_counter_next True mem_rocks sample_server = (s1, Inr 1)" "srv_count s1 = 1"
      "stored_count mem_rocks (srv_db s1) = Inr 1"
    using mem.server_next_ok [OF mem_io_ok, of True sample_server]
    by (auto simp: count_matches_def sample_server_def stored_count_empty)
  let ?s2 = "\<lparr>srv_db = srv_db s1, srv_count = 1\<rparr>"
  have s2: "server_counter_new mem_rocks (srv_db s1) = Some ?s2"
    by (simp add: server_counter_new_def s1(3))
  obtain s3 where s3: "server_counter_next True mem_rocks ?s2 = (s3, Inr 2)"
    using mem.server_next_ok [OF mem_io_ok, of True ?s2] s1(3) by (auto simp: count_matches_def)
  have draws: "draws (server_issue True mem_rocks) 1 sample_server = Some ([1], s1)"
    "draws (server_issue True mem_rocks) 1 ?s2 = Some ([2], s3)"
    using s1(1) s3 by (simp_all add: server_issue_def)
  have "sorted_wrt (<) ([1 :: u64] @ [2])"
    by (rule server_counter_restart [OF mem.rocks_axioms mem_io_ok sample_server_new draws(1) s2 draws(2)])
  then show ?thesis
    using s1(1) s2 s3 by (simp add: server_issue_def)
qed

subsection \<open>A write that fails\<close>

text \<open>
  C36: A failed write leaves the counter ahead of the database. Whatever the state, when the database refuses
  the write the draw reports the error, the number in memory is advanced all the same, and the database still
  has the old one. In a debug build every later draw and every look at the counter panics on the mismatch;
  a restart takes the counter back to the number in the database.
\<close>

theorem counter_ahead_of_store:
  assumes "stored_count R (srv_db s) = Inr (srv_count s)" and "srv_count s \<noteq> - 1"
    and "put_cf R (eng_db (srv_db s)) GLOBAL COUNTER (to_be_bytes (srv_count s + 1)) = Inl e"
  shows "\<exists>s'. server_counter_next dbg R s = (s', Inl (SrvDb (map_err e))) \<and>
     srv_count s' = srv_count s + 1 \<and> stored_count R (srv_db s') = Inr (srv_count s) \<and>
     server_counter_next True R s' = (s', Inl SrvPanic) \<and> server_counter_current True R s' = Inl SrvPanic \<and>
     server_counter_new R (srv_db s') = Some (s'\<lparr>srv_count := srv_count s\<rparr>)"
proof -
  let ?db = "engine_uncork (engine_cork (srv_db s))"
  let ?s = "\<lparr>srv_db = ?db, srv_count = srv_count s + 1\<rparr>"
  have n: "checked_add (srv_count s) 1 = Some (srv_count s + 1)" by (rule checked_succ [OF assms(2)])
  have "map_insert R GLOBAL COUNTER (to_be_bytes (srv_count s + 1)) (engine_cork (srv_db s)) =
      (engine_cork (srv_db s), Inl (map_err e))"
    by (simp add: map_insert_def engine_write_def assms(3))
  then have "server_counter_next dbg R s = (?s, Inl (SrvDb (map_err e)))"
    by (simp add: server_counter_next_def cork_new_def count_matches_def assms(1) n)
  moreover have stored: "stored_count R ?db = Inr (srv_count s)"
    using assms(1) by (simp add: stored_count_def map_get_blocking_def)
  moreover have "\<not> count_matches True R ?s" by (simp add: count_matches_def stored)
  then have "server_counter_next True R ?s = (?s, Inl SrvPanic)" "server_counter_current True R ?s = Inl SrvPanic"
    by (simp_all add: server_counter_next_def server_counter_current_def cork_new_def)
  ultimately show ?thesis by (intro exI [of _ ?s]) (simp add: server_counter_new_def)
qed

definition failing_rocks :: "(mem_db, mem_it) rocksdb" where
  "failing_rocks = mem_rocks\<lparr>put_cf := \<lambda>_ _ _ _. Inl \<lparr>re_kind = KIOError, re_text = []\<rparr>\<rparr>"

theorem counter_ahead_of_store_witness:
  "\<exists>s'. server_counter_next True failing_rocks sample_server = (s', Inl (SrvDb (DbIo IoOther []))) \<and>
     srv_count s' = 1 \<and> server_counter_next True failing_rocks s' = (s', Inl SrvPanic)"
proof -
  have "stored_count failing_rocks (srv_db sample_server) = Inr (srv_count sample_server)"
    by (simp add: stored_count_def map_get_blocking_def handle_from_def failing_rocks_def mem_rocks_def
        empty_db_def sample_server_def)
  from counter_ahead_of_store [OF this, of "\<lparr>re_kind = KIOError, re_text = []\<rparr>" True] show ?thesis
    by (auto simp: sample_server_def failing_rocks_def map_err_def)
qed

end
