(* ===== verification/Short_Ids.thy ===== *)
theory Short_Ids
  imports Server_Counter Db_Codec_Props
begin

section \<open>Short ids\<close>

text \<open>
  \<open>rooms/short.rs\<close> of \<open>phantom-service\<close>: events, state keys, rooms and state hashes are given numbers of
  the server's counter, kept in one column per kind; events and state keys have a column for the
  way back. Ids and strings are the bytes of their text. A write whose error the source drops with
  \<open>ok()\<close> still passes on a panic. The source holds no lock between looking a key up and creating its
  number; each call is one step here, so two concurrent misses of one key are left out.
\<close>

definition EVENTID_SHORTEVENTID :: column where
  "EVENTID_SHORTEVENTID = ''eventid_shorteventid''"

definition SHORTEVENTID_EVENTID :: column where
  "SHORTEVENTID_EVENTID = ''shorteventid_eventid''"

definition STATEKEY_SHORTSTATEKEY :: column where
  "STATEKEY_SHORTSTATEKEY = ''statekey_shortstatekey''"

definition SHORTSTATEKEY_STATEKEY :: column where
  "SHORTSTATEKEY_STATEKEY = ''shortstatekey_statekey''"

definition ROOMID_SHORTROOMID :: column where
  "ROOMID_SHORTROOMID = ''roomid_shortroomid''"

definition STATEHASH_SHORTSTATEHASH :: column where
  "STATEHASH_SHORTSTATEHASH = ''statehash_shortstatehash''"

lemmas short_columns_defs =
  EVENTID_SHORTEVENTID_def SHORTEVENTID_EVENTID_def STATEKEY_SHORTSTATEKEY_def SHORTSTATEKEY_STATEKEY_def
  ROOMID_SHORTROOMID_def STATEHASH_SHORTSTATEHASH_def GLOBAL_def

text \<open>\<open>deserialized()\<close> of \<open>store/handle.rs\<close>; the types read in this theory hold no documents.\<close>

definition no_documents :: "unit foreign" where
  "no_documents = \<lparr>from_json = \<lambda>_. None, from_cbor = \<lambda>_. None\<rparr>"

definition deserialized :: "bool \<Rightarrow> de_type \<Rightarrow> (db_error, bytes) result \<Rightarrow> (db_error, unit de_value) result" where
  "deserialized dbg t r =
     res_bind r (\<lambda>v. case from_slice dbg no_documents t v of Inl e \<Rightarrow> Inl (DbCodec e) | Inr x \<Rightarrow> Inr x)"

definition deserialized_u64 :: "bool \<Rightarrow> (db_error, bytes) result \<Rightarrow> (db_error, u64) result" where
  "deserialized_u64 dbg r =
     res_bind (deserialized dbg DeU64 r) (\<lambda>x. case x of VU64 w \<Rightarrow> Inr w | _ \<Rightarrow> Inl (DbCodec SerdeDe))"

definition next_short :: "bool \<Rightarrow> ('d, 'it) rocksdb \<Rightarrow> 'd server \<Rightarrow> 'd server \<times> (srv_error, u64) result" where
  "next_short dbg R s =
     (case server_counter_next dbg R s of
        (s', Inl _) \<Rightarrow> (s', Inl SrvPanic)
      | (s', Inr w) \<Rightarrow> (s', Inr w))"

definition put_ignored ::
  "('d database \<Rightarrow> 'd database \<times> (db_error, unit) result) \<Rightarrow> 'd server \<Rightarrow> 'd server \<times> (srv_error, unit) result"
where
  "put_ignored f s =
     (case f (srv_db s) of (db, r) \<Rightarrow>
        (s\<lparr>srv_db := db\<rparr>, if r = Inl (DbCodec CodecPanic) then Inl SrvPanic else Inr ()))"

definition or_create ::
  "(db_error, u64) result \<Rightarrow> ('d server \<Rightarrow> 'd server \<times> (srv_error, u64) result) \<Rightarrow> 'd server \<Rightarrow>
     'd server \<times> (srv_error, u64) result"
where
  "or_create found create s =
     (case found of
        Inr w \<Rightarrow> (s, Inr w)
      | Inl e \<Rightarrow> if e = DbCodec CodecPanic then (s, Inl SrvPanic) else create s)"

subsection \<open>Events\<close>

definition get_shorteventid ::
  "bool \<Rightarrow> ('d, 'it) rocksdb \<Rightarrow> bytes \<Rightarrow> 'd database \<Rightarrow> (db_error, u64) result"
where
  "get_shorteventid dbg R event_id db =
     deserialized_u64 dbg (map_get R EVENTID_SHORTEVENTID event_id db)"

definition create_shorteventid ::
  "bool \<Rightarrow> ('d, 'it) rocksdb \<Rightarrow> bytes \<Rightarrow> 'd server \<Rightarrow> 'd server \<times> (srv_error, u64) result"
where
  "create_shorteventid dbg R event_id s =
     st_bind (next_short dbg R s) (\<lambda>short s.
     st_bind (put_ignored (map_raw_aput dbg R EVENTID_SHORTEVENTID 8 event_id (SerU64 short)) s) (\<lambda>_ s.
     st_bind (put_ignored (map_aput_raw dbg R SHORTEVENTID_EVENTID 8 (SerU64 short) event_id) s) (\<lambda>_ s.
       (s, Inr short))))"

definition get_or_create_shorteventid ::
  "bool \<Rightarrow> ('d, 'it) rocksdb \<Rightarrow> bytes \<Rightarrow> 'd server \<Rightarrow> 'd server \<times> (srv_error, u64) result"
where
  "get_or_create_shorteventid dbg R event_id s =
     or_create (get_shorteventid dbg R event_id (srv_db s)) (create_shorteventid dbg R event_id) s"

text \<open>
  The lookups of a batch run ahead of the numbers drawn for what they miss: \<open>groups\<close> are the keys
  looked up together, in the order of the stream.
\<close>

fun create_missing ::
  "bool \<Rightarrow> ('d, 'it) rocksdb \<Rightarrow> ((db_error, bytes) result \<times> bytes) list \<Rightarrow> 'd server \<Rightarrow>
     'd server \<times> (srv_error, u64 list) result"
where
  "create_missing dbg R [] s = (s, Inr [])"
| "create_missing dbg R ((found, event_id) # rest) s =
     st_bind
       (case found of
          Inr short \<Rightarrow> (s, ok_or SrvPanic (u64_from_u8 short))
        | Inl _ \<Rightarrow> create_shorteventid dbg R event_id s) (\<lambda>short s.
     st_bind (create_missing dbg R rest s) (\<lambda>shorts s. (s, Inr (short # shorts))))"

fun multi_get_or_create_shorteventid ::
  "bool \<Rightarrow> ('d, 'it) rocksdb \<Rightarrow> bytes list list \<Rightarrow> 'd server \<Rightarrow> 'd server \<times> (srv_error, u64 list) result"
where
  "multi_get_or_create_shorteventid dbg R [] s = (s, Inr [])"
| "multi_get_or_create_shorteventid dbg R (ids # groups) s =
     st_bind (create_missing dbg R (zip (map_get_batch R EVENTID_SHORTEVENTID ids (srv_db s)) ids) s) (\<lambda>shorts s.
     st_bind (multi_get_or_create_shorteventid dbg R groups s) (\<lambda>more s. (s, Inr (shorts @ more))))"

text \<open>\<open>accept\<close> is the check the id type makes on the text it is read from.\<close>

definition read_eventid :: "bool \<Rightarrow> (bytes \<Rightarrow> bool) \<Rightarrow> (db_error, bytes) result \<Rightarrow> (db_error, bytes) result" where
  "read_eventid dbg accept r =
     res_bind (deserialized dbg DeString r) (\<lambda>x.
       case x of
         VStr e \<Rightarrow> if accept e then Inr e else Inl (DbCodec SerdeDe)
       | _ \<Rightarrow> Inl (DbCodec SerdeDe))"

definition read_statekey :: "bool \<Rightarrow> (db_error, bytes) result \<Rightarrow> (db_error, bytes \<times> bytes) result" where
  "read_statekey dbg r =
     res_bind (deserialized dbg (DeTuple [DeString, DeString]) r) (\<lambda>x.
       case x of
         VTuple [VStr t, VStr k] \<Rightarrow> Inr (t, k)
       | _ \<Rightarrow> Inl (DbCodec SerdeDe))"

definition database_error :: "(db_error, 'a) result \<Rightarrow> (srv_error, 'a) result" where
  "database_error r =
     (case r of
        Inr x \<Rightarrow> Inr x
      | Inl e \<Rightarrow> Inl (if e = DbCodec CodecPanic then SrvPanic else SrvDatabase))"

definition get_eventid_from_short ::
  "bool \<Rightarrow> ('d, 'it) rocksdb \<Rightarrow> (bytes \<Rightarrow> bool) \<Rightarrow> u64 \<Rightarrow> 'd database \<Rightarrow> (srv_error, bytes) result"
where
  "get_eventid_from_short dbg R accept short db =
     database_error (read_eventid dbg accept (map_aqry dbg R SHORTEVENTID_EVENTID 8 (SerU64 short) db))"

text \<open>\<open>Qry::qry\<close> on a stream serializes the keys of a chunk and reads them as a batch.\<close>

definition qry_batch ::
  "bool \<Rightarrow> ('d, 'it) rocksdb \<Rightarrow> column \<Rightarrow> ser_value list \<Rightarrow> 'd database \<Rightarrow> (db_error, bytes) result list"
where
  "qry_batch dbg R c keys db =
     map (\<lambda>key. case serialize dbg None key of
         Inl _ \<Rightarrow> Inl (DbCodec CodecPanic)
       | Inr k \<Rightarrow> map_get_blocking R c k db) keys"

definition multi_get_eventid_from_short ::
  "bool \<Rightarrow> ('d, 'it) rocksdb \<Rightarrow> (bytes \<Rightarrow> bool) \<Rightarrow> u64 list \<Rightarrow> 'd database \<Rightarrow> (db_error, bytes) result list"
where
  "multi_get_eventid_from_short dbg R accept shorts db =
     map (read_eventid dbg accept) (qry_batch dbg R SHORTEVENTID_EVENTID (map SerU64 shorts) db)"

subsection \<open>State keys\<close>

definition get_shortstatekey ::
  "bool \<Rightarrow> ('d, 'it) rocksdb \<Rightarrow> bytes \<Rightarrow> bytes \<Rightarrow> 'd database \<Rightarrow> (db_error, u64) result"
where
  "get_shortstatekey dbg R event_type state_key db =
     deserialized_u64 dbg
       (map_qry dbg R STATEKEY_SHORTSTATEKEY (SerTuple [SerStr event_type, SerStr state_key]) db)"

definition get_or_create_shortstatekey ::
  "bool \<Rightarrow> ('d, 'it) rocksdb \<Rightarrow> bytes \<Rightarrow> bytes \<Rightarrow> 'd server \<Rightarrow> 'd server \<times> (srv_error, u64) result"
where
  "get_or_create_shortstatekey dbg R event_type state_key s =
     or_create (get_shortstatekey dbg R event_type state_key (srv_db s)) (\<lambda>s.
       let key = SerTuple [SerStr event_type, SerStr state_key] in
       st_bind (next_short dbg R s) (\<lambda>short s.
       st_bind (put_ignored (map_put dbg R STATEKEY_SHORTSTATEKEY key (SerU64 short)) s) (\<lambda>_ s.
       st_bind (put_ignored (map_put dbg R SHORTSTATEKEY_STATEKEY (SerU64 short) key) s) (\<lambda>_ s.
         (s, Inr short))))) s"

definition get_statekey_from_short ::
  "bool \<Rightarrow> ('d, 'it) rocksdb \<Rightarrow> u64 \<Rightarrow> 'd database \<Rightarrow> (srv_error, bytes \<times> bytes) result"
where
  "get_statekey_from_short dbg R short db =
     database_error (read_statekey dbg (map_aqry dbg R SHORTSTATEKEY_STATEKEY 8 (SerU64 short) db))"

definition multi_get_statekey_from_short ::
  "bool \<Rightarrow> ('d, 'it) rocksdb \<Rightarrow> u64 list \<Rightarrow> 'd database \<Rightarrow> (db_error, bytes \<times> bytes) result list"
where
  "multi_get_statekey_from_short dbg R shorts db =
     map (read_statekey dbg) (qry_batch dbg R SHORTSTATEKEY_STATEKEY (map SerU64 shorts) db)"

subsection \<open>State hashes and rooms\<close>

definition get_or_create_shortstatehash ::
  "bool \<Rightarrow> ('d, 'it) rocksdb \<Rightarrow> bytes \<Rightarrow> 'd server \<Rightarrow> 'd server \<times> (srv_error, u64 \<times> bool) result"
where
  "get_or_create_shortstatehash dbg R state_hash s =
     (case deserialized_u64 dbg (map_get R STATEHASH_SHORTSTATEHASH state_hash (srv_db s)) of
        Inr short \<Rightarrow> (s, Inr (short, True))
      | Inl e \<Rightarrow>
          if e = DbCodec CodecPanic then (s, Inl SrvPanic)
          else
            st_bind (next_short dbg R s) (\<lambda>short s.
            st_bind (put_ignored (map_raw_aput dbg R STATEHASH_SHORTSTATEHASH 8 state_hash (SerU64 short)) s) (\<lambda>_ s.
              (s, Inr (short, False)))))"

definition get_shortroomid ::
  "bool \<Rightarrow> ('d, 'it) rocksdb \<Rightarrow> bytes \<Rightarrow> 'd database \<Rightarrow> (db_error, u64) result"
where
  "get_shortroomid dbg R room_id db = deserialized_u64 dbg (map_get R ROOMID_SHORTROOMID room_id db)"

definition get_or_create_shortroomid ::
  "bool \<Rightarrow> ('d, 'it) rocksdb \<Rightarrow> bytes \<Rightarrow> 'd server \<Rightarrow> 'd server \<times> (srv_error, u64) result"
where
  "get_or_create_shortroomid dbg R room_id s =
     or_create (deserialized_u64 dbg (map_get R ROOMID_SHORTROOMID room_id (srv_db s))) (\<lambda>s.
       st_bind (next_short dbg R s) (\<lambda>short s.
       st_bind (put_ignored (map_raw_aput dbg R ROOMID_SHORTROOMID 8 room_id (SerU64 short)) s) (\<lambda>_ s.
         (s, Inr short)))) s"

definition delete_shortroomid ::
  "('d, 'it) rocksdb \<Rightarrow> bytes \<Rightarrow> 'd database \<Rightarrow> 'd database \<times> (db_error, unit) result"
where
  "delete_shortroomid R room_id db = map_remove R ROOMID_SHORTROOMID room_id db"

end
