(* ===== verification/Short_Ids_Props.thy ===== *)
theory Short_Ids_Props
  imports Short_Ids
begin

section \<open>What short ids promise\<close>

text \<open>
  A short id belongs to one key, a key keeps its short id, and the way back leads to the key: for any
  sequence of calls, over all four kinds of key, because every number is drawn from one counter.
  \<open>interner\<close> states it for any table of numbers.
\<close>

subsection \<open>Tables that hand out numbers\<close>

fun intern_all ::
  "('k \<Rightarrow> 's \<Rightarrow> 's \<times> ('e, u64) result) \<Rightarrow> 'k list \<Rightarrow> 's \<Rightarrow> 's \<times> ('e, u64 list) result"
where
  "intern_all intern [] s = (s, Inr [])"
| "intern_all intern (k # ks) s =
     st_bind (intern k s) (\<lambda>w s. st_bind (intern_all intern ks s) (\<lambda>ws s. (s, Inr (w # ws))))"

locale interner =
  fixes intern :: "'k \<Rightarrow> 's \<Rightarrow> 's \<times> ('e, u64) result"
    and ids :: "'s \<Rightarrow> 'k \<rightharpoonup> u64"
    and wf :: "'k \<Rightarrow> bool"
    and invar :: "'s \<Rightarrow> bool"
  assumes hit: "invar s \<Longrightarrow> wf k \<Longrightarrow> ids s k = Some w \<Longrightarrow> intern k s = (s, Inr w)"
    and miss: "invar s \<Longrightarrow> wf k \<Longrightarrow> ids s k = None \<Longrightarrow> intern k s = (s', Inr w) \<Longrightarrow>
      invar s' \<and> (\<forall>k'. wf k' \<longrightarrow> ids s' k' = (if k' = k then Some w else ids s k'))"
    and ids_inj: "invar s \<Longrightarrow> wf k \<Longrightarrow> wf k' \<Longrightarrow> ids s k = Some w \<Longrightarrow> ids s k' = Some w \<Longrightarrow> k = k'"
begin

lemma intern_step:
  assumes "invar s" and "wf k" and "intern k s = (s', Inr w)"
  shows "invar s'" "ids s' k = Some w" "wf k' \<Longrightarrow> ids s k' = Some w' \<Longrightarrow> ids s' k' = Some w'"
  using assms hit [of s k] miss [of s k s' w] by (cases "ids s k"; auto)+

lemma intern_all_ids:
  assumes "invar s" and "list_all wf ks" and "intern_all intern ks s = (s', Inr ws)"
  shows "invar s' \<and> map (ids s') ks = map Some ws \<and> (\<forall>k w. wf k \<longrightarrow> ids s k = Some w \<longrightarrow> ids s' k = Some w)"
  using assms
proof (induction ks arbitrary: s ws)
  case (Cons k ks)
  then obtain s1 w us where step: "intern k s = (s1, Inr w)" "intern_all intern ks s1 = (s', Inr us)" "ws = w # us"
    by (auto simp: st_bind_Inr_iff)
  have "wf k" "list_all wf ks" using Cons.prems(2) by simp_all
  with Cons.IH [OF intern_step(1) [OF Cons.prems(1) _ step(1)] _ step(2)]
  show ?case
    using intern_step(2,3) [OF Cons.prems(1) _ step(1)] step(3) by auto
qed simp

lemma intern_all_unique:
  assumes "invar s" and "list_all wf ks" and "intern_all intern ks s = (s', Inr ws)"
  shows "length ws = length ks" and "i < length ks \<Longrightarrow> j < length ks \<Longrightarrow> ws ! i = ws ! j \<longleftrightarrow> ks ! i = ks ! j"
proof -
  note all = intern_all_ids [OF assms]
  then show len: "length ws = length ks" by (metis length_map)
  have nth: "ids s' (ks ! i) = Some (ws ! i)" if "i < length ks" for i
    using all that len by (metis nth_map)
  assume "i < length ks" "j < length ks"
  then show "ws ! i = ws ! j \<longleftrightarrow> ks ! i = ks ! j"
    using nth [of i] nth [of j] ids_inj [of s' "ks ! i" "ks ! j" "ws ! i"] all assms(2)
    by (auto simp: list_all_length)
qed

end

lemma u64_less_succ:
  assumes "(w :: u64) \<noteq> - 1"
  shows "w < w + 1"
proof -
  have "unat w \<noteq> unat (- 1 :: u64)" using assms by (simp add: word_unat_eq_iff [symmetric])
  then have "unat w + 1 < 2 ^ 64"
    using unat_bound [of w] by (simp add: unsigned_minus_1_eq_mask mask_eq_exp_minus_1)
  then show ?thesis by (simp add: word_less_nat_alt unat_word_ariths)
qed

subsection \<open>The codec on short ids\<close>

lemma serialize_u64 [simp]:
  "serialize dbg None (SerU64 w) = Inr (to_be_bytes w)"
  "serialize dbg (Some 8) (SerU64 w) = Inr (to_be_bytes w)"
  by (simp_all add: serialize_def ser_write_def ser_write_all_def debug_assert_def)

lemma serialize_strings [simp]:
  "serialize dbg None (SerTuple [SerStr t, SerStr k]) = Inr (t @ SEP # k)"
  using serialize_tuple [of "[SerStr t, SerStr k]" dbg] by (simp add: serialize_to_vec_def)

lemma from_slice_u64 [simp]: "from_slice dbg F DeU64 (to_be_bytes w) = Inr (VU64 w)"
  using decode_value [of DeU64 "SerU64 w" "VU64 w" "\<lparr>de_buf = to_be_bytes w, de_pos = 0, de_rec = 0, de_seq = False\<rparr>" "[]" dbg F]
  by (simp add: from_slice_def debug_assert_def de_finished_def)

lemma from_slice_string:
  assumes "valid_utf8 e"
  shows "from_slice dbg F DeString e = Inr (VStr e)"
  using decode_value [of DeString "SerStr e" "VStr e" "\<lparr>de_buf = e, de_pos = 0, de_rec = 0, de_seq = False\<rparr>" "[]" dbg F] assms
  by (simp add: from_slice_def debug_assert_def de_finished_def)

lemma from_slice_strings:
  assumes "valid_utf8 t" and "valid_utf8 k"
  shows "from_slice dbg F (DeTuple [DeString, DeString]) (t @ SEP # k) = Inr (VTuple [VStr t, VStr k])"
  using decode_tuple [of "[DeString, DeString]" "[SerStr t, SerStr k]" "[VStr t, VStr k]" dbg F] assms by simp

lemma deserialized_u64_stored [simp]:
  "deserialized_u64 dbg (Inr (to_be_bytes w)) = Inr w"
  "deserialized_u64 dbg (Inl e) = Inl e"
  by (simp_all add: deserialized_u64_def deserialized_def)

lemma short_puts:
  "map_raw_aput dbg R c 8 k (SerU64 w) = map_insert R c k (to_be_bytes w)"
  "map_aput_raw dbg R c 8 (SerU64 w) v = map_insert R c (to_be_bytes w) v"
  "map_put dbg R c (SerTuple [SerStr t, SerStr u]) (SerU64 w) = map_insert R c (t @ SEP # u) (to_be_bytes w)"
  "map_put dbg R c (SerU64 w) (SerTuple [SerStr t, SerStr u]) = map_insert R c (to_be_bytes w) (t @ SEP # u)"
  by (simp_all add: fun_eq_iff map_raw_aput_def map_raw_bput_def map_aput_raw_def map_bput_raw_def
      map_put_def map_bput_def)

subsection \<open>The four tables as one\<close>

datatype short_key = KEvent bytes | KState bytes bytes | KRoom bytes | KHash bytes

fun key_column :: "short_key \<Rightarrow> column" where
  "key_column (KEvent _) = EVENTID_SHORTEVENTID"
| "key_column (KState _ _) = STATEKEY_SHORTSTATEKEY"
| "key_column (KRoom _) = ROOMID_SHORTROOMID"
| "key_column (KHash _) = STATEHASH_SHORTSTATEHASH"

fun key_bytes :: "short_key \<Rightarrow> bytes" where
  "key_bytes (KEvent e) = e"
| "key_bytes (KState t k) = t @ SEP # k"
| "key_bytes (KRoom r) = r"
| "key_bytes (KHash h) = h"

fun back_column :: "short_key \<Rightarrow> column option" where
  "back_column (KEvent _) = Some SHORTEVENTID_EVENTID"
| "back_column (KState _ _) = Some SHORTSTATEKEY_STATEKEY"
| "back_column _ = None"

text \<open>Texts are valid UTF-8 in the source, so the separator does not occur in an event type.\<close>

fun wf_short_key :: "short_key \<Rightarrow> bool" where
  "wf_short_key (KEvent e) = valid_utf8 e"
| "wf_short_key (KState t k) = (valid_utf8 t \<and> valid_utf8 k)"
| "wf_short_key _ = True"

fun intern_short ::
  "bool \<Rightarrow> ('d, 'it) rocksdb \<Rightarrow> short_key \<Rightarrow> 'd server \<Rightarrow> 'd server \<times> (srv_error, u64) result"
where
  "intern_short dbg R (KEvent e) s = get_or_create_shorteventid dbg R e s"
| "intern_short dbg R (KState t k) s = get_or_create_shortstatekey dbg R t k s"
| "intern_short dbg R (KRoom r) s = get_or_create_shortroomid dbg R r s"
| "intern_short dbg R (KHash h) s =
     st_bind (get_or_create_shortstatehash dbg R h s) (\<lambda>(short, _) s. (s, Inr short))"

text \<open>What drawing a number for a key does to the tables.\<close>

type_synonym tables = "column \<Rightarrow> bytes \<rightharpoonup> bytes"

definition put_entry :: "column \<Rightarrow> bytes \<Rightarrow> bytes \<Rightarrow> tables \<Rightarrow> tables" where
  "put_entry c k v m = m(c := (m c)(k \<mapsto> v))"

definition record_short :: "short_key \<Rightarrow> u64 \<Rightarrow> tables \<Rightarrow> tables" where
  "record_short key w m =
     (let m1 = put_entry (key_column key) (key_bytes key) (to_be_bytes w)
                 (put_entry GLOBAL COUNTER (to_be_bytes w) m)
      in case back_column key of
           None \<Rightarrow> m1
         | Some c \<Rightarrow> put_entry c (to_be_bytes w) (key_bytes key) m1)"

definition short_of :: "tables \<Rightarrow> short_key \<rightharpoonup> u64" where
  "short_of m key =
     (case m (key_column key) (key_bytes key) of None \<Rightarrow> None | Some v \<Rightarrow> ok (u64_from_bytes v))"

abbreviation short_tables :: "column set" where
  "short_tables \<equiv> range key_column"

definition counter_stored :: "tables \<Rightarrow> u64 \<Rightarrow> bool" where
  "counter_stored m n \<longleftrightarrow> m GLOBAL COUNTER = Some (to_be_bytes n) \<or> n = 0 \<and> m GLOBAL COUNTER = None"

definition shorts_ok :: "tables \<Rightarrow> u64 \<Rightarrow> bool" where
  "shorts_ok m n \<longleftrightarrow>
     counter_stored m n \<and>
     (\<forall>c \<in> short_tables. \<forall>k v. m c k = Some v \<longrightarrow> (\<exists>w \<le> n. v = to_be_bytes w)) \<and>
     (\<forall>c \<in> short_tables. \<forall>c' \<in> short_tables. \<forall>k k' v.
        m c k = Some v \<longrightarrow> m c' k' = Some v \<longrightarrow> c = c' \<and> k = k') \<and>
     (\<forall>key c v. m (key_column key) (key_bytes key) = Some v \<longrightarrow> back_column key = Some c \<longrightarrow>
        m c v = Some (key_bytes key))"

lemma shorts_okD:
  assumes "shorts_ok m n"
  shows "counter_stored m n"
    "m (key_column key) k = Some v \<Longrightarrow> \<exists>w \<le> n. v = to_be_bytes w"
    "m (key_column key) k = Some v \<Longrightarrow> m (key_column key') k' = Some v \<Longrightarrow> key_column key = key_column key' \<and> k = k'"
    "m (key_column key) (key_bytes key) = Some v \<Longrightarrow> back_column key = Some c \<Longrightarrow> m c v = Some (key_bytes key)"
  using assms unfolding shorts_ok_def by blast+

lemma shorts_okI:
  assumes "counter_stored m n" and "\<And>key k v. m (key_column key) k = Some v \<Longrightarrow> \<exists>w \<le> n. v = to_be_bytes w"
    and "\<And>a b k k' v. m (key_column a) k = Some v \<Longrightarrow> m (key_column b) k' = Some v \<Longrightarrow>
      key_column a = key_column b \<and> k = k'"
    and "\<And>key c v. m (key_column key) (key_bytes key) = Some v \<Longrightarrow> back_column key = Some c \<Longrightarrow>
      m c v = Some (key_bytes key)"
  shows "shorts_ok m n"
  using assms unfolding shorts_ok_def by blast

lemma shorts_ok_cong:
  assumes "shorts_ok m n" and "m' GLOBAL = m GLOBAL" and "\<And>key. m' (key_column key) = m (key_column key)"
    and "\<And>key c. back_column key = Some c \<Longrightarrow> m' c = m c"
  shows "shorts_ok m' n"
proof (rule shorts_okI)
  show "counter_stored m' n" using shorts_okD(1) [OF assms(1)] assms(2) by (simp add: counter_stored_def)
  show "\<exists>w \<le> n. v = to_be_bytes w" if "m' (key_column key) k = Some v" for key k v
    using shorts_okD(2) [OF assms(1), of key k v] that by (simp add: assms(3))
  show "key_column a = key_column b \<and> k = k'" if "m' (key_column a) k = Some v" "m' (key_column b) k' = Some v" for a b k k' v
    using shorts_okD(3) [OF assms(1), of a k v b k'] that by (simp add: assms(3))
  show "m' c v = Some (key_bytes key)" if "m' (key_column key) (key_bytes key) = Some v" "back_column key = Some c" for key c v
    using shorts_okD(4) [OF assms(1), of key v c] that assms(4) [OF that(2)] by (simp add: assms(3))
qed

lemma columns_apart:
  "key_column key \<noteq> GLOBAL"
  "back_column key = Some c \<Longrightarrow> c \<noteq> GLOBAL"
  "back_column key = Some c \<Longrightarrow> key_column key' \<noteq> c"
  "back_column key = Some c \<Longrightarrow> back_column key' = Some c \<Longrightarrow> key_column key = key_column key'"
  by (cases key; cases key'; auto simp: short_columns_defs)+

lemma append_sep_inject:
  "SEP \<notin> set t \<Longrightarrow> SEP \<notin> set t' \<Longrightarrow> t @ SEP # k = t' @ SEP # k' \<longleftrightarrow> t = t' \<and> k = k'"
proof (induction t arbitrary: t')
  case Nil
  then show ?case by (cases t') auto
next
  case (Cons a t)
  then show ?case by (cases t') auto
qed

lemma short_key_inject:
  assumes "wf_short_key key" and "wf_short_key key'" and "key_column key = key_column key'"
    and "key_bytes key = key_bytes key'"
  shows "key = key'"
  using assms by (cases key; cases key') (auto simp: short_columns_defs append_sep_inject dest!: valid_utf8_no_sep)

lemma short_of_Some:
  assumes "shorts_ok m n"
  shows "short_of m key = Some w \<longleftrightarrow> m (key_column key) (key_bytes key) = Some (to_be_bytes w)"
proof (cases "m (key_column key) (key_bytes key)")
  case (Some v)
  then obtain u where "v = to_be_bytes u" using shorts_okD(2) [OF assms] by blast
  with Some show ?thesis by (simp add: short_of_def)
qed (simp add: short_of_def)

lemma short_of_None:
  assumes "shorts_ok m n"
  shows "short_of m key = None \<longleftrightarrow> m (key_column key) (key_bytes key) = None"
  using short_of_Some [OF assms, of key] shorts_okD(2) [OF assms, of key "key_bytes key"]
  by (cases "m (key_column key) (key_bytes key)"; cases "short_of m key") auto

lemma record_short_apply:
  "record_short key w m (key_column key') k =
     (if key_column key' = key_column key \<and> k = key_bytes key then Some (to_be_bytes w) else m (key_column key') k)"
  using columns_apart(1) [of key'] columns_apart(3) [of key _ key']
  by (auto simp: record_short_def put_entry_def Let_def split: option.split)

lemma record_short_back:
  assumes "back_column key' = Some c"
  shows "record_short key w m c v =
    (if back_column key = Some c \<and> v = to_be_bytes w then Some (key_bytes key) else m c v)"
  using assms columns_apart(2,3) [OF assms]
  by (auto simp: record_short_def put_entry_def Let_def split: option.split)

lemma record_short_counter [simp]: "record_short key w m GLOBAL COUNTER = Some (to_be_bytes w)"
  using columns_apart(1) [of key] columns_apart(2) [of key]
  by (auto simp: record_short_def put_entry_def Let_def split: option.split)

lemma record_short_ok:
  assumes inv: "shorts_ok m n" and above: "n < w"
  shows "shorts_ok (record_short key w m) w"
proof -
  have fresh: "m (key_column key') k \<noteq> Some (to_be_bytes w)" for key' k
    using shorts_okD(2) [OF inv, of key' k "to_be_bytes w"] above by auto
  have "counter_stored (record_short key w m) w" by (simp add: counter_stored_def)
  moreover have "\<exists>u \<le> w. v = to_be_bytes u" if "record_short key w m (key_column key') k = Some v" for key' k v
    using that shorts_okD(2) [OF inv, of key' k v] above
    by (auto simp: record_short_apply split: if_splits intro: order_trans less_imp_le)
  moreover have "key_column a = key_column b \<and> k = k'"
    if "record_short key w m (key_column a) k = Some v" "record_short key w m (key_column b) k' = Some v" for a b k k' v
    using that fresh shorts_okD(3) [OF inv, of a k v b k'] by (auto simp: record_short_apply split: if_splits)
  moreover have "record_short key w m c v = Some (key_bytes a)"
    if a: "record_short key w m (key_column a) (key_bytes a) = Some v" "back_column a = Some c" for a c v
  proof (cases "key_column a = key_column key \<and> key_bytes a = key_bytes key")
    case True
    then have "back_column key = Some c" using a(2) by (cases a; cases key) (auto simp: short_columns_defs)
    then show ?thesis using a True by (simp add: record_short_apply record_short_back [OF a(2)])
  next
    case False
    then have old: "m (key_column a) (key_bytes a) = Some v" using a(1) by (auto simp: record_short_apply split: if_splits)
    then have "v \<noteq> to_be_bytes w" using fresh by blast
    then show ?thesis using shorts_okD(4) [OF inv old a(2)] by (simp add: record_short_back [OF a(2)])
  qed
  ultimately show ?thesis unfolding shorts_ok_def by blast
qed

lemma short_of_record:
  assumes "shorts_ok m n" and "n < w" and "wf_short_key key" and "wf_short_key key'"
  shows "short_of (record_short key w m) key' = (if key' = key then Some w else short_of m key')"
  using short_key_inject [OF assms(3,4)] by (auto simp: short_of_def record_short_apply)

subsection \<open>The operations implement it\<close>

locale rocks_io = rocks R contents ahead
  for R :: "('d, 'it) rocksdb" and contents and ahead +
  fixes dbg :: bool
  assumes io: "io_ok R"
begin

abbreviation srv_tables :: "'d server \<Rightarrow> tables" where
  "srv_tables s \<equiv> contents (eng_db (srv_db s))"

lemma insert_effect:
  "\<exists>db'. map_insert R c k v db = (db', Inr ()) \<and> contents (eng_db db') = put_entry c k v (contents (eng_db db))"
  using map_insert_ok [OF io, of c k v db] kv.insert_ok by (auto simp: put_entry_def)

lemma put_ignored_insert:
  "\<exists>s'. put_ignored (map_insert R c k v) s = (s', Inr ()) \<and> srv_count s' = srv_count s \<and>
     srv_tables s' = put_entry c k v (srv_tables s)"
  using insert_effect [of c k v "srv_db s"] by (auto simp: put_ignored_def)

lemma get_table: "map_get R c k db = ok_or DbNotFound (contents (eng_db db) c k)"
  by (rule map_get_ok [OF io])

lemma get_blocking_table: "map_get_blocking R c k db = ok_or DbNotFound (contents (eng_db db) c k)"
  using io_okD(5) [OF io, of "eng_db db" c k] get_law [of "eng_db db" c k]
  by (auto simp: map_get_blocking_def handle_from_def)

lemma stored_count_table:
  assumes "counter_stored (contents (eng_db db)) n"
  shows "stored_count R db = Inr n"
  using assms by (auto simp: counter_stored_def stored_count_def get_blocking_table)

lemma next_short_ok:
  assumes "counter_stored (srv_tables s) (srv_count s)" and "srv_count s \<noteq> - 1"
  shows "\<exists>s'. next_short dbg R s = (s', Inr (srv_count s + 1)) \<and> srv_count s' = srv_count s + 1 \<and>
    srv_tables s' = put_entry GLOBAL COUNTER (to_be_bytes (srv_count s + 1)) (srv_tables s)"
proof -
  have "count_matches dbg R s" by (simp add: count_matches_def stored_count_table [OF assms(1)])
  then obtain s' where drawn: "server_counter_next dbg R s = (s', Inr (srv_count s + 1))"
      "srv_count s' = srv_count s + 1"
    using server_next_ok [OF io _ assms(2)] by blast
  obtain db where db: "srv_db s' = engine_uncork db"
      "map_insert R GLOBAL COUNTER (to_be_bytes (srv_count s + 1)) (engine_cork (srv_db s)) = (db, Inr ())"
    using drawn(1) by (cases rule: server_counter_next_cases) auto
  show ?thesis
    using drawn db insert_effect [of GLOBAL COUNTER "to_be_bytes (srv_count s + 1)" "engine_cork (srv_db s)"]
    by (auto simp: next_short_def)
qed

lemma next_short_fails:
  assumes "srv_count s = - 1"
  shows "next_short dbg R s = (s, Inl SrvPanic)"
  using assms
  by (auto simp: next_short_def server_counter_next_def cork_new_def checked_add_def
      unsigned_minus_1_eq_mask mask_eq_exp_minus_1)

lemma intern_short_hit:
  assumes "srv_tables s (key_column key) (key_bytes key) = Some (to_be_bytes w)"
  shows "intern_short dbg R key s = (s, Inr w)"
  using assms
  by (cases key)
    (simp_all add: get_or_create_shorteventid_def get_shorteventid_def or_create_def get_table
      get_or_create_shortstatekey_def get_shortstatekey_def map_qry_def map_bqry_def
      get_or_create_shortroomid_def get_or_create_shortstatehash_def)

lemma create_pair:
  assumes "counter_stored (srv_tables s) (srv_count s)" and "srv_count s \<noteq> - 1"
  shows "\<exists>s'. st_bind (next_short dbg R s) (\<lambda>short s.
      st_bind (put_ignored (map_insert R c k (to_be_bytes short)) s) (\<lambda>_ s.
      st_bind (put_ignored (map_insert R c' (to_be_bytes short) v) s) (\<lambda>_ s. (s, Inr short)))) =
      (s', Inr (srv_count s + 1)) \<and> srv_count s' = srv_count s + 1 \<and>
    srv_tables s' = put_entry c' (to_be_bytes (srv_count s + 1)) v (put_entry c k (to_be_bytes (srv_count s + 1))
      (put_entry GLOBAL COUNTER (to_be_bytes (srv_count s + 1)) (srv_tables s)))"
proof -
  let ?w = "srv_count s + 1"
  obtain s1 where s1: "next_short dbg R s = (s1, Inr ?w)" "srv_count s1 = ?w"
      "srv_tables s1 = put_entry GLOBAL COUNTER (to_be_bytes ?w) (srv_tables s)"
    using next_short_ok [OF assms] by blast
  obtain s2 where s2: "put_ignored (map_insert R c k (to_be_bytes ?w)) s1 = (s2, Inr ())" "srv_count s2 = ?w"
      "srv_tables s2 = put_entry c k (to_be_bytes ?w) (srv_tables s1)"
    using put_ignored_insert [of c k "to_be_bytes ?w" s1] s1(2) by auto
  show ?thesis
    using put_ignored_insert [of c' "to_be_bytes ?w" v s2] s1 s2 by auto
qed

lemma create_single:
  assumes "counter_stored (srv_tables s) (srv_count s)" and "srv_count s \<noteq> - 1"
  shows "\<exists>s'. st_bind (next_short dbg R s) (\<lambda>short s.
      st_bind (put_ignored (map_insert R c k (to_be_bytes short)) s) (\<lambda>_ s. (s, Inr (f short)))) =
      (s', Inr (f (srv_count s + 1))) \<and> srv_count s' = srv_count s + 1 \<and>
    srv_tables s' = put_entry c k (to_be_bytes (srv_count s + 1))
      (put_entry GLOBAL COUNTER (to_be_bytes (srv_count s + 1)) (srv_tables s))"
proof -
  let ?w = "srv_count s + 1"
  obtain s1 where s1: "next_short dbg R s = (s1, Inr ?w)" "srv_count s1 = ?w"
      "srv_tables s1 = put_entry GLOBAL COUNTER (to_be_bytes ?w) (srv_tables s)"
    using next_short_ok [OF assms] by blast
  show ?thesis
    using put_ignored_insert [of c k "to_be_bytes ?w" s1] s1 by auto
qed

lemma statehash_hit:
  assumes "srv_tables s STATEHASH_SHORTSTATEHASH h = Some (to_be_bytes w)"
  shows "get_or_create_shortstatehash dbg R h s = (s, Inr (w, True))"
  using assms by (simp add: get_or_create_shortstatehash_def get_table)

lemma statehash_miss:
  assumes "counter_stored (srv_tables s) (srv_count s)" and "srv_count s \<noteq> - 1"
    and "srv_tables s STATEHASH_SHORTSTATEHASH h = None"
  shows "\<exists>s'. get_or_create_shortstatehash dbg R h s = (s', Inr (srv_count s + 1, False)) \<and>
    srv_count s' = srv_count s + 1 \<and> srv_tables s' = record_short (KHash h) (srv_count s + 1) (srv_tables s)"
  using assms(3) create_single [OF assms(1,2), of STATEHASH_SHORTSTATEHASH h "\<lambda>w. (w, False)"]
  by (auto simp: get_or_create_shortstatehash_def get_table short_puts record_short_def)

lemma intern_short_miss:
  assumes "counter_stored (srv_tables s) (srv_count s)" and "srv_count s \<noteq> - 1"
    and "srv_tables s (key_column key) (key_bytes key) = None"
  shows "\<exists>s'. intern_short dbg R key s = (s', Inr (srv_count s + 1)) \<and> srv_count s' = srv_count s + 1 \<and>
    srv_tables s' = record_short key (srv_count s + 1) (srv_tables s)"
proof (cases key)
  case (KEvent e)
  then show ?thesis
    using assms(3) create_pair [OF assms(1,2)]
    by (simp add: get_or_create_shorteventid_def get_shorteventid_def or_create_def get_table
        create_shorteventid_def short_puts record_short_def)
next
  case (KState t k)
  then show ?thesis
    using assms(3) create_pair [OF assms(1,2)]
    by (simp add: get_or_create_shortstatekey_def get_shortstatekey_def map_qry_def map_bqry_def or_create_def
        get_table short_puts record_short_def)
next
  case (KRoom r)
  then show ?thesis
    using assms(3) create_single [OF assms(1,2), of _ _ "\<lambda>w. w"]
    by (simp add: get_or_create_shortroomid_def or_create_def get_table short_puts record_short_def)
next
  case (KHash h)
  then show ?thesis using statehash_miss [OF assms(1,2), of h] assms(3) by auto
qed

end

context rocks_io
begin

lemma intern_short_exhausted:
  assumes "srv_count s = - 1" and "srv_tables s (key_column key) (key_bytes key) = None"
  shows "intern_short dbg R key s = (s, Inl SrvPanic)"
  using assms(2) next_short_fails [OF assms(1)]
  by (cases key)
    (simp_all add: get_or_create_shorteventid_def get_shorteventid_def create_shorteventid_def or_create_def get_table
      get_or_create_shortstatekey_def get_shortstatekey_def map_qry_def map_bqry_def
      get_or_create_shortroomid_def get_or_create_shortstatehash_def)

lemma intern_short_step:
  assumes inv: "shorts_ok (srv_tables s) (srv_count s)" and miss: "short_of (srv_tables s) key = None"
    and room: "srv_count s \<noteq> - 1"
  shows "\<exists>s'. intern_short dbg R key s = (s', Inr (srv_count s + 1)) \<and> srv_count s' = srv_count s + 1 \<and>
    srv_count s < srv_count s + 1 \<and> srv_tables s' = record_short key (srv_count s + 1) (srv_tables s)"
proof -
  have "srv_count s < srv_count s + 1"
    using room by (rule u64_less_succ)
  moreover have "srv_tables s (key_column key) (key_bytes key) = None"
    using miss short_of_None [OF inv] by blast
  ultimately show ?thesis using intern_short_miss [OF shorts_okD(1) [OF inv] room] by blast
qed

end

sublocale rocks_io \<subseteq> shorts: interner "intern_short dbg R" "\<lambda>s. short_of (contents (eng_db (srv_db s)))"
  wf_short_key "\<lambda>s. shorts_ok (contents (eng_db (srv_db s))) (srv_count s)"
proof
  fix s s' k k' w
  assume inv: "shorts_ok (srv_tables s) (srv_count s)"
  show "short_of (srv_tables s) k = Some w \<Longrightarrow> intern_short dbg R k s = (s, Inr w)"
    using short_of_Some [OF inv] intern_short_hit by blast
  show "short_of (srv_tables s) k = Some w \<Longrightarrow> short_of (srv_tables s) k' = Some w \<Longrightarrow>
      wf_short_key k \<Longrightarrow> wf_short_key k' \<Longrightarrow> k = k'"
    using short_of_Some [OF inv] shorts_okD(3) [OF inv] short_key_inject by blast
  assume wf: "wf_short_key k" and miss: "short_of (srv_tables s) k = None"
    and ran: "intern_short dbg R k s = (s', Inr w)"
  have room: "srv_count s \<noteq> - 1"
    using intern_short_exhausted [of s k] ran miss short_of_None [OF inv, of k] by auto
  then have "w = srv_count s + 1" "srv_count s' = w" "srv_count s < w"
      "srv_tables s' = record_short k w (srv_tables s)"
    using intern_short_step [OF inv miss room] ran by auto
  then show "shorts_ok (srv_tables s') (srv_count s') \<and>
      (\<forall>k'. wf_short_key k' \<longrightarrow> short_of (srv_tables s') k' = (if k' = k then Some w else short_of (srv_tables s) k'))"
    using record_short_ok [OF inv] short_of_record [OF inv _ wf] by simp
qed

context rocks_io
begin

lemma intern_all_total:
  assumes "shorts_ok (srv_tables s) (srv_count s)" and "list_all wf_short_key ks"
    and "unat (srv_count s) + length ks < 2 ^ 64"
  shows "\<exists>s' ws. intern_all (intern_short dbg R) ks s = (s', Inr ws)"
  using assms
proof (induction ks arbitrary: s)
  case (Cons k ks)
  have room: "srv_count s \<noteq> - 1"
    using Cons.prems(3) by (auto simp: unsigned_minus_1_eq_mask mask_eq_exp_minus_1)
  obtain s1 w where step: "intern_short dbg R k s = (s1, Inr w)" "unat (srv_count s1) \<le> unat (srv_count s) + 1"
  proof (cases "short_of (srv_tables s) k")
    case None
    then obtain s1 where "intern_short dbg R k s = (s1, Inr (srv_count s + 1))" "srv_count s1 = srv_count s + 1"
      using intern_short_step [OF Cons.prems(1) _ room] by blast
    then show ?thesis using that [of s1] by (simp add: unat_word_ariths(1) le_trans [OF mod_less_eq_dividend])
  next
    case (Some w)
    then show ?thesis using that shorts.hit [OF Cons.prems(1) _ Some] Cons.prems(2) by simp
  qed
  have "shorts_ok (srv_tables s1) (srv_count s1)"
    using shorts.intern_step(1) [OF Cons.prems(1) _ step(1)] Cons.prems(2) by simp
  then show ?case
    using Cons.IH [of s1] Cons.prems(2,3) step by auto
qed simp

lemma eventid_from_short_table:
  assumes "contents (eng_db db) SHORTEVENTID_EVENTID (to_be_bytes w) = Some e" and "valid_utf8 e" and "accept e"
  shows "get_eventid_from_short dbg R accept w db = Inr e"
  using assms
  by (simp add: get_eventid_from_short_def database_error_def read_eventid_def deserialized_def map_aqry_def map_bqry_def
      get_table from_slice_string)

lemma statekey_from_short_table:
  assumes "contents (eng_db db) SHORTSTATEKEY_STATEKEY (to_be_bytes w) = Some (t @ SEP # k)"
    and "valid_utf8 t" and "valid_utf8 k"
  shows "get_statekey_from_short dbg R w db = Inr (t, k)"
  using assms
  by (simp add: get_statekey_from_short_def database_error_def read_statekey_def deserialized_def map_aqry_def
      map_bqry_def get_table from_slice_strings)

lemma intern_run:
  assumes "shorts_ok (srv_tables s) (srv_count s)" and "list_all wf_short_key ks"
    and "intern_all (intern_short dbg R) ks s = (s', Inr ws)"
  shows "length ws = length ks" "i < length ks \<Longrightarrow> j < length ks \<Longrightarrow> ws ! i = ws ! j \<longleftrightarrow> ks ! i = ks ! j"
    "wf_short_key k \<Longrightarrow> short_of (srv_tables s) k = Some w \<Longrightarrow> intern_short dbg R k s' = (s', Inr w)"
    "shorts_ok (srv_tables s') (srv_count s')" "i < length ks \<Longrightarrow> short_of (srv_tables s') (ks ! i) = Some (ws ! i)"
proof -
  note ids = shorts.intern_all_ids [OF assms]
  show "length ws = length ks" "i < length ks \<Longrightarrow> j < length ks \<Longrightarrow> ws ! i = ws ! j \<longleftrightarrow> ks ! i = ks ! j"
    using shorts.intern_all_unique [OF assms] by blast+
  show "shorts_ok (srv_tables s') (srv_count s')" using ids by blast
  show "wf_short_key k \<Longrightarrow> short_of (srv_tables s) k = Some w \<Longrightarrow> intern_short dbg R k s' = (s', Inr w)"
    using ids shorts.hit by blast
  show "i < length ks \<Longrightarrow> short_of (srv_tables s') (ks ! i) = Some (ws ! i)"
    using ids by (metis length_map nth_map)
qed

lemma short_resolves:
  assumes inv: "shorts_ok (srv_tables s) (srv_count s)" and id: "short_of (srv_tables s) key = Some w"
    and wf: "wf_short_key key"
  shows "key = KEvent e \<Longrightarrow> accept e \<Longrightarrow> get_eventid_from_short dbg R accept w (srv_db s) = Inr e"
    "key = KState t k \<Longrightarrow> get_statekey_from_short dbg R w (srv_db s) = Inr (t, k)"
  using shorts_okD(4) [OF inv, of key "to_be_bytes w"] id [unfolded short_of_Some [OF inv]] wf
    eventid_from_short_table [of "srv_db s" w e accept] statekey_from_short_table [of "srv_db s" w t k]
  by auto

end

text \<open>
  For distinct events the batch does what single calls in the order of the stream do, however its lookups
  are grouped.
\<close>

lemma st_bind_assoc: "st_bind (st_bind m f) g = st_bind m (\<lambda>a s. st_bind (f a s) g)"
  by (cases m; cases "snd m") auto

lemma intern_all_append:
  "intern_all f (xs @ ys) s =
     st_bind (intern_all f xs s) (\<lambda>us s. st_bind (intern_all f ys s) (\<lambda>vs s. (s, Inr (us @ vs))))"
proof (induction xs arbitrary: s)
  case Nil
  then show ?case by (cases "intern_all f ys s"; cases "snd (intern_all f ys s)") auto
qed (simp add: st_bind_assoc)

context rocks_io
begin

lemma create_missing_sequential:
  assumes "shorts_ok (srv_tables s) (srv_count s)" and "distinct es" and "list_all valid_utf8 es"
    and "\<forall>e \<in> set es. srv_tables s EVENTID_SHORTEVENTID e = contents (eng_db db) EVENTID_SHORTEVENTID e"
  shows "create_missing dbg R (zip (map_get_batch R EVENTID_SHORTEVENTID es db) es) s =
    intern_all (get_or_create_shorteventid dbg R) es s"
  using assms
proof (induction es arbitrary: s)
  case (Cons e es)
  have step: "(case map_get_blocking R EVENTID_SHORTEVENTID e db of
        Inr short \<Rightarrow> (s, ok_or SrvPanic (u64_from_u8 short))
      | Inl _ \<Rightarrow> create_shorteventid dbg R e s) = get_or_create_shorteventid dbg R e s"
    using Cons.prems(4) shorts_okD(2) [OF Cons.prems(1), of "KEvent e" e]
    by (cases "contents (eng_db db) EVENTID_SHORTEVENTID e")
      (auto simp: get_or_create_shorteventid_def get_shorteventid_def or_create_def get_table get_blocking_table)
  have rest: "create_missing dbg R (zip (map_get_batch R EVENTID_SHORTEVENTID es db) es) s1 =
      intern_all (get_or_create_shorteventid dbg R) es s1"
    if "get_or_create_shorteventid dbg R e s = (s1, Inr w)" for s1 w
  proof (rule Cons.IH)
    have wf: "wf_short_key (KEvent e)" and run: "intern_short dbg R (KEvent e) s = (s1, Inr w)"
      using that Cons.prems(3) by simp_all
    show inv1: "shorts_ok (srv_tables s1) (srv_count s1)"
      by (rule shorts.intern_step(1) [OF Cons.prems(1) wf run])
    show "\<forall>e' \<in> set es. srv_tables s1 EVENTID_SHORTEVENTID e' = contents (eng_db db) EVENTID_SHORTEVENTID e'"
    proof
      fix e' assume e': "e' \<in> set es"
      then have "e' \<noteq> e" using Cons.prems(2) by auto
      have "srv_tables s1 EVENTID_SHORTEVENTID e' = srv_tables s EVENTID_SHORTEVENTID e'"
      proof (cases "short_of (srv_tables s) (KEvent e)")
        case None
        moreover have "srv_count s \<noteq> - 1"
          using run intern_short_exhausted [of s "KEvent e"] None short_of_None [OF Cons.prems(1)] by fastforce
        ultimately show ?thesis
          using intern_short_step [OF Cons.prems(1) None] run record_short_apply [of "KEvent e" _ _ "KEvent e'" e'] \<open>e' \<noteq> e\<close>
          by auto
      next
        case (Some u)
        then show ?thesis using shorts.hit [OF Cons.prems(1) wf Some] run by simp
      qed
      then show "srv_tables s1 EVENTID_SHORTEVENTID e' = contents (eng_db db) EVENTID_SHORTEVENTID e'"
        using Cons.prems(4) e' by simp
    qed
  qed (use Cons.prems in auto)
  show ?case
    using rest
    by (cases "get_or_create_shorteventid dbg R e s"; cases "snd (get_or_create_shorteventid dbg R e s)")
      (auto simp: map_get_batch_def step)
qed (simp add: map_get_batch_def)

lemma multi_sequential:
  assumes "shorts_ok (srv_tables s) (srv_count s)" and "distinct (concat groups)"
    and "list_all valid_utf8 (concat groups)"
  shows "multi_get_or_create_shorteventid dbg R groups s =
    intern_all (get_or_create_shorteventid dbg R) (concat groups) s"
  using assms
proof (induction groups arbitrary: s)
  case (Cons es groups)
  have first: "create_missing dbg R (zip (map_get_batch R EVENTID_SHORTEVENTID es (srv_db s)) es) s =
      intern_all (get_or_create_shorteventid dbg R) es s"
    by (rule create_missing_sequential) (use Cons.prems in auto)
  have as_short: "intern_all (get_or_create_shorteventid dbg R) es = intern_all (intern_short dbg R) (map KEvent es)" for es
    by (induction es) (auto simp: fun_eq_iff)
  have "shorts_ok (srv_tables s1) (srv_count s1)"
    if "intern_all (get_or_create_shorteventid dbg R) es s = (s1, Inr ws)" for s1 ws
    using shorts.intern_all_ids [OF Cons.prems(1), of "map KEvent es" s1 ws] that Cons.prems(3)
    by (simp add: as_short list_all_iff)
  then show ?case
    using Cons.IH Cons.prems
    by (cases "intern_all (get_or_create_shorteventid dbg R) es s";
        cases "snd (intern_all (get_or_create_shorteventid dbg R) es s)")
      (auto simp: first intern_all_append)
qed simp

lemma delete_shortroomid_ok:
  assumes "shorts_ok (contents (eng_db db)) n"
  shows "\<exists>db'. delete_shortroomid R r db = (db', Inr ()) \<and> shorts_ok (contents (eng_db db')) n \<and>
    short_of (contents (eng_db db')) = (short_of (contents (eng_db db)))(KRoom r := None)"
proof -
  obtain db' where db': "delete_shortroomid R r db = (db', Inr ())"
      "contents (eng_db db') = apply_op (contents (eng_db db)) (BatchDelete ROOMID_SHORTROOMID r)"
    using map_remove_ok [OF io] by (metis delete_shortroomid_def)
  have table: "contents (eng_db db') (key_column key) k =
      (if key_column key = ROOMID_SHORTROOMID \<and> k = r then None else contents (eng_db db) (key_column key) k)" for key k
    by (simp add: db'(2))
  have kept: "contents (eng_db db') c = contents (eng_db db) c" if "c = GLOBAL \<or> back_column key = Some c" for c key
    using that columns_apart(1) [of "KRoom r"] columns_apart(3) [of key c "KRoom r"] by (auto simp: db'(2))
  have old: "contents (eng_db db) (key_column key) k = Some v" if "contents (eng_db db') (key_column key) k = Some v" for key k v
    using that by (auto simp: table split: if_splits)
  have "counter_stored (contents (eng_db db')) n"
    using shorts_okD(1) [OF assms] kept [of GLOBAL] by (simp add: counter_stored_def)
  moreover have "contents (eng_db db') c v = Some (key_bytes key)"
    if "contents (eng_db db') (key_column key) (key_bytes key) = Some v" "back_column key = Some c" for key c v
    using shorts_okD(4) [OF assms old [OF that(1)] that(2)] kept [of c key] that(2) by simp
  ultimately have "shorts_ok (contents (eng_db db')) n"
    using shorts_okD(2,3) [OF assms old] old unfolding shorts_ok_def by blast
  moreover have "short_of (contents (eng_db db')) key = ((short_of (contents (eng_db db)))(KRoom r := None)) key" for key
    by (cases key) (auto simp: short_of_def db'(2) short_columns_defs)
  ultimately show ?thesis using db'(1) by blast
qed

end

text \<open>
  C12: Short ids name one key each. Over any sequence of calls, for events, state keys, rooms and state hashes
  mixed, every call returns as long as the counter does not run out; two calls get the same number exactly
  when they ask for the same key; and a number a key had before stays its number.
\<close>

theorem short_ids_unique:
  assumes "rocks_io R contents ahead" and "shorts_ok (contents (eng_db (srv_db s))) (srv_count s)"
    and "list_all wf_short_key ks" and "unat (srv_count s) + length ks < 2 ^ 64"
  shows "\<exists>s' ws. intern_all (intern_short dbg R) ks s = (s', Inr ws) \<and> length ws = length ks \<and>
    (\<forall>i j. i < length ks \<longrightarrow> j < length ks \<longrightarrow> (ws ! i = ws ! j \<longleftrightarrow> ks ! i = ks ! j)) \<and>
    (\<forall>k w. wf_short_key k \<longrightarrow> short_of (contents (eng_db (srv_db s))) k = Some w \<longrightarrow>
       intern_short dbg R k s' = (s', Inr w))"
  using rocks_io.intern_all_total [OF assms, of dbg] rocks_io.intern_run(1-3) [OF assms(1-3)] by blast

text \<open>
  C17: The way back leads to the key: whatever else is interned before or after, the number handed out for an
  event reads back as this event id and the number of a state key as this type and key.
\<close>

theorem short_ids_resolve:
  assumes "rocks_io R contents ahead" and "shorts_ok (contents (eng_db (srv_db s))) (srv_count s)"
    and "list_all wf_short_key ks" and "intern_all (intern_short dbg R) ks s = (s', Inr ws)" and "i < length ks"
  shows "(\<forall>e. ks ! i = KEvent e \<and> accept e \<longrightarrow> get_eventid_from_short dbg R accept (ws ! i) (srv_db s') = Inr e) \<and>
    (\<forall>t k. ks ! i = KState t k \<longrightarrow> get_statekey_from_short dbg R (ws ! i) (srv_db s') = Inr (t, k))"
proof -
  note run = rocks_io.intern_run(4,5) [OF assms(1-4)]
  have "wf_short_key (ks ! i)" using assms(3,5) by (simp add: list_all_length)
  with rocks_io.short_resolves [OF assms(1) run(1) run(2) [OF assms(5)]] show ?thesis by blast
qed

interpretation mem_io: rocks_io mem_rocks mem_contents mem_ahead dbg for dbg
  by unfold_locales (rule mem_io_ok)

lemma empty_server_ok: "shorts_ok (mem_contents (eng_db (srv_db sample_server))) (srv_count sample_server)"
  by (simp add: shorts_ok_def counter_stored_def sample_server_def empty_db_def mem_contents_def)

theorem short_ids_unique_witness:
  "\<exists>s a b c d. intern_all (intern_short True mem_rocks)
       [KEvent [0x24, 0x61], KState [0x6D] [], KRoom [0x24, 0x61], KEvent [0x24, 0x61]] sample_server =
       (s, Inr [a, b, c, d]) \<and> a = d \<and> a \<noteq> b \<and> a \<noteq> c \<and> b \<noteq> c"
proof -
  let ?ks = "[KEvent [0x24, 0x61], KState [0x6D] [], KRoom [0x24, 0x61], KEvent [0x24, 0x61]]"
  obtain s ws where run: "intern_all (intern_short True mem_rocks) ?ks sample_server = (s, Inr ws)" "length ws = length ?ks"
    and eq: "\<And>i j. i < length ?ks \<Longrightarrow> j < length ?ks \<Longrightarrow> ws ! i = ws ! j \<longleftrightarrow> ?ks ! i = ?ks ! j"
    using short_ids_unique [OF mem_io.rocks_io_axioms empty_server_ok, of ?ks True]
    by (auto simp: sample_server_def)
  obtain a b c d where ws: "ws = [a, b, c, d]"
    using run(2) by (auto simp: length_Suc_conv)
  have "a = d" "a \<noteq> b" "a \<noteq> c" "b \<noteq> c"
    using eq [of 0 3] eq [of 0 1] eq [of 0 2] eq [of 1 2] unfolding ws by simp_all
  then show ?thesis using run(1) ws by blast
qed

theorem short_ids_resolve_witness:
  "\<exists>s a b. intern_all (intern_short True mem_rocks) [KEvent [0x24, 0x61], KState [0x6D] []] sample_server =
       (s, Inr [a, b]) \<and>
     get_eventid_from_short True mem_rocks (\<lambda>e. hd e = 0x24) a (srv_db s) = Inr [0x24, 0x61] \<and>
     get_statekey_from_short True mem_rocks b (srv_db s) = Inr ([0x6D], [])"
proof -
  let ?ks = "[KEvent [0x24, 0x61], KState [0x6D] []]"
  have wf: "list_all wf_short_key ?ks" by simp
  obtain s ws where run: "intern_all (intern_short True mem_rocks) ?ks sample_server = (s, Inr ws)"
    using mem_io.intern_all_total [OF empty_server_ok wf, of True] by (auto simp: sample_server_def)
  have "length ws = length ?ks" using mem_io.intern_run(1) [OF empty_server_ok wf run] .
  then obtain a b where ws: "ws = [a, b]" by (auto simp: length_Suc_conv)
  show ?thesis
    using run short_ids_resolve [OF mem_io.rocks_io_axioms empty_server_ok wf run, of 0 "\<lambda>e. hd e = 0x24"]
      short_ids_resolve [OF mem_io.rocks_io_axioms empty_server_ok wf run, of 1] unfolding ws by auto
qed

end
