(* ===== verification/State_Compressor.thy ===== *)
theory State_Compressor
  imports Short_Ids "HOL-Library.FSet"
begin

section \<open>Compressed room states\<close>

text \<open>
  \<open>rooms/state_compressor/mod.rs\<close> of \<open>phantom-service\<close>: a room state is a set of entries of sixteen bytes, the
  short id of a state key followed by the short id of its event. A state is stored as the difference to
  a parent state, or to nothing; reading it walks the parents, through a cache of what was read before.
  The \<open>BTreeSet\<close> of the source is a finite set, listed in order where the source iterates over it. The
  cache is the crate \<open>lru_cache\<close> and the hash is \<open>ring\<close>'s SHA-256: both are parameters. \<open>usize\<close> values
  are natural numbers with the overflow checks written out.
\<close>

type_synonym compressed_state = "bytes fset"

record state_diff =
  diff_parent :: "u64 option"
  diff_added :: compressed_state
  diff_removed :: compressed_state

record short_state_info =
  info_hash :: u64
  full_state :: compressed_state
  info_added :: compressed_state
  info_removed :: compressed_state

record compressed_result =
  res_hash :: u64
  res_added :: compressed_state
  res_removed :: compressed_state

record 'c lru =
  lru_get_mut :: "'c \<Rightarrow> u64 \<Rightarrow> short_state_info list option \<times> 'c"
  lru_insert :: "'c \<Rightarrow> u64 \<Rightarrow> short_state_info list \<Rightarrow> 'c"
  lru_clear :: "'c \<Rightarrow> 'c"

record ('d, 'c) compressor =
  cmp_srv :: "'d server"
  stateinfo_cache :: 'c

definition SHORTSTATEHASH_STATEDIFF :: column where
  "SHORTSTATEHASH_STATEDIFF = ''shortstatehash_statediff''"

definition ROOMID_SHORTSTATEHASH :: column where
  "ROOMID_SHORTSTATEHASH = ''roomid_shortstatehash''"

definition clear_cache :: "'c lru \<Rightarrow> ('d, 'c) compressor \<Rightarrow> ('d, 'c) compressor" where
  "clear_cache L s = s\<lparr>stateinfo_cache := lru_clear L (stateinfo_cache s)\<rparr>"

subsection \<open>Entries\<close>

definition compress_state_event :: "u64 \<Rightarrow> u64 \<Rightarrow> bytes" where
  "compress_state_event shortstatekey short = to_be_bytes shortstatekey @ to_be_bytes short"

text \<open>\<open>None\<close> is the panic of \<open>u64_from_u8\<close>.\<close>

definition parse_compressed_state_event :: "bytes \<Rightarrow> (u64 \<times> u64) option" where
  "parse_compressed_state_event e =
     (case (u64_from_u8 (take 8 e), u64_from_u8 (drop 8 e)) of
        (Some k, Some i) \<Rightarrow> Some (k, i)
      | _ \<Rightarrow> None)"

definition service_compress_state_event ::
  "bool \<Rightarrow> ('d, 'it) rocksdb \<Rightarrow> u64 \<Rightarrow> bytes \<Rightarrow> 'd server \<Rightarrow> 'd server \<times> (srv_error, bytes) result"
where
  "service_compress_state_event dbg R shortstatekey event_id s =
     st_bind (get_or_create_shorteventid dbg R event_id s) (\<lambda>short s.
       (s, Inr (compress_state_event shortstatekey short)))"

definition compress_state_events ::
  "bool \<Rightarrow> ('d, 'it) rocksdb \<Rightarrow> (u64 \<times> bytes) list list \<Rightarrow> 'd server \<Rightarrow> 'd server \<times> (srv_error, bytes list) result"
where
  "compress_state_events dbg R groups s =
     st_bind (multi_get_or_create_shorteventid dbg R (map (map snd) groups) s) (\<lambda>shorts s.
       (s, Inr (map2 compress_state_event (map fst (concat groups)) shorts)))"

text \<open>\<open>None\<close> is the panic of \<open>expect\<close>.\<close>

definition compressed_state_size :: "compressed_state \<Rightarrow> nat option" where
  "compressed_state_size S = (if fcard S * 16 < 2 ^ 64 then Some (fcard S * 16) else None)"

subsection \<open>Differences\<close>

definition encode_statediff :: "state_diff \<Rightarrow> bytes" where
  "encode_statediff d =
     to_be_bytes (case diff_parent d of None \<Rightarrow> 0 | Some p \<Rightarrow> p) @ concat (sorted_list_of_fset (diff_added d)) @
     (if diff_removed d \<noteq> {||} then to_be_bytes 0 @ concat (sorted_list_of_fset (diff_removed d)) else [])"

definition save_statediff ::
  "('d, 'it) rocksdb \<Rightarrow> u64 \<Rightarrow> state_diff \<Rightarrow> 'd server \<Rightarrow> 'd server \<times> (srv_error, unit) result"
where
  "save_statediff R shortstatehash d s =
     put_ignored (map_insert R SHORTSTATEHASH_STATEDIFF (to_be_bytes shortstatehash) (encode_statediff d)) s"

text \<open>The loop over the entries of a stored difference, from byte \<open>i\<close> on.\<close>

function parse_entries ::
  "bytes \<Rightarrow> nat \<Rightarrow> bool \<Rightarrow> compressed_state \<Rightarrow> compressed_state \<Rightarrow> compressed_state \<times> compressed_state"
where
  "parse_entries value i add_mode added removed =
     (if i + 16 \<le> length value then
        let v = take 16 (drop i value) in
        if add_mode \<and> prefix (to_be_bytes 0) v then parse_entries value (i + 8) False added removed
        else if add_mode then parse_entries value (i + 16) add_mode (finsert v added) removed
        else parse_entries value (i + 16) add_mode added (finsert v removed)
      else (added, removed))"
  by pat_completeness auto
termination
  by (relation "measure (\<lambda>(value, i, _). length value - i)") auto

declare parse_entries.simps [simp del]

definition decode_statediff :: "bool \<Rightarrow> bytes \<Rightarrow> (srv_error, state_diff) result" where
  "decode_statediff dbg value =
     (if length value < 8 then Inl SrvPanic
      else
        let parent = (case ok (u64_from_bytes (take 8 value)) of
              Some p \<Rightarrow> if p \<noteq> 0 then Some p else None
            | None \<Rightarrow> None) in
        if dbg \<and> length value mod 8 \<noteq> 0 then Inl SrvPanic
        else case parse_entries value 8 True {||} {||} of (added, removed) \<Rightarrow>
          Inr \<lparr>diff_parent = parent, diff_added = added, diff_removed = removed\<rparr>)"

definition get_statediff ::
  "bool \<Rightarrow> ('d, 'it) rocksdb \<Rightarrow> u64 \<Rightarrow> 'd database \<Rightarrow> (srv_error, state_diff) result"
where
  "get_statediff dbg R shortstatehash db =
     res_bind (database_error (map_aqry dbg R SHORTSTATEHASH_STATEDIFF 8 (SerU64 shortstatehash) db))
       (decode_statediff dbg)"

definition merge_removed ::
  "compressed_state \<times> compressed_state \<Rightarrow> bytes \<Rightarrow> compressed_state \<times> compressed_state"
where
  "merge_removed acc e =
     (case acc of (parent_new, parent_removed) \<Rightarrow>
        if e |\<in>| parent_new then (parent_new |-| {|e|}, parent_removed) else (parent_new, finsert e parent_removed))"

definition merge_new ::
  "compressed_state \<times> compressed_state \<Rightarrow> bytes \<Rightarrow> compressed_state \<times> compressed_state"
where
  "merge_new acc e =
     (case acc of (parent_new, parent_removed) \<Rightarrow>
        if e |\<in>| parent_removed then (parent_new, parent_removed |-| {|e|}) else (finsert e parent_new, parent_removed))"

definition merge_into_parent ::
  "short_state_info \<Rightarrow> compressed_state \<Rightarrow> compressed_state \<Rightarrow> compressed_state \<times> compressed_state"
where
  "merge_into_parent parent statediffnew statediffremoved =
     foldl merge_new
       (foldl merge_removed (info_added parent, info_removed parent) (sorted_list_of_fset statediffremoved))
       (sorted_list_of_fset statediffnew)"

subsection \<open>Saving\<close>

definition checked_usize :: "nat \<Rightarrow> (srv_error, nat) result" where
  "checked_usize n = (if n < 2 ^ 64 then Inr n else Inl SrvArithmetic)"

definition merges_into ::
  "short_state_info \<Rightarrow> nat \<Rightarrow> nat \<Rightarrow> (srv_error, bool) result"
where
  "merges_into parent diffsum diff_to_sibling =
     res_bind (checked_usize (fcard (info_added parent) + fcard (info_removed parent))) (\<lambda>parent_diff.
     res_bind (checked_usize (diffsum * diffsum)) (\<lambda>square.
     res_bind (checked_usize (2 * diff_to_sibling)) (\<lambda>double.
     res_bind (checked_usize (double * parent_diff)) (\<lambda>limit. Inr (square \<ge> limit)))))"

function save_state_from_diff ::
  "('d, 'it) rocksdb \<Rightarrow> u64 \<Rightarrow> compressed_state \<Rightarrow> compressed_state \<Rightarrow> nat \<Rightarrow> short_state_info list \<Rightarrow>
     'd server \<Rightarrow> 'd server \<times> (srv_error, unit) result"
where
  "save_state_from_diff R shortstatehash statediffnew statediffremoved diff_to_sibling parent_states s =
     (case checked_usize (fcard statediffnew + fcard statediffremoved) of
        Inl e \<Rightarrow> (s, Inl e)
      | Inr diffsum \<Rightarrow>
          if length parent_states > 3 then
            (case merge_into_parent (last parent_states) statediffnew statediffremoved of
               (parent_new, parent_removed) \<Rightarrow>
                 save_state_from_diff R shortstatehash parent_new parent_removed diffsum (butlast parent_states) s)
          else if parent_states = [] then
            save_statediff R shortstatehash
              \<lparr>diff_parent = None, diff_added = statediffnew, diff_removed = statediffremoved\<rparr> s
          else
            (case merges_into (last parent_states) diffsum diff_to_sibling of
               Inl e \<Rightarrow> (s, Inl e)
             | Inr True \<Rightarrow>
                 (case merge_into_parent (last parent_states) statediffnew statediffremoved of
                    (parent_new, parent_removed) \<Rightarrow>
                      save_state_from_diff R shortstatehash parent_new parent_removed diffsum (butlast parent_states) s)
             | Inr False \<Rightarrow>
                 save_statediff R shortstatehash
                   \<lparr>diff_parent = Some (info_hash (last parent_states)), diff_added = statediffnew,
                    diff_removed = statediffremoved\<rparr> s))"
  by pat_completeness auto
termination
  by (relation "measure (\<lambda>(_, _, _, _, _, parent_states, _). length parent_states)") auto

declare save_state_from_diff.simps [simp del]

subsection \<open>Loading\<close>

text \<open>
  The recursion follows parents that are read from the database; \<open>None\<close> is a chain of parents that does
  not end.
\<close>

definition push_frame :: "u64 \<Rightarrow> state_diff \<Rightarrow> short_state_info list \<Rightarrow> (srv_error, short_state_info list) result" where
  "push_frame shortstatehash d stack =
     (if stack = [] then Inl SrvPanic
      else
        let extended = full_state (last stack) |\<union>| diff_added d;
            full = foldl (\<lambda>full r. full |-| {|r|}) extended (sorted_list_of_fset (diff_removed d))
        in Inr (stack @ [\<lparr>info_hash = shortstatehash, full_state = full, info_added = diff_added d,
                         info_removed = diff_removed d\<rparr>]))"

definition cache_stack ::
  "'c lru \<Rightarrow> u64 \<Rightarrow> ('d, 'c) compressor \<times> (srv_error, short_state_info list) result \<Rightarrow>
     ('d, 'c) compressor \<times> (srv_error, short_state_info list) result"
where
  "cache_stack L shortstatehash =
     (\<lambda>m. st_bind m (\<lambda>stack s.
       (s\<lparr>stateinfo_cache := lru_insert L (stateinfo_cache s) shortstatehash stack\<rparr>, Inr stack)))"

partial_function (option) load_shortstatehash_info ::
  "'c lru \<Rightarrow> bool \<Rightarrow> ('d, 'it) rocksdb \<Rightarrow> u64 \<Rightarrow> ('d, 'c) compressor \<Rightarrow>
     (('d, 'c) compressor \<times> (srv_error, short_state_info list) result) option"
where
  "load_shortstatehash_info L dbg R shortstatehash s =
     (case lru_get_mut L (stateinfo_cache s) shortstatehash of
        (Some r, cache) \<Rightarrow> Some (s\<lparr>stateinfo_cache := cache\<rparr>, Inr r)
      | (None, cache) \<Rightarrow>
          let s = s\<lparr>stateinfo_cache := cache\<rparr> in
          (case get_statediff dbg R shortstatehash (srv_db (cmp_srv s)) of
             Inl e \<Rightarrow> Some (s, Inl e)
           | Inr d \<Rightarrow>
               (case diff_parent d of
                  None \<Rightarrow>
                    Some (cache_stack L shortstatehash (s, Inr
                      [\<lparr>info_hash = shortstatehash, full_state = diff_added d, info_added = diff_added d,
                        info_removed = diff_removed d\<rparr>]))
                | Some parent \<Rightarrow>
                    Option.bind (load_shortstatehash_info L dbg R parent s) (\<lambda>m.
                      Some (cache_stack L shortstatehash
                        (st_bind m (\<lambda>stack s. (s, push_frame shortstatehash d stack))))))))"

declare load_shortstatehash_info.simps [code]

definition new_shortstatehash_info ::
  "'c lru \<Rightarrow> bool \<Rightarrow> ('d, 'it) rocksdb \<Rightarrow> u64 \<Rightarrow> ('d, 'c) compressor \<Rightarrow>
     (('d, 'c) compressor \<times> (srv_error, short_state_info list) result) option"
where
  "new_shortstatehash_info L dbg R shortstatehash s =
     (case get_statediff dbg R shortstatehash (srv_db (cmp_srv s)) of
        Inl e \<Rightarrow> Some (s, Inl e)
      | Inr d \<Rightarrow>
          (case diff_parent d of
             None \<Rightarrow>
               Some (s, Inr
                 [\<lparr>info_hash = shortstatehash, full_state = diff_added d, info_added = diff_added d,
                   info_removed = diff_removed d\<rparr>])
           | Some parent \<Rightarrow>
               Option.bind (load_shortstatehash_info L dbg R parent s) (\<lambda>m.
                 Some (st_bind m (\<lambda>stack s. (s, push_frame shortstatehash d stack))))))"

lemma load_shortstatehash_info_unfold:
  "load_shortstatehash_info L dbg R h s =
     (case lru_get_mut L (stateinfo_cache s) h of
        (Some r, cache) \<Rightarrow> Some (s\<lparr>stateinfo_cache := cache\<rparr>, Inr r)
      | (None, cache) \<Rightarrow>
          map_option (cache_stack L h) (new_shortstatehash_info L dbg R h (s\<lparr>stateinfo_cache := cache\<rparr>)))"
  by (subst load_shortstatehash_info.simps)
    (auto simp: new_shortstatehash_info_def cache_stack_def Let_def map_option_bind comp_def
      split: prod.split option.split sum.split)

subsection \<open>The state of a room\<close>

definition get_room_shortstatehash ::
  "bool \<Rightarrow> ('d, 'it) rocksdb \<Rightarrow> bytes \<Rightarrow> 'd database \<Rightarrow> (db_error, u64) result"
where
  "get_room_shortstatehash dbg R room_id db =
     deserialized_u64 dbg (map_get R ROOMID_SHORTSTATEHASH room_id db)"

definition delimited :: "(bytes \<Rightarrow> bytes) \<Rightarrow> bytes list \<Rightarrow> bytes" where
  "delimited sha inputs =
     sha (case inputs of [] \<Rightarrow> [] | x # xs \<Rightarrow> x @ concat (map (\<lambda>y. 0xFF # y) xs))"

definition load_parents ::
  "'c lru \<Rightarrow> bool \<Rightarrow> ('d, 'it) rocksdb \<Rightarrow> u64 option \<Rightarrow> ('d, 'c) compressor \<Rightarrow>
     (('d, 'c) compressor \<times> (srv_error, short_state_info list) result) option"
where
  "load_parents L dbg R previous s =
     (case previous of
        None \<Rightarrow> Some (s, Inr [])
      | Some p \<Rightarrow>
          map_option (\<lambda>(s, r). (s,
              case r of
                Inr stack \<Rightarrow> Inr stack
              | Inl e \<Rightarrow> if e = SrvPanic then Inl SrvPanic else Inr []))
            (load_shortstatehash_info L dbg R p s))"

definition state_changes :: "compressed_state \<Rightarrow> short_state_info list \<Rightarrow> compressed_state \<times> compressed_state" where
  "state_changes new_state parents =
     (if parents = [] then (new_state, {||})
      else (new_state |-| full_state (last parents), full_state (last parents) |-| new_state))"

definition store_state ::
  "'c lru \<Rightarrow> bool \<Rightarrow> ('d, 'it) rocksdb \<Rightarrow> (u64 \<times> bool) \<Rightarrow> compressed_state \<Rightarrow> short_state_info list \<Rightarrow>
     ('d, 'c) compressor \<Rightarrow> ('d, 'c) compressor \<times> (srv_error, compressed_result) result"
where
  "store_state L dbg R created new_state parents s =
     (case (created, state_changes new_state parents) of ((h, already_existed), (statediffnew, statediffremoved)) \<Rightarrow>
        case (if already_existed then (cmp_srv s, Inr ())
              else save_state_from_diff R h statediffnew statediffremoved 2 parents (cmp_srv s)) of
          (srv, Inl e) \<Rightarrow> (s\<lparr>cmp_srv := srv\<rparr>, Inl e)
        | (srv, Inr _) \<Rightarrow>
            (s\<lparr>cmp_srv := srv\<rparr>, Inr \<lparr>res_hash = h, res_added = statediffnew, res_removed = statediffremoved\<rparr>))"

definition save_state ::
  "'c lru \<Rightarrow> (bytes \<Rightarrow> bytes) \<Rightarrow> bool \<Rightarrow> ('d, 'it) rocksdb \<Rightarrow> bytes \<Rightarrow> compressed_state \<Rightarrow> ('d, 'c) compressor \<Rightarrow>
     (('d, 'c) compressor \<times> (srv_error, compressed_result) result) option"
where
  "save_state L sha dbg R room_id new_state s =
     (case get_room_shortstatehash dbg R room_id (srv_db (cmp_srv s)) of
        Inl (DbCodec CodecPanic) \<Rightarrow> Some (s, Inl SrvPanic)
      | found \<Rightarrow>
          let previous = ok found;
              state_hash = delimited sha (sorted_list_of_fset new_state)
          in case get_or_create_shortstatehash dbg R state_hash (cmp_srv s) of
            (srv, Inl e) \<Rightarrow> Some (s\<lparr>cmp_srv := srv\<rparr>, Inl e)
          | (srv, Inr (h, already_existed)) \<Rightarrow>
              let s = s\<lparr>cmp_srv := srv\<rparr> in
              if Some h = previous then Some (s, Inr \<lparr>res_hash = h, res_added = {||}, res_removed = {||}\<rparr>)
              else
                map_option (\<lambda>m. st_bind m (\<lambda>parents s. store_state L dbg R (h, already_existed) new_state parents s))
                  (load_parents L dbg R previous s))"

end
