(* ===== verification/State_Compressor_Props.thy ===== *)
theory State_Compressor_Props
  imports State_Compressor Short_Ids_Props
begin

section \<open>What the state compressor promises\<close>

text \<open>
  A stored difference reads back as it was written; merging a difference into the one of the parent
  gives the exact difference to the grandparent; chains of parents end and are at most four long; and
  a state that was saved is the state that is loaded, whatever is saved afterwards.
\<close>

subsection \<open>Stored differences\<close>

definition wf_entry :: "bytes \<Rightarrow> bool" where
  "wf_entry e \<longleftrightarrow> length e = 16 \<and> \<not> prefix (to_be_bytes 0) e"

lemma compress_state_event_wf: "k \<noteq> 0 \<Longrightarrow> wf_entry (compress_state_event k i)"
  by (auto simp: wf_entry_def compress_state_event_def prefix_def append_eq_append_conv)

lemma parse_compress_state_event: "parse_compressed_state_event (compress_state_event k i) = Some (k, i)"
  by (simp add: parse_compressed_state_event_def compress_state_event_def)

lemma parse_added:
  assumes "list_all wf_entry xs"
  shows "parse_entries (pre @ concat xs @ rest) (length pre) True A D =
    parse_entries (pre @ concat xs @ rest) (length pre + 16 * length xs) True (A |\<union>| fset_of_list xs) D"
  using assms
proof (induction xs arbitrary: pre A)
  case (Cons x xs)
  have x: "length x = 16" "\<not> prefix (to_be_bytes 0) x" using Cons.prems by (simp_all add: wf_entry_def)
  have "parse_entries (pre @ concat (x # xs) @ rest) (length pre) True A D =
      parse_entries ((pre @ x) @ concat xs @ rest) (length (pre @ x)) True (finsert x A) D"
    using x by (subst parse_entries.simps) simp
  also have "\<dots> = parse_entries ((pre @ x) @ concat xs @ rest) (length (pre @ x) + 16 * length xs) True
      (finsert x A |\<union>| fset_of_list xs) D"
    by (rule Cons.IH) (use Cons.prems in simp)
  finally show ?case using x by (simp add: add.assoc)
qed simp

lemma parse_removed:
  assumes "list_all (\<lambda>e. length e = 16) xs"
  shows "parse_entries (pre @ concat xs) (length pre) False A D = (A, D |\<union>| fset_of_list xs)"
  using assms
proof (induction xs arbitrary: pre D)
  case Nil
  then show ?case by (subst parse_entries.simps) simp
next
  case (Cons x xs)
  have x: "length x = 16" using Cons.prems by simp
  have "parse_entries (pre @ concat (x # xs)) (length pre) False A D =
      parse_entries ((pre @ x) @ concat xs) (length (pre @ x)) False A (finsert x D)"
    using x by (subst parse_entries.simps) simp
  also have "\<dots> = (A, finsert x D |\<union>| fset_of_list xs)"
    by (rule Cons.IH) (use Cons.prems in simp)
  finally show ?case by simp
qed

definition wf_diff :: "state_diff \<Rightarrow> bool" where
  "wf_diff d \<longleftrightarrow> diff_parent d \<noteq> Some 0 \<and> fBall (diff_added d) wf_entry \<and> fBall (diff_removed d) (\<lambda>e. length e = 16)"

lemma length_concat_16: "list_all (\<lambda>e. length e = 16) xs \<Longrightarrow> length (concat xs) = 16 * length xs"
  by (induction xs) simp_all

lemma sorted_list_of_fset_props [simp]:
  "fset_of_list (sorted_list_of_fset S) = S" "distinct (sorted_list_of_fset S)"
  "list_all P (sorted_list_of_fset S) \<longleftrightarrow> fBall S P"
  by (simp_all add: sorted_list_of_fset.rep_eq fset_inverse fset_of_list.rep_eq fset_inject [symmetric] list_all_iff)

lemma parse_encoded:
  assumes "wf_diff d"
  shows "parse_entries (encode_statediff d) 8 True {||} {||} = (diff_added d, diff_removed d)"
proof -
  let ?add = "sorted_list_of_fset (diff_added d)" and ?rem = "sorted_list_of_fset (diff_removed d)"
  define pre where "pre = to_be_bytes (case diff_parent d of None \<Rightarrow> 0 | Some p \<Rightarrow> p)"
  define rest where "rest = (if diff_removed d \<noteq> {||} then to_be_bytes 0 @ concat ?rem else [])"
  have wf: "list_all wf_entry ?add" "list_all (\<lambda>e. length e = 16) ?rem"
    using assms by (simp_all add: wf_diff_def)
  have len: "length (concat ?add) = 16 * length ?add"
    by (rule length_concat_16) (use wf(1) in \<open>auto simp: list_all_iff wf_entry_def\<close>)
  have enc: "encode_statediff d = pre @ concat ?add @ rest"
    by (simp add: encode_statediff_def pre_def rest_def)
  have "parse_entries (encode_statediff d) 8 True {||} {||} =
      parse_entries (pre @ concat ?add @ rest) (8 + 16 * length ?add) True (diff_added d) {||}"
    using parse_added [OF wf(1), of pre rest "{||}" "{||}"] by (simp add: enc pre_def)
  also have "\<dots> = (diff_added d, diff_removed d)"
  proof (cases "diff_removed d = {||}")
    case True
    then show ?thesis by (subst parse_entries.simps) (simp add: rest_def pre_def len)
  next
    case False
    then obtain r rs where rem: "?rem = r # rs" "length r = 16"
      using wf(2) by (cases ?rem) (auto simp: sorted_list_of_fset.rep_eq fset_inject [symmetric])
    have "parse_entries (pre @ concat ?add @ rest) (8 + 16 * length ?add) True (diff_added d) {||} =
        parse_entries ((pre @ concat ?add @ to_be_bytes 0) @ concat ?rem)
          (length (pre @ concat ?add @ to_be_bytes 0)) False (diff_added d) {||}"
      using False rem by (subst parse_entries.simps) (simp add: rest_def pre_def len)
    also have "\<dots> = (diff_added d, diff_removed d)"
      by (subst parse_removed [OF wf(2)]) simp
    finally show ?thesis .
  qed
  finally show ?thesis .
qed

lemma decode_encode:
  assumes "wf_diff d"
  shows "decode_statediff dbg (encode_statediff d) = Inr d"
proof -
  have lens: "length (concat (sorted_list_of_fset (diff_added d))) mod 8 = 0"
      "length (concat (sorted_list_of_fset (diff_removed d))) mod 8 = 0"
    using assms by (subst length_concat_16; fastforce simp: wf_diff_def wf_entry_def)+
  have "length (encode_statediff d) mod 8 = 0"
    using lens by (auto simp: encode_statediff_def mod_add_eq [symmetric])
  moreover have "take 8 (encode_statediff d) = to_be_bytes (case diff_parent d of None \<Rightarrow> 0 | Some p \<Rightarrow> p)"
    "8 \<le> length (encode_statediff d)"
    by (simp_all add: encode_statediff_def)
  ultimately show ?thesis
    using assms parse_encoded [OF assms]
    by (auto simp: decode_statediff_def Let_def wf_diff_def split: option.split intro: state_diff.equality)
qed

subsection \<open>Merging\<close>

lemma foldl_merge_removed:
  "distinct xs \<Longrightarrow> foldl merge_removed (A, D) xs = (A |-| fset_of_list xs, D |\<union>| (fset_of_list xs |-| A))"
proof (induction xs arbitrary: A D)
  case (Cons x xs)
  have "x |\<notin>| fset_of_list xs" using Cons.prems by (simp add: fset_of_list_elem)
  then show ?case using Cons by (auto simp: merge_removed_def)
qed simp

lemma foldl_merge_new:
  "distinct xs \<Longrightarrow> foldl merge_new (A, D) xs = (A |\<union>| (fset_of_list xs |-| D), D |-| fset_of_list xs)"
proof (induction xs arbitrary: A D)
  case (Cons x xs)
  have "x |\<notin>| fset_of_list xs" using Cons.prems by (simp add: fset_of_list_elem)
  then show ?case using Cons by (auto simp: merge_new_def)
qed simp

definition exact :: "compressed_state \<Rightarrow> short_state_info \<Rightarrow> bool" where
  "exact G f \<longleftrightarrow> info_added f = full_state f |-| G \<and> info_removed f = G |-| full_state f"

lemma merge_exact:
  assumes "exact G f"
  shows "merge_into_parent f (S |-| full_state f) (full_state f |-| S) = (S |-| G, G |-| S)"
  using assms
  by (auto simp: merge_into_parent_def foldl_merge_removed foldl_merge_new exact_def)

subsection \<open>Chains of differences\<close>

text \<open>The bound keeps the products of the merge rule below the range of \<open>usize\<close>.\<close>

definition wf_state :: "compressed_state \<Rightarrow> bool" where
  "wf_state S \<longleftrightarrow> fBall S wf_entry \<and> fcard S < 2 ^ 30"

definition frame :: "u64 \<Rightarrow> compressed_state \<Rightarrow> compressed_state \<Rightarrow> short_state_info" where
  "frame h S G = \<lparr>info_hash = h, full_state = S, info_added = S |-| G, info_removed = G |-| S\<rparr>"

definition base :: "short_state_info list \<Rightarrow> compressed_state" where
  "base stack = (if stack = [] then {||} else full_state (last stack))"

definition diff_onto :: "compressed_state \<Rightarrow> short_state_info list \<Rightarrow> state_diff" where
  "diff_onto S stack =
     \<lparr>diff_parent = (if stack = [] then None else Some (info_hash (last stack))), diff_added = S |-| base stack,
      diff_removed = base stack |-| S\<rparr>"

inductive chain :: "tables \<Rightarrow> u64 \<Rightarrow> short_state_info list \<Rightarrow> bool" for m where
  root: "chain m h [frame h S {||}]"
    if "m SHORTSTATEHASH_STATEDIFF (to_be_bytes h) = Some (encode_statediff (diff_onto S []))" and "wf_state S"
      and "h \<noteq> 0"
| child: "chain m h (stack @ [frame h S (base stack)])"
    if "m SHORTSTATEHASH_STATEDIFF (to_be_bytes h) = Some (encode_statediff (diff_onto S stack))" and "wf_state S"
      and "chain m p stack" and "p < h"

lemma frame_simps [simp]:
  "info_hash (frame h S G) = h" "full_state (frame h S G) = S" "info_added (frame h S G) = S |-| G"
  "info_removed (frame h S G) = G |-| S" "exact G (frame h S G)"
  by (simp_all add: frame_def exact_def)

lemma base_simps [simp]:
  "base [] = {||}" "base (stack @ [f]) = full_state f"
  by (simp_all add: base_def)

lemma chain_last:
  assumes "chain m h stack"
  shows "stack \<noteq> []" "info_hash (last stack) = h" "h \<noteq> 0" "wf_state (base stack)" "exact (base (butlast stack)) (last stack)"
    "butlast stack = [] \<or> chain m (info_hash (last (butlast stack))) (butlast stack)"
    "f \<in> set stack \<Longrightarrow> info_hash f \<le> h"
proof -
  have "stack \<noteq> [] \<and> info_hash (last stack) = h \<and> h \<noteq> 0 \<and> wf_state (base stack) \<and>
      exact (base (butlast stack)) (last stack) \<and>
      (butlast stack = [] \<or> chain m (info_hash (last (butlast stack))) (butlast stack)) \<and>
      (\<forall>f \<in> set stack. info_hash f \<le> h)"
    using assms
  proof (induction rule: chain.induct)
    case (child h S stack p)
    then show ?case by (auto simp: base_def intro: order_trans less_imp_le)
  qed (simp add: base_def)
  then show "stack \<noteq> []" "info_hash (last stack) = h" "h \<noteq> 0" "wf_state (base stack)"
    "exact (base (butlast stack)) (last stack)"
    "butlast stack = [] \<or> chain m (info_hash (last (butlast stack))) (butlast stack)"
    "f \<in> set stack \<Longrightarrow> info_hash f \<le> h"
    by blast+
qed

lemma wf_diff_onto:
  assumes "wf_state S" and "stack = [] \<or> chain m p stack"
  shows "wf_diff (diff_onto S stack)"
  using assms chain_last(2-4) [of m p stack]
  by (auto simp: wf_diff_def diff_onto_def wf_state_def wf_entry_def)

lemma chain_stored:
  assumes "chain m h stack"
  obtains S where "m SHORTSTATEHASH_STATEDIFF (to_be_bytes h) = Some (encode_statediff (diff_onto S (butlast stack)))"
    "wf_state S" "stack = butlast stack @ [frame h S (base (butlast stack))]"
    "wf_diff (diff_onto S (butlast stack))"
  using assms by (cases rule: chain.cases) (auto intro: wf_diff_onto)

lemma chain_cong:
  assumes "chain m h stack"
    and "\<And>k. k \<le> h \<Longrightarrow> m' SHORTSTATEHASH_STATEDIFF (to_be_bytes k) = m SHORTSTATEHASH_STATEDIFF (to_be_bytes k)"
  shows "chain m' h stack"
  using assms
proof (induction rule: chain.induct)
  case (root h S)
  then show ?case by (intro chain.root) simp_all
next
  case (child h S stack p)
  have "chain m' p stack"
    by (rule child.IH) (use child.prems child.hyps(4) in \<open>meson order_trans less_imp_le\<close>)
  then show ?case using child.hyps child.prems [of h] by (intro chain.child) simp_all
qed

lemma diff_onto_inject:
  assumes "encode_statediff (diff_onto S xs) = encode_statediff (diff_onto T ys)"
    and "wf_diff (diff_onto S xs)" and "wf_diff (diff_onto T ys)"
  shows "diff_onto S xs = diff_onto T ys"
proof -
  have "Inr (diff_onto S xs) = (Inr (diff_onto T ys) :: (srv_error, state_diff) result)"
    using decode_encode [OF assms(2), of False] decode_encode [OF assms(3), of False]
    unfolding assms(1) by (rule trans [OF sym])
  then show ?thesis by (rule Inr_inject)
qed

lemma fset_from_changes: "S |-| B = T |-| B \<Longrightarrow> B |-| S = B |-| T \<Longrightarrow> S = (T :: 'a fset)"
  by (rule fset_eqI) (metis fminus_iff)

lemma chain_unique:
  assumes "chain m h stack" and "chain m h stack'"
  shows "stack = stack'"
  using assms
proof (induction arbitrary: stack' rule: chain.induct)
  case (root h S)
  note wf = wf_diff_onto [OF root.hyps(2), of "[]", simplified]
  obtain T where T: "m SHORTSTATEHASH_STATEDIFF (to_be_bytes h) = Some (encode_statediff (diff_onto T (butlast stack')))"
      "stack' = butlast stack' @ [frame h T (base (butlast stack'))]" "wf_diff (diff_onto T (butlast stack'))"
    using root.prems by (rule chain_stored)
  have "diff_onto S [] = diff_onto T (butlast stack')"
    by (rule diff_onto_inject [OF _ wf T(3)]) (use root.hyps(1) T(1) in simp)
  then have "butlast stack' = []" "S = T" by (auto simp: diff_onto_def split: if_splits)
  then show ?case by (subst T(2)) simp
next
  case (child h S stack p)
  note wf = wf_diff_onto [OF child.hyps(2) disjI2 [OF child.hyps(3)]]
  obtain T where T: "m SHORTSTATEHASH_STATEDIFF (to_be_bytes h) = Some (encode_statediff (diff_onto T (butlast stack')))"
      "stack' = butlast stack' @ [frame h T (base (butlast stack'))]" "wf_diff (diff_onto T (butlast stack'))"
    using child.prems by (rule chain_stored)
  have eq: "diff_onto S stack = diff_onto T (butlast stack')"
    by (rule diff_onto_inject [OF _ wf T(3)]) (use child.hyps(1) T(1) in simp)
  then have "butlast stack' \<noteq> []" "info_hash (last (butlast stack')) = p"
    using chain_last(1,2) [OF child.hyps(3)] by (auto simp: diff_onto_def split: if_splits)
  then have "chain m p (butlast stack')"
    using chain_last(6) [OF child.prems] by simp
  then have "stack = butlast stack'" by (rule child.IH)
  moreover from this have "S = T"
    using eq fset_from_changes [of S "base stack" T] by (simp add: diff_onto_def)
  ultimately show ?case by (subst T(2)) simp
qed

subsection \<open>Loading\<close>

text \<open>What the code relies on of the cache: it answers with what was put in, or not at all.\<close>

definition cache_ok ::
  "('c \<Rightarrow> u64 \<rightharpoonup> short_state_info list) \<Rightarrow> tables \<Rightarrow> u64 \<Rightarrow> 'c \<Rightarrow> bool"
where
  "cache_ok cached m n c \<longleftrightarrow> (\<forall>h stack. cached c h = Some stack \<longrightarrow> h \<le> n \<and> chain m h stack)"

locale lru_laws =
  fixes L :: "'c lru"
    and cached :: "'c \<Rightarrow> u64 \<rightharpoonup> short_state_info list"
  assumes get_mut_law: "lru_get_mut L c k = (found, c') \<Longrightarrow> found = cached c k \<and> cached c' = cached c"
    and insert_law: "cached (lru_insert L c k v) k' = Some v' \<Longrightarrow> (if k' = k then v' = v else cached c k' = Some v')"
    and clear_law: "cached (lru_clear L c) = Map.empty"

locale compressor_env = rocks_io R contents ahead dbg + lru_laws L cached
  for R :: "('d, 'it) rocksdb" and contents and ahead and dbg and L :: "'c lru" and cached
begin

abbreviation cmp_tables :: "('d, 'c) compressor \<Rightarrow> tables" where
  "cmp_tables s \<equiv> contents (eng_db (srv_db (cmp_srv s)))"

lemma get_statediff_stored:
  assumes "contents (eng_db db) SHORTSTATEHASH_STATEDIFF (to_be_bytes h) = Some (encode_statediff d)" and "wf_diff d"
  shows "get_statediff dbg R h db = Inr d"
  using assms(1) decode_encode [OF assms(2), of dbg]
  by (simp add: get_statediff_def database_error_def map_aqry_def map_bqry_def get_table)

lemma get_statediff_missing:
  assumes "contents (eng_db db) SHORTSTATEHASH_STATEDIFF (to_be_bytes h) = None"
  shows "get_statediff dbg R h db = Inl SrvDatabase"
  using assms by (simp add: get_statediff_def database_error_def map_aqry_def map_bqry_def get_table)

lemma foldl_fminus: "foldl (\<lambda>full r. full |-| {|r|}) S xs = S |-| fset_of_list xs"
  by (induction xs arbitrary: S) auto

lemma push_frame_exact:
  assumes "stack \<noteq> []"
  shows "push_frame h (diff_onto S stack) stack = Inr (stack @ [frame h S (base stack)])"
proof -
  have "(base stack |\<union>| (S |-| base stack)) |-| (base stack |-| S) = S" by auto
  then show ?thesis
    using assms by (simp add: push_frame_def foldl_fminus diff_onto_def frame_def base_def Let_def)
qed

lemma load_cached:
  assumes "cached (stateinfo_cache s) h = Some stack"
  shows "\<exists>c'. load_shortstatehash_info L dbg R h s = Some (s\<lparr>stateinfo_cache := c'\<rparr>, Inr stack) \<and>
    cached c' = cached (stateinfo_cache s)"
proof -
  obtain c' where "lru_get_mut L (stateinfo_cache s) h = (Some stack, c')" "cached c' = cached (stateinfo_cache s)"
    using get_mut_law [of "stateinfo_cache s" h] assms by (cases "lru_get_mut L (stateinfo_cache s) h") auto
  then show ?thesis by (auto simp: load_shortstatehash_info_unfold)
qed

lemma load_missed:
  assumes "cached (stateinfo_cache s) h = None"
  obtains c' where "lru_get_mut L (stateinfo_cache s) h = (None, c')" "cached c' = cached (stateinfo_cache s)"
  using get_mut_law [of "stateinfo_cache s" h] assms by (cases "lru_get_mut L (stateinfo_cache s) h") auto

lemma cache_insert_ok:
  assumes "cache_ok cached m n c" and "chain m h stack" and "h \<le> n"
  shows "cache_ok cached m n (lru_insert L c h stack)"
  unfolding cache_ok_def
proof (intro allI impI)
  fix k st assume "cached (lru_insert L c h stack) k = Some st"
  from insert_law [OF this] show "k \<le> n \<and> chain m k st"
    using assms by (cases "k = h") (auto simp: cache_ok_def)
qed

lemma load_chain:
  assumes "chain m h stack" and "cmp_tables s = m" and "cache_ok cached m n (stateinfo_cache s)" and "h \<le> n"
  shows "\<exists>c'. load_shortstatehash_info L dbg R h s = Some (s\<lparr>stateinfo_cache := c'\<rparr>, Inr stack) \<and> cache_ok cached m n c'"
  using assms
proof (induction arbitrary: s rule: chain.induct)
  case (root h S)
  show ?case
  proof (cases "cached (stateinfo_cache s) h")
    case None
    then obtain c' where get: "lru_get_mut L (stateinfo_cache s) h = (None, c')" "cached c' = cached (stateinfo_cache s)"
      by (rule load_missed)
    have diff: "get_statediff dbg R h (srv_db (cmp_srv s)) = Inr (diff_onto S [])"
      by (rule get_statediff_stored [OF root.hyps(1) [folded root.prems(1)] wf_diff_onto [OF root.hyps(2)]]) simp
    have "cache_ok cached m n c'" using root.prems get(2) by (simp add: cache_ok_def)
    then show ?thesis
      using cache_insert_ok [OF _ chain.root [where m = m, OF root.hyps] root.prems(3)]
      by (auto simp: load_shortstatehash_info_unfold get(1) new_shortstatehash_info_def diff cache_stack_def
          diff_onto_def frame_def)
  next
    case (Some st)
    then have "st = [frame h S {||}]"
      using root.prems chain_unique [OF chain.root [where m = m, OF root.hyps]] by (auto simp: cache_ok_def)
    then show ?thesis using load_cached [OF Some] root.prems by (auto simp: cache_ok_def)
  qed
next
  case (child h S stack p)
  note new = chain.child [where m = m, OF child.hyps]
  show ?case
  proof (cases "cached (stateinfo_cache s) h")
    case None
    then obtain c1 where get: "lru_get_mut L (stateinfo_cache s) h = (None, c1)" "cached c1 = cached (stateinfo_cache s)"
      by (rule load_missed)
    let ?s1 = "s\<lparr>stateinfo_cache := c1\<rparr>"
    have diff: "get_statediff dbg R h (srv_db (cmp_srv s)) = Inr (diff_onto S stack)"
      by (rule get_statediff_stored [OF child.hyps(1) [folded child.prems(1)]
            wf_diff_onto [OF child.hyps(2) disjI2 [OF child.hyps(3)]]])
    note last = chain_last(1,2) [OF child.hyps(3)]
    have "cache_ok cached m n c1" using child.prems get(2) by (simp add: cache_ok_def)
    then obtain c2 where c2: "load_shortstatehash_info L dbg R p ?s1 = Some (?s1\<lparr>stateinfo_cache := c2\<rparr>, Inr stack)"
        "cache_ok cached m n c2"
      using child.IH [of ?s1] child.prems(1,3) order_trans [OF less_imp_le [OF child.hyps(4)] child.prems(3)] by auto
    have parent: "diff_parent (diff_onto S stack) = Some p" using last by (simp add: diff_onto_def)
    show ?thesis
      using cache_insert_ok [OF c2(2) new child.prems(3)] last(1)
      by (auto simp: load_shortstatehash_info_unfold [of L dbg R h s] get(1) new_shortstatehash_info_def diff parent
          cache_stack_def c2(1) push_frame_exact)
  next
    case (Some st)
    then have "st = stack @ [frame h S (base stack)]"
      using child.prems chain_unique [OF new] by (auto simp: cache_ok_def)
    then show ?thesis using load_cached [OF Some] child.prems by (auto simp: cache_ok_def)
  qed
qed

end

subsection \<open>Saving\<close>

definition valid_stack :: "tables \<Rightarrow> short_state_info list \<Rightarrow> bool" where
  "valid_stack m stack \<longleftrightarrow> stack = [] \<or> chain m (info_hash (last stack)) stack"

lemma valid_stackD:
  assumes "valid_stack m (stack @ [f])"
  shows "valid_stack m stack" "exact (base stack) f" "wf_state (full_state f)"
  using assms chain_last(4-6) [of m "info_hash f" "stack @ [f]"] by (auto simp: valid_stack_def)

lemma fcard_empty [simp]: "fcard {||} = 0"
  by (simp add: fcard.rep_eq)

lemma fcard_fminus_le: "fcard (A |-| B) \<le> fcard A"
  by (simp add: fcard.rep_eq card_mono)

lemma wf_state_base: "valid_stack m stack \<Longrightarrow> wf_state (base stack)"
  by (auto simp: valid_stack_def intro: chain_last(4)) (simp add: wf_state_def)

lemma changes_small:
  assumes "wf_state S" and "wf_state B"
  shows "fcard (S |-| B) + fcard (B |-| S) < 2 ^ 31"
  using assms fcard_fminus_le [of S B] fcard_fminus_le [of B S] by (simp add: wf_state_def)

lemma merges_into_total:
  assumes "fcard (info_added f) + fcard (info_removed f) < 2 ^ 31" and "n < 2 ^ 31" and "k \<le> 2 ^ 31"
  shows "\<exists>b. merges_into f n k = Inr b"
proof -
  let ?d = "fcard (info_added f) + fcard (info_removed f)"
  have "n * n < 2 ^ 31 * 2 ^ 31" by (rule mult_strict_mono') (use assms in simp_all)
  moreover have "2 * k * ?d \<le> 2 * 2 ^ 31 * 2 ^ 31" by (rule mult_le_mono) (use assms in simp_all)
  ultimately show ?thesis using assms by (simp add: merges_into_def checked_usize_def mult.commute)
qed

lemma save_from_diff_plan:
  assumes "valid_stack m stack" and "wf_state S" and "sib \<le> 2 ^ 31"
  shows "\<exists>pre. valid_stack m pre \<and> length pre \<le> 3 \<and> set pre \<subseteq> set stack \<and>
    save_state_from_diff R h (S |-| base stack) (base stack |-| S) sib stack s = save_statediff R h (diff_onto S pre) s"
  using assms(1,3)
proof (induction stack arbitrary: sib rule: rev_induct)
  case Nil
  have "fcard S < 2 ^ 64" using assms(2) by (simp add: wf_state_def)
  then show ?case
    by (intro exI [of _ "[]"], subst save_state_from_diff.simps)
      (simp add: valid_stack_def checked_usize_def diff_onto_def)
next
  case (snoc f stack)
  note parts = valid_stackD [OF snoc.prems(1)]
  note wfb = wf_state_base [OF parts(1)]
  have small: "fcard (S |-| full_state f) + fcard (full_state f |-| S) < 2 ^ 31" (is "?sum < _")
    by (rule changes_small [OF assms(2) parts(3)])
  have "fcard (info_added f) + fcard (info_removed f) < 2 ^ 31"
    using parts(2) changes_small [OF parts(3) wfb] by (simp add: exact_def)
  then obtain b where b: "merges_into f ?sum sib = Inr b"
    using merges_into_total small snoc.prems(2) by blast
  obtain pre where pre: "valid_stack m pre" "length pre \<le> 3" "set pre \<subseteq> set stack"
      "save_state_from_diff R h (S |-| base stack) (base stack |-| S) ?sum stack s = save_statediff R h (diff_onto S pre) s"
    using snoc.IH [OF parts(1), of ?sum] small by auto
  have step: "save_state_from_diff R h (S |-| base (stack @ [f])) (base (stack @ [f]) |-| S) sib (stack @ [f]) s =
      (if length (stack @ [f]) > 3 \<or> b then save_statediff R h (diff_onto S pre) s
       else save_statediff R h (diff_onto S (stack @ [f])) s)"
    using small b merge_exact [OF parts(2), of S] pre(4)
    by (subst save_state_from_diff.simps)
      (auto simp: checked_usize_def diff_onto_def split: bool.split)
  show ?case
  proof (cases "length (stack @ [f]) > 3 \<or> b")
    case True
    then show ?thesis using pre step by (intro exI [of _ pre]) auto
  next
    case False
    then show ?thesis using snoc.prems(1) step by (intro exI [of _ "stack @ [f]"]) auto
  qed
qed

subsection \<open>The state of a room\<close>

definition state_digest :: "(bytes \<Rightarrow> bytes) \<Rightarrow> compressed_state \<Rightarrow> bytes" where
  "state_digest sha S = delimited sha (sorted_list_of_fset S)"

text \<open>A state does not collide with one of the states recorded so far; SHA-256 is trusted for it.\<close>

definition collision_free :: "(bytes \<Rightarrow> bytes) \<Rightarrow> tables \<Rightarrow> compressed_state \<Rightarrow> bool" where
  "collision_free sha m S \<longleftrightarrow>
     (\<forall>d h stack. m STATEHASH_SHORTSTATEHASH d = Some (to_be_bytes h) \<longrightarrow> chain m h stack \<longrightarrow>
        state_digest sha (base stack) = state_digest sha S \<longrightarrow> base stack = S)"

text \<open>The recorded states are stored as chains, but for those whose digest is in \<open>X\<close>.\<close>

definition states_ok_but :: "bytes set \<Rightarrow> (bytes \<Rightarrow> bytes) \<Rightarrow> tables \<Rightarrow> u64 \<Rightarrow> bool" where
  "states_ok_but X sha m n \<longleftrightarrow>
     shorts_ok m n \<and>
     (\<forall>d h. d \<notin> X \<longrightarrow> m STATEHASH_SHORTSTATEHASH d = Some (to_be_bytes h) \<longrightarrow>
        (\<exists>stack. chain m h stack \<and> length stack \<le> 4 \<and> d = state_digest sha (base stack))) \<and>
     (\<forall>room v. m ROOMID_SHORTSTATEHASH room = Some v \<longrightarrow>
        (\<exists>h stack. v = to_be_bytes h \<and> h \<le> n \<and> chain m h stack))"

definition room_state :: "tables \<Rightarrow> bytes \<Rightarrow> compressed_state \<Rightarrow> bool" where
  "room_state m room P \<longleftrightarrow>
     m ROOMID_SHORTSTATEHASH room = None \<and> P = {||} \<or>
     (\<exists>h stack. m ROOMID_SHORTSTATEHASH room = Some (to_be_bytes h) \<and> chain m h stack \<and> P = base stack)"

lemmas state_columns_defs = SHORTSTATEHASH_STATEDIFF_def ROOMID_SHORTSTATEHASH_def short_columns_defs

lemma state_columns_apart:
  "key_column key \<noteq> SHORTSTATEHASH_STATEDIFF" "key_column key \<noteq> ROOMID_SHORTSTATEHASH"
  "back_column key = Some c \<Longrightarrow> c \<noteq> SHORTSTATEHASH_STATEDIFF" "back_column key = Some c \<Longrightarrow> c \<noteq> ROOMID_SHORTSTATEHASH"
  "GLOBAL \<noteq> SHORTSTATEHASH_STATEDIFF" "GLOBAL \<noteq> ROOMID_SHORTSTATEHASH"
  "ROOMID_SHORTSTATEHASH \<noteq> SHORTSTATEHASH_STATEDIFF"
  by (cases key; auto simp: state_columns_defs)+

lemma record_short_other:
  "record_short key w m SHORTSTATEHASH_STATEDIFF = m SHORTSTATEHASH_STATEDIFF"
  "record_short key w m ROOMID_SHORTSTATEHASH = m ROOMID_SHORTSTATEHASH"
  using state_columns_apart(1,2) [of key] state_columns_apart(3,4) [of key] state_columns_apart(5,6)
  by (auto simp: record_short_def put_entry_def Let_def split: option.split)

lemma shorts_ok_put_statediff:
  assumes "shorts_ok m n"
  shows "shorts_ok (put_entry SHORTSTATEHASH_STATEDIFF k v m) n"
  using assms
  by (rule shorts_ok_cong) (auto simp: put_entry_def dest: state_columns_apart(3) simp: state_columns_apart(1,5))

lemma states_okD:
  assumes "states_ok_but X sha m n"
  shows "shorts_ok m n"
    "m STATEHASH_SHORTSTATEHASH d = Some (to_be_bytes h) \<Longrightarrow> d \<notin> X \<Longrightarrow>
      \<exists>stack. chain m h stack \<and> length stack \<le> 4 \<and> d = state_digest sha (base stack)"
    "m STATEHASH_SHORTSTATEHASH d = Some v \<Longrightarrow> \<exists>h \<le> n. v = to_be_bytes h"
    "m ROOMID_SHORTSTATEHASH room = Some v \<Longrightarrow> \<exists>h stack. v = to_be_bytes h \<and> h \<le> n \<and> chain m h stack"
  using assms shorts_okD(2) [of m n "KHash d" d v] by (auto simp: states_ok_but_def)

text \<open>What saving a new state does to the tables, and that it keeps the invariant.\<close>

definition record_state ::
  "(bytes \<Rightarrow> bytes) \<Rightarrow> u64 \<Rightarrow> compressed_state \<Rightarrow> short_state_info list \<Rightarrow> tables \<Rightarrow> tables"
where
  "record_state sha h S pre m =
     put_entry SHORTSTATEHASH_STATEDIFF (to_be_bytes h) (encode_statediff (diff_onto S pre))
       (record_short (KHash (state_digest sha S)) h m)"

lemma record_state_apply:
  "record_state sha h S pre m SHORTSTATEHASH_STATEDIFF k =
     (if k = to_be_bytes h then Some (encode_statediff (diff_onto S pre)) else m SHORTSTATEHASH_STATEDIFF k)"
  "record_state sha h S pre m ROOMID_SHORTSTATEHASH = m ROOMID_SHORTSTATEHASH"
  "record_state sha h S pre m STATEHASH_SHORTSTATEHASH d =
     (if d = state_digest sha S then Some (to_be_bytes h) else m STATEHASH_SHORTSTATEHASH d)"
  using record_short_apply [of "KHash (state_digest sha S)" h m "KHash d" d] state_columns_apart(1) [of "KHash d"]
    state_columns_apart(7)
  by (auto simp: record_state_def put_entry_def record_short_other)

lemma record_state_chain:
  assumes "n < h" and "valid_stack m pre" and "\<forall>f \<in> set pre. info_hash f \<le> n" and "wf_state S"
  shows "k \<le> n \<Longrightarrow> chain m k stack \<Longrightarrow> chain (record_state sha h S pre m) k stack"
    and "chain (record_state sha h S pre m) h (pre @ [frame h S (base pre)])"
proof -
  let ?m = "record_state sha h S pre m"
  show old: "chain ?m k stack" if "k \<le> n" "chain m k stack" for k stack
    using that(2)
  proof (rule chain_cong)
    fix j assume "j \<le> k"
    then have "j \<noteq> h" using that(1) assms(1) by auto
    then show "?m SHORTSTATEHASH_STATEDIFF (to_be_bytes j) = m SHORTSTATEHASH_STATEDIFF (to_be_bytes j)"
      by (simp add: record_state_apply)
  qed
  show "chain ?m h (pre @ [frame h S (base pre)])"
  proof (cases "pre = []")
    case True
    moreover have "h \<noteq> 0" using assms(1) by auto
    ultimately show ?thesis using assms(4) chain.root [of ?m h S] by (simp add: record_state_apply)
  next
    case False
    then have "chain m (info_hash (last pre)) pre" "info_hash (last pre) \<le> n"
      using assms(2,3) by (simp_all add: valid_stack_def)
    then show ?thesis
      using old assms(1,4) by (intro chain.child [of _ _ _ _ "info_hash (last pre)"]) (auto simp: record_state_apply)
  qed
qed

lemma record_state_ok:
  assumes inv: "states_ok_but X sha m n" and "n < h" and "valid_stack m pre" and "length pre \<le> 3"
    and "\<forall>f \<in> set pre. info_hash f \<le> n" and "wf_state S"
  shows "states_ok_but X sha (record_state sha h S pre m) h"
proof -
  let ?m = "record_state sha h S pre m"
  note chains = record_state_chain [OF assms(2,3,5,6), where sha = sha]
  have "shorts_ok ?m h"
    unfolding record_state_def
    by (rule shorts_ok_put_statediff [OF record_short_ok [OF states_okD(1) [OF inv] assms(2)]])
  moreover have "\<exists>stack. chain ?m k stack \<and> length stack \<le> 4 \<and> d = state_digest sha (base stack)"
    if "?m STATEHASH_SHORTSTATEHASH d = Some (to_be_bytes k)" "d \<notin> X" for d k
  proof (cases "d = state_digest sha S")
    case True
    then show ?thesis
      using that chains(2) assms(4) by (intro exI [of _ "pre @ [frame h S (base pre)]"]) (auto simp: record_state_apply)
  next
    case False
    then have old: "m STATEHASH_SHORTSTATEHASH d = Some (to_be_bytes k)"
      using that by (simp add: record_state_apply)
    then show ?thesis using states_okD(2) [OF inv old that(2)] states_okD(3) [OF inv old] chains(1) by auto
  qed
  moreover have "\<exists>k stack. v = to_be_bytes k \<and> k \<le> h \<and> chain ?m k stack"
    if hit: "?m ROOMID_SHORTSTATEHASH room = Some v" for room v
  proof -
    obtain k stack where "v = to_be_bytes k" "k \<le> n" "chain m k stack"
      using hit states_okD(4) [OF inv, of room v] by (auto simp: record_state_apply)
    then show ?thesis using chains(1) order_trans [OF _ less_imp_le [OF assms(2)]] by blast
  qed
  ultimately show ?thesis by (simp add: states_ok_but_def)
qed

lemma chain_same:
  "m' SHORTSTATEHASH_STATEDIFF = m SHORTSTATEHASH_STATEDIFF \<Longrightarrow> chain m' h stack \<longleftrightarrow> chain m h stack"
  using chain_cong [of m h stack m'] chain_cong [of m' h stack m] by auto

lemma cache_ok_same:
  "m' SHORTSTATEHASH_STATEDIFF = m SHORTSTATEHASH_STATEDIFF \<Longrightarrow> cache_ok cached m' n c \<longleftrightarrow> cache_ok cached m n c"
  using chain_same [of m' m] unfolding cache_ok_def by blast

definition compressor_ok_but ::
  "bytes set \<Rightarrow> ('d \<Rightarrow> tables) \<Rightarrow> ('c \<Rightarrow> u64 \<rightharpoonup> short_state_info list) \<Rightarrow> (bytes \<Rightarrow> bytes) \<Rightarrow> ('d, 'c) compressor \<Rightarrow> bool"
where
  "compressor_ok_but X contents cached sha s \<longleftrightarrow>
     (let m = contents (eng_db (srv_db (cmp_srv s))); n = srv_count (cmp_srv s)
      in states_ok_but X sha m n \<and> cache_ok cached m n (stateinfo_cache s))"

abbreviation compressor_ok ::
  "('d \<Rightarrow> tables) \<Rightarrow> ('c \<Rightarrow> u64 \<rightharpoonup> short_state_info list) \<Rightarrow> (bytes \<Rightarrow> bytes) \<Rightarrow> ('d, 'c) compressor \<Rightarrow> bool"
where
  "compressor_ok \<equiv> compressor_ok_but {}"

context compressor_env
begin

lemma room_hash_read:
  assumes "states_ok_but X sha m n" and "contents (eng_db db) = m"
  shows "get_room_shortstatehash dbg R room db =
    (case m ROOMID_SHORTSTATEHASH room of None \<Rightarrow> Inl DbNotFound | Some v \<Rightarrow> Inr (from_be_bytes v))"
  using states_okD(4) [OF assms(1), of room] assms(2)
  by (cases "m ROOMID_SHORTSTATEHASH room") (auto simp: get_room_shortstatehash_def get_table)

lemma load_parents_ok:
  assumes inv: "states_ok_but X sha m n" and room: "room_state m room P"
    and same: "cmp_tables s SHORTSTATEHASH_STATEDIFF = m SHORTSTATEHASH_STATEDIFF"
    and cache: "cache_ok cached m n (stateinfo_cache s)"
  shows "\<exists>c' stack. load_parents L dbg R (map_option from_be_bytes (m ROOMID_SHORTSTATEHASH room)) s =
      Some (s\<lparr>stateinfo_cache := c'\<rparr>, Inr stack) \<and> valid_stack m stack \<and> base stack = P \<and>
    cache_ok cached m n c' \<and> (\<forall>f \<in> set stack. info_hash f \<le> n)"
proof (cases "m ROOMID_SHORTSTATEHASH room")
  case None
  then show ?thesis
    using room cache by (intro exI [of _ "stateinfo_cache s"] exI [of _ "[]"])
      (auto simp: load_parents_def room_state_def valid_stack_def)
next
  case (Some v)
  then obtain h stack where h: "v = to_be_bytes h" "chain m h stack" "P = base stack"
    using room by (auto simp: room_state_def)
  have "h \<le> n" using states_okD(4) [OF inv Some] h(1) by auto
  then obtain c' where "load_shortstatehash_info L dbg R h s = Some (s\<lparr>stateinfo_cache := c'\<rparr>, Inr stack)"
      "cache_ok cached m n c'"
    using load_chain [of "cmp_tables s" h stack s n] h(2) cache chain_same [of "cmp_tables s" m, OF same]
      cache_ok_same [of "cmp_tables s" m cached, OF same] by auto
  moreover have "info_hash f \<le> n" if "f \<in> set stack" for f
    using chain_last(7) [OF h(2) that] \<open>h \<le> n\<close> by (rule order_trans)
  ultimately show ?thesis
    using Some h chain_last(2) [OF h(2)] by (auto simp: load_parents_def valid_stack_def)
qed

lemma state_changes_base: "state_changes S stack = (S |-| base stack, base stack |-| S)"
  by (simp add: state_changes_def base_def)

lemma save_statediff_ok:
  "\<exists>srv'. save_statediff R h d srv = (srv', Inr ()) \<and> srv_count srv' = srv_count srv \<and>
    srv_tables srv' = put_entry SHORTSTATEHASH_STATEDIFF (to_be_bytes h) (encode_statediff d) (srv_tables srv)"
  unfolding save_statediff_def by (rule put_ignored_insert)


lemma save_state_unfold:
  fixes s :: "('d, 'c) compressor"
  assumes "states_ok_but X sha (cmp_tables s) n"
  shows "save_state L sha dbg R room_id S s =
    (case get_or_create_shortstatehash dbg R (state_digest sha S) (cmp_srv s) of
       (srv, Inl e) \<Rightarrow> Some (s\<lparr>cmp_srv := srv\<rparr>, Inl e)
     | (srv, Inr (h, existed)) \<Rightarrow>
         let previous = map_option from_be_bytes (cmp_tables s ROOMID_SHORTSTATEHASH room_id) in
         if Some h = previous
         then Some (s\<lparr>cmp_srv := srv\<rparr>, Inr \<lparr>res_hash = h, res_added = {||}, res_removed = {||}\<rparr>)
         else
           map_option (\<lambda>m. st_bind m (\<lambda>parents s. store_state L dbg R (h, existed) S parents s))
             (load_parents L dbg R previous (s\<lparr>cmp_srv := srv\<rparr>)))"
  by (cases "cmp_tables s ROOMID_SHORTSTATEHASH room_id")
    (simp_all add: save_state_def room_hash_read [OF assms refl] Let_def state_digest_def split: prod.split sum.split)

lemma save_state_hit:
  fixes s :: "('d, 'c) compressor"
  assumes ok: "compressor_ok contents cached sha s" and room: "room_state (cmp_tables s) room_id P"
    and sha: "collision_free sha (cmp_tables s) S"
    and hit: "cmp_tables s STATEHASH_SHORTSTATEHASH (state_digest sha S) = Some (to_be_bytes h)"
  shows "\<exists>c' stack. save_state L sha dbg R room_id S s = Some (s\<lparr>stateinfo_cache := c'\<rparr>, Inr
      \<lparr>res_hash = h, res_added = S |-| P, res_removed = P |-| S\<rparr>) \<and> chain (cmp_tables s) h stack \<and>
    base stack = S \<and> length stack \<le> 4 \<and> cache_ok cached (cmp_tables s) (srv_count (cmp_srv s)) c'"
proof -
  let ?m = "cmp_tables s" and ?n = "srv_count (cmp_srv s)"
  have inv: "states_ok_but {} sha ?m ?n" and cache: "cache_ok cached ?m ?n (stateinfo_cache s)"
    using ok by (simp_all add: compressor_ok_but_def Let_def)
  obtain stack where stack: "chain ?m h stack" "length stack \<le> 4" "state_digest sha S = state_digest sha (base stack)"
    using states_okD(2) [OF inv hit] by blast
  have S: "base stack = S"
    using sha hit stack(1,3) by (auto simp: collision_free_def)
  show ?thesis
  proof (cases "?m ROOMID_SHORTSTATEHASH room_id = Some (to_be_bytes h)")
    case True
    then obtain st where "chain ?m h st" "P = base st" using room by (auto simp: room_state_def)
    then have "P = S" using chain_unique [OF stack(1)] S by blast
    then have "save_state L sha dbg R room_id S s = Some (s, Inr \<lparr>res_hash = h, res_added = S |-| P, res_removed = P |-| S\<rparr>)"
      using True statehash_hit [OF hit] by (simp add: save_state_unfold [OF inv])
    then show ?thesis
      using stack S cache by (intro exI [of _ "stateinfo_cache s"] exI [of _ stack]) simp
  next
    case False
    obtain c' parents where load: "load_parents L dbg R (map_option from_be_bytes (?m ROOMID_SHORTSTATEHASH room_id)) s =
        Some (s\<lparr>stateinfo_cache := c'\<rparr>, Inr parents)" "base parents = P" "cache_ok cached ?m ?n c'"
      using load_parents_ok [OF inv room refl cache] by blast
    have "Some h \<noteq> map_option from_be_bytes (?m ROOMID_SHORTSTATEHASH room_id)"
      using False states_okD(4) [OF inv, of room_id] by (cases "?m ROOMID_SHORTSTATEHASH room_id") auto
    then have "save_state L sha dbg R room_id S s = Some (s\<lparr>stateinfo_cache := c'\<rparr>, Inr
        \<lparr>res_hash = h, res_added = S |-| P, res_removed = P |-| S\<rparr>)"
      using load statehash_hit [OF hit]
      by (simp add: save_state_unfold [OF inv] Let_def store_state_def state_changes_base)
    then show ?thesis using stack S load(3) by blast
  qed
qed

lemma save_state_miss:
  fixes s :: "('d, 'c) compressor"
  assumes ok: "compressor_ok_but X contents cached sha s" and room: "room_state (cmp_tables s) room_id P"
    and wf: "wf_state S" and n: "srv_count (cmp_srv s) \<noteq> - 1"
    and miss: "cmp_tables s STATEHASH_SHORTSTATEHASH (state_digest sha S) = None"
  shows "\<exists>s' pre. save_state L sha dbg R room_id S s = Some (s', Inr
      \<lparr>res_hash = srv_count (cmp_srv s) + 1, res_added = S |-| P, res_removed = P |-| S\<rparr>) \<and>
    srv_count (cmp_srv s') = srv_count (cmp_srv s) + 1 \<and>
    cmp_tables s' = record_state sha (srv_count (cmp_srv s) + 1) S pre (cmp_tables s) \<and>
    valid_stack (cmp_tables s) pre \<and> length pre \<le> 3 \<and> (\<forall>f \<in> set pre. info_hash f \<le> srv_count (cmp_srv s)) \<and>
    cache_ok cached (cmp_tables s) (srv_count (cmp_srv s)) (stateinfo_cache s')"
proof -
  let ?m = "cmp_tables s" and ?n = "srv_count (cmp_srv s)" and ?d = "state_digest sha S"
  have inv: "states_ok_but X sha ?m ?n" and cache: "cache_ok cached ?m ?n (stateinfo_cache s)"
    using ok by (simp_all add: compressor_ok_but_def Let_def)
  obtain srv where srv: "get_or_create_shortstatehash dbg R ?d (cmp_srv s) = (srv, Inr (?n + 1, False))"
      "srv_count srv = ?n + 1" "srv_tables srv = record_short (KHash ?d) (?n + 1) ?m"
    using statehash_miss [OF shorts_okD(1) [OF states_okD(1) [OF inv]] n miss] by blast
  let ?s1 = "s\<lparr>cmp_srv := srv\<rparr>"
  obtain c' parents where load: "load_parents L dbg R (map_option from_be_bytes (?m ROOMID_SHORTSTATEHASH room_id)) ?s1 =
      Some (?s1\<lparr>stateinfo_cache := c'\<rparr>, Inr parents)" "valid_stack ?m parents" "base parents = P"
      "cache_ok cached ?m ?n c'" "\<forall>f \<in> set parents. info_hash f \<le> ?n"
    using load_parents_ok [OF inv room, of ?s1] cache srv(3) by (auto simp: record_short_other)
  have fresh: "Some (?n + 1) \<noteq> map_option from_be_bytes (?m ROOMID_SHORTSTATEHASH room_id)"
    using states_okD(4) [OF inv, of room_id] u64_less_succ [OF n] by (cases "?m ROOMID_SHORTSTATEHASH room_id") auto
  obtain pre where pre: "valid_stack ?m pre" "length pre \<le> 3" "set pre \<subseteq> set parents"
      "save_state_from_diff R (?n + 1) (S |-| P) (P |-| S) 2 parents srv = save_statediff R (?n + 1) (diff_onto S pre) srv"
    using save_from_diff_plan [OF load(2) wf, of 2 R "?n + 1" srv] load(3) by auto
  obtain srv' where srv': "save_statediff R (?n + 1) (diff_onto S pre) srv = (srv', Inr ())"
      "srv_count srv' = ?n + 1" "srv_tables srv' = record_state sha (?n + 1) S pre ?m"
    using save_statediff_ok [of "?n + 1" "diff_onto S pre" srv] srv(2,3) by (auto simp: record_state_def)
  let ?s' = "s\<lparr>cmp_srv := srv', stateinfo_cache := c'\<rparr>"
  have "save_state L sha dbg R room_id S s =
      Some (?s', Inr \<lparr>res_hash = ?n + 1, res_added = S |-| P, res_removed = P |-| S\<rparr>)"
    using fresh load(1,3) srv(1) pre(4) srv'(1)
    by (simp add: save_state_unfold [OF inv] Let_def store_state_def state_changes_base)
  then show ?thesis
    using pre(1-3) load(4,5) srv'(2,3) by (intro exI [of _ ?s'] exI [of _ pre]) auto
qed

end

context compressor_env
begin

lemma load_ok:
  fixes s :: "('d, 'c) compressor"
  assumes "compressor_ok contents cached sha s" and "chain (cmp_tables s) h stack" and "h \<le> srv_count (cmp_srv s)"
  shows "\<exists>c'. load_shortstatehash_info L dbg R h s = Some (s\<lparr>stateinfo_cache := c'\<rparr>, Inr stack) \<and>
    compressor_ok contents cached sha (s\<lparr>stateinfo_cache := c'\<rparr>)"
  using load_chain [OF assms(2) refl _ assms(3)] assms(1) by (auto simp: compressor_ok_but_def Let_def)

lemma save_state_chains:
  fixes s :: "('d, 'c) compressor"
  assumes ok: "compressor_ok contents cached sha s" and room: "room_state (cmp_tables s) room_id P"
    and wf: "wf_state S" and sha: "collision_free sha (cmp_tables s) S" and n: "srv_count (cmp_srv s) \<noteq> - 1"
  shows "\<exists>s' r stack. save_state L sha dbg R room_id S s = Some (s', Inr r) \<and> compressor_ok contents cached sha s' \<and>
    res_added r = S |-| P \<and> res_removed r = P |-| S \<and> chain (cmp_tables s') (res_hash r) stack \<and> base stack = S \<and>
    length stack \<le> 4 \<and> res_hash r \<le> srv_count (cmp_srv s') \<and> srv_count (cmp_srv s) \<le> srv_count (cmp_srv s') \<and>
    (\<forall>h old. h \<le> srv_count (cmp_srv s) \<longrightarrow> chain (cmp_tables s) h old \<longrightarrow> chain (cmp_tables s') h old)"
proof -
  let ?m = "cmp_tables s" and ?n = "srv_count (cmp_srv s)" and ?d = "state_digest sha S"
  have inv: "states_ok_but {} sha ?m ?n" using ok by (simp add: compressor_ok_but_def Let_def)
  show ?thesis
  proof (cases "?m STATEHASH_SHORTSTATEHASH ?d")
    case None
    obtain s' pre where s': "save_state L sha dbg R room_id S s = Some (s', Inr
        \<lparr>res_hash = ?n + 1, res_added = S |-| P, res_removed = P |-| S\<rparr>)" "srv_count (cmp_srv s') = ?n + 1"
        "cmp_tables s' = record_state sha (?n + 1) S pre ?m" "valid_stack ?m pre" "length pre \<le> 3"
        "\<forall>f \<in> set pre. info_hash f \<le> ?n" "cache_ok cached ?m ?n (stateinfo_cache s')"
      using save_state_miss [OF ok room wf n None] by blast
    note step = u64_less_succ [OF n]
    note chains = record_state_chain [OF step s'(4,6) wf, where sha = sha]
    have "states_ok_but {} sha (cmp_tables s') (?n + 1)"
      unfolding s'(3) by (rule record_state_ok [OF inv step s'(4-6) wf])
    moreover have "cache_ok cached (cmp_tables s') (?n + 1) (stateinfo_cache s')"
      using s'(7) chains(1) order_trans [OF _ less_imp_le [OF step]] unfolding s'(3) cache_ok_def by blast
    ultimately have "compressor_ok contents cached sha s'" using s'(2) by (simp add: compressor_ok_but_def Let_def)
    then show ?thesis
      using s'(1,2,5) chains step
      by (intro exI [of _ s'] exI [of _ "\<lparr>res_hash = ?n + 1, res_added = S |-| P, res_removed = P |-| S\<rparr>"]
          exI [of _ "pre @ [frame (?n + 1) S (base pre)]"]) (simp add: s'(3) less_imp_le)
  next
    case (Some v)
    then obtain h where h: "h \<le> ?n" "?m STATEHASH_SHORTSTATEHASH ?d = Some (to_be_bytes h)"
      using states_okD(3) [OF inv Some] by auto
    obtain c' stack where "save_state L sha dbg R room_id S s = Some (s\<lparr>stateinfo_cache := c'\<rparr>, Inr
        \<lparr>res_hash = h, res_added = S |-| P, res_removed = P |-| S\<rparr>)" "chain ?m h stack" "base stack = S" "length stack \<le> 4"
        "cache_ok cached ?m ?n c'"
      using save_state_hit [OF ok room sha h(2)] by blast
    with h(1) inv show ?thesis
      by (intro exI [of _ "s\<lparr>stateinfo_cache := c'\<rparr>"]
          exI [of _ "\<lparr>res_hash = h, res_added = S |-| P, res_removed = P |-| S\<rparr>"] exI [of _ stack])
        (simp add: compressor_ok_but_def Let_def)
  qed
qed

end

text \<open>
  C16: Merging is exact: a difference merged into the difference of the parent is the difference to the
  grandparent, with nothing listed twice and nothing listed that cancels out.
\<close>

theorem merge_into_parent_exact:
  assumes "info_added parent = full_state parent |-| G" and "info_removed parent = G |-| full_state parent"
  shows "merge_into_parent parent (S |-| full_state parent) (full_state parent |-| S) = (S |-| G, G |-| S)"
  using merge_exact [of G parent S] assms by (simp add: exact_def)

theorem merge_into_parent_exact_witness:
  "merge_into_parent (frame 5 {|[1], [2]|} {|[2], [3]|}) {|[3]|} {|[1]|} = ({||}, {||})"
proof -
  have "{|[2 :: u8], [3]|} |-| {|[1], [2]|} = {|[3]|}" "{|[1 :: u8], [2]|} |-| {|[2], [3]|} = {|[1]|}"
    by auto
  then show ?thesis
    using merge_into_parent_exact [of "frame 5 {|[1], [2]|} {|[2], [3]|}" "{|[2], [3]|}" "{|[2], [3]|}"] by simp
qed

text \<open>
  C9: A state that was saved is the state that is loaded. Saving a state of a room succeeds and reports the
  changes against the state the room had; loading the hash it returns ends, with this state, after at most four
  differences; and what was loadable before loads the same as before.
\<close>

theorem save_state_loads:
  fixes s :: "('d, 'c) compressor"
  assumes env: "compressor_env R contents ahead L cached" and ok: "compressor_ok contents cached sha s"
    and room: "room_state (contents (eng_db (srv_db (cmp_srv s)))) room_id P"
    and "wf_state S" and "collision_free sha (contents (eng_db (srv_db (cmp_srv s)))) S" and "srv_count (cmp_srv s) \<noteq> - 1"
  shows "\<exists>s' r. save_state L sha dbg R room_id S s = Some (s', Inr r) \<and> compressor_ok contents cached sha s' \<and>
    res_added r = S |-| P \<and> res_removed r = P |-| S \<and>
    (\<exists>s1 stack. load_shortstatehash_info L dbg R (res_hash r) s' = Some (s1, Inr stack) \<and>
       full_state (last stack) = S \<and> length stack \<le> 4) \<and>
    (\<forall>h stack. h \<le> srv_count (cmp_srv s) \<longrightarrow> chain (contents (eng_db (srv_db (cmp_srv s)))) h stack \<longrightarrow>
       (\<exists>s1. load_shortstatehash_info L dbg R h s' = Some (s1, Inr stack)))"
proof -
  obtain s' r stack where saved: "save_state L sha dbg R room_id S s = Some (s', Inr r)"
      "compressor_ok contents cached sha s'" "res_added r = S |-| P" "res_removed r = P |-| S"
      "chain (contents (eng_db (srv_db (cmp_srv s')))) (res_hash r) stack" "base stack = S" "length stack \<le> 4"
      "res_hash r \<le> srv_count (cmp_srv s')" "srv_count (cmp_srv s) \<le> srv_count (cmp_srv s')"
    and old: "\<And>h st. h \<le> srv_count (cmp_srv s) \<Longrightarrow> chain (contents (eng_db (srv_db (cmp_srv s)))) h st \<Longrightarrow>
      chain (contents (eng_db (srv_db (cmp_srv s')))) h st"
    using compressor_env.save_state_chains [OF assms, of dbg] by blast
  note load = compressor_env.load_ok [OF env saved(2), where dbg = dbg]
  have "full_state (last stack) = S" using saved(6) chain_last(1) [OF saved(5)] by (simp add: base_def)
  with load [OF saved(5,8)] have "\<exists>s1 st. load_shortstatehash_info L dbg R (res_hash r) s' = Some (s1, Inr st) \<and>
      full_state (last st) = S \<and> length st \<le> 4"
    using saved(7) by blast
  moreover have "\<exists>s1. load_shortstatehash_info L dbg R h s' = Some (s1, Inr st)"
    if "h \<le> srv_count (cmp_srv s)" "chain (contents (eng_db (srv_db (cmp_srv s)))) h st" for h st
    using load [OF old [OF that] order_trans [OF that(1) saved(9)]] by blast
  ultimately show ?thesis using saved(1-4) by blast
qed

text \<open>
  C15: Loading ends: every hash the server has recorded for a state loads, from the cache or from the database, and
  gives the state it was recorded for.
\<close>

theorem load_terminates:
  fixes s :: "('d, 'c) compressor"
  assumes env: "compressor_env R contents ahead L cached" and ok: "compressor_ok contents cached sha s"
    and "contents (eng_db (srv_db (cmp_srv s))) STATEHASH_SHORTSTATEHASH d = Some (to_be_bytes h)"
  shows "\<exists>s' stack. load_shortstatehash_info L dbg R h s = Some (s', Inr stack) \<and> length stack \<le> 4 \<and>
    delimited sha (sorted_list_of_fset (full_state (last stack))) = d \<and> cmp_srv s' = cmp_srv s"
proof -
  have inv: "states_ok_but {} sha (contents (eng_db (srv_db (cmp_srv s)))) (srv_count (cmp_srv s))"
    using ok by (simp add: compressor_ok_but_def Let_def)
  obtain stack where stack: "chain (contents (eng_db (srv_db (cmp_srv s)))) h stack" "length stack \<le> 4"
      "d = state_digest sha (base stack)"
    using states_okD(2) [OF inv assms(3)] by blast
  have "h \<le> srv_count (cmp_srv s)" using states_okD(3) [OF inv assms(3)] by auto
  then show ?thesis
    using compressor_env.load_ok [OF env ok stack(1), of dbg] stack(2,3) chain_last(1) [OF stack(1)]
    by (auto simp: state_digest_def base_def)
qed

subsection \<open>A cache and a hash to run it with\<close>

definition list_lru :: "nat \<Rightarrow> (u64 \<times> short_state_info list) list lru" where
  "list_lru cap =
     \<lparr>lru_get_mut = (\<lambda>c k. case map_of c k of
          None \<Rightarrow> (None, c)
        | Some v \<Rightarrow> (Some v, (k, v) # filter (\<lambda>e. fst e \<noteq> k) c)),
      lru_insert = (\<lambda>c k v. take cap ((k, v) # filter (\<lambda>e. fst e \<noteq> k) c)),
      lru_clear = (\<lambda>_. [])\<rparr>"

lemma map_of_take: "map_of (take n xs) k = Some v \<Longrightarrow> map_of xs k = Some v"
  by (metis append_take_drop_id map_add_find_right map_of_append map_add_Some_iff)

lemma map_of_filter_key: "map_of (filter (\<lambda>e. fst e \<noteq> k) xs) = (map_of xs)(k := None)"
  by (induction xs) (auto simp: fun_eq_iff)

interpretation mem_cmp: compressor_env mem_rocks mem_contents mem_ahead dbg "list_lru cap" map_of for dbg cap
proof unfold_locales
  fix c c' :: "(u64 \<times> short_state_info list) list" and k k' found v v'
  show "lru_get_mut (list_lru cap) c k = (found, c') \<Longrightarrow> found = map_of c k \<and> map_of c' = map_of c"
    by (auto simp: list_lru_def map_of_filter_key split: option.splits)
  show "map_of (lru_insert (list_lru cap) c k v) k' = Some v' \<Longrightarrow> (if k' = k then v' = v else map_of c k' = Some v')"
    by (auto simp: list_lru_def dest!: map_of_take simp: map_of_filter_key split: if_splits)
  show "map_of (lru_clear (list_lru cap) c) = Map.empty" by (simp add: list_lru_def)
qed

definition sample_compressor :: "(mem_db, (u64 \<times> short_state_info list) list) compressor" where
  "sample_compressor = \<lparr>cmp_srv = sample_server, stateinfo_cache = []\<rparr>"

lemma sample_compressor_ok: "compressor_ok mem_contents map_of sha sample_compressor"
  using empty_server_ok
  by (simp add: compressor_ok_but_def states_ok_but_def cache_ok_def sample_compressor_def sample_server_def empty_db_def
      mem_contents_def)

lemma sample_room_state: "room_state (mem_contents (eng_db (srv_db (cmp_srv sample_compressor)))) room {||}"
  by (simp add: room_state_def sample_compressor_def sample_server_def empty_db_def mem_contents_def)

lemma sample_state_wf: "k \<noteq> 0 \<Longrightarrow> wf_state {|compress_state_event k i|}"
  by (simp add: wf_state_def compress_state_event_wf fcard.rep_eq)

lemma sample_collision_free: "collision_free sha (mem_contents (eng_db (srv_db (cmp_srv sample_compressor)))) S"
  by (simp add: collision_free_def sample_compressor_def sample_server_def empty_db_def mem_contents_def)

lemma sample_room_left: "srv_count (cmp_srv sample_compressor) \<noteq> - 1"
  by (simp add: sample_compressor_def sample_server_def)

theorem save_state_loads_witness:
  "\<exists>s r s1 stack. save_state (list_lru 2) id True mem_rocks [0x21] {|compress_state_event 1 2|} sample_compressor =
       Some (s, Inr r) \<and>
     load_shortstatehash_info (list_lru 2) True mem_rocks (res_hash r) s = Some (s1, Inr stack) \<and>
     full_state (last stack) = {|compress_state_event 1 2|}"
proof -
  have "wf_state {|compress_state_event 1 2|}" by (rule sample_state_wf) simp
  from save_state_loads [where dbg = True and sha = id and room_id = "[0x21]", OF mem_cmp.compressor_env_axioms [where cap = 2]
      sample_compressor_ok sample_room_state this sample_collision_free sample_room_left]
  show ?thesis by (elim exE conjE) (intro exI conjI)
qed

theorem load_terminates_witness:
  "\<exists>s h s1 stack. mem_contents (eng_db (srv_db (cmp_srv s))) STATEHASH_SHORTSTATEHASH
       (state_digest id {|compress_state_event 1 2|}) = Some (to_be_bytes h) \<and>
     load_shortstatehash_info (list_lru 2) True mem_rocks h s = Some (s1, Inr stack) \<and> length stack \<le> 4"
proof -
  let ?S = "{|compress_state_event 1 2|}" and ?h = "srv_count (cmp_srv sample_compressor) + 1"
  have miss: "mem_contents (eng_db (srv_db (cmp_srv sample_compressor))) STATEHASH_SHORTSTATEHASH d = None" for d
    by (simp add: sample_compressor_def sample_server_def empty_db_def mem_contents_def)
  have wf: "wf_state ?S" by (rule sample_state_wf) simp
  note saved = mem_cmp.save_state_miss [where cap = 2 and dbg = True and sha = id and room_id = "[]",
      OF sample_compressor_ok sample_room_state wf sample_room_left miss]
  obtain s' r pre where s': "save_state (list_lru 2) id True mem_rocks [] ?S sample_compressor = Some (s', Inr r)"
      "mem_contents (eng_db (srv_db (cmp_srv s'))) = record_state id ?h ?S pre (mem_contents (eng_db (srv_db (cmp_srv sample_compressor))))"
    using saved by blast
  moreover have "compressor_ok mem_contents map_of id s'"
    using mem_cmp.save_state_chains [where cap = 2 and dbg = True and sha = id and room_id = "[]",
        OF sample_compressor_ok sample_room_state wf sample_collision_free sample_room_left] s'(1) by auto
  moreover have hash: "mem_contents (eng_db (srv_db (cmp_srv s'))) STATEHASH_SHORTSTATEHASH (state_digest id ?S) = Some (to_be_bytes ?h)"
    by (simp add: s'(2) record_state_apply)
  ultimately have "\<exists>s1 stack. load_shortstatehash_info (list_lru 2) True mem_rocks ?h s' = Some (s1, Inr stack) \<and>
      length stack \<le> 4"
    using load_terminates [where dbg = True and s = s' and h = ?h and sha = id,
        OF mem_cmp.compressor_env_axioms [where cap = 2]] by blast
  with hash show ?thesis by blast
qed

end
