(* ===== verification/State_Compressor_Lost.thy ===== *)
theory State_Compressor_Lost
  imports State_Compressor_Props
begin

section \<open>A difference that was not written\<close>

text \<open>
  \<open>save_statediff\<close> drops the error of its write, after the hash of the state was recorded. What becomes of such a
  state: its digest keeps a number under which nothing is stored, through every later save.
\<close>

subsection \<open>The write that fails\<close>

text \<open>The database, with every write of a difference refused.\<close>

definition diff_write_fails :: "rocks_error \<Rightarrow> ('d, 'it) rocksdb \<Rightarrow> ('d, 'it) rocksdb" where
  "diff_write_fails e R = R\<lparr>put_cf := \<lambda>d c k v.
     if c = SHORTSTATEHASH_STATEDIFF then Inl e else put_cf R d c k v\<rparr>"

lemma diff_write_fails_parts:
  "engine_flush (diff_write_fails e R) = engine_flush R" "engine_sync (diff_write_fails e R) = engine_sync R"
  "map_get_blocking (diff_write_fails e R) = map_get_blocking R" "map_get_cached (diff_write_fails e R) = map_get_cached R"
  by (simp_all add: fun_eq_iff diff_write_fails_def engine_flush_def engine_sync_def map_get_cached_def map_get_blocking_def)

lemma diff_write_fails_same:
  "map_get (diff_write_fails e R) = map_get R" "stored_count (diff_write_fails e R) = stored_count R"
  "cork_drop (diff_write_fails e R) = cork_drop R"
  by (simp_all add: fun_eq_iff map_get_def stored_count_def cork_drop_def diff_write_fails_parts
      cong: if_cong option.case_cong sum.case_cong)

lemma diff_write_fails_insert:
  assumes "c \<noteq> SHORTSTATEHASH_STATEDIFF"
  shows "map_insert (diff_write_fails e R) c = map_insert R c"
proof -
  have "put_cf (diff_write_fails e R) d c = put_cf R d c" for d
    using assms by (simp add: diff_write_fails_def fun_eq_iff)
  then show ?thesis
    by (simp add: fun_eq_iff map_insert_def flush_if_uncorked_def diff_write_fails_parts cong: if_cong)
qed

lemma statehash_same:
  "get_or_create_shortstatehash dbg (diff_write_fails e R) d srv = get_or_create_shortstatehash dbg R d srv"
proof -
  have inserts: "map_insert (diff_write_fails e R) GLOBAL = map_insert R GLOBAL"
      "map_insert (diff_write_fails e R) STATEHASH_SHORTSTATEHASH = map_insert R STATEHASH_SHORTSTATEHASH"
    using state_columns_apart(1) [of "KHash d"] by (simp_all add: diff_write_fails_insert state_columns_apart(5))
  have draws: "next_short dbg (diff_write_fails e R) = next_short dbg R"
    unfolding fun_eq_iff next_short_def server_counter_next_def count_matches_def diff_write_fails_same inserts by simp
  show ?thesis
    unfolding get_or_create_shortstatehash_def diff_write_fails_same short_puts inserts draws ..
qed

lemma statediff_same: "get_statediff dbg (diff_write_fails e R) = get_statediff dbg R"
  unfolding fun_eq_iff get_statediff_def map_aqry_def map_bqry_def diff_write_fails_same by simp

lemma room_hash_same: "get_room_shortstatehash dbg (diff_write_fails e R) = get_room_shortstatehash dbg R"
  unfolding fun_eq_iff get_room_shortstatehash_def diff_write_fails_same by simp

text \<open>Loading does not write, so what it returns it returns here as well.\<close>

lemma load_same:
  assumes "load_shortstatehash_info L dbg R h s = Some y"
  shows "load_shortstatehash_info L dbg (diff_write_fails e R) h s = Some y"
proof (rule load_shortstatehash_info.raw_induct
    [where P = "\<lambda>L dbg R h s y. load_shortstatehash_info L dbg (diff_write_fails e R) h s = Some y", OF _ assms], goal_cases)
  case (1 load L dbg R h s y)
  note IH = 1(1)
  from 1(2) show ?case
    by (subst load_shortstatehash_info.simps)
      (auto simp: statediff_same Let_def bind_eq_Some_conv dest!: IH split: prod.splits option.splits sum.splits)
qed

lemma load_parents_same:
  assumes "load_parents L dbg R previous s = Some y"
  shows "load_parents L dbg (diff_write_fails e R) previous s = Some y"
  using assms load_same by (fastforce simp: load_parents_def split: option.splits)

lemma save_statediff_dropped: "save_statediff (diff_write_fails e R) h d srv = (srv, Inr ())"
  by (simp add: save_statediff_def put_ignored_def map_insert_def engine_write_def diff_write_fails_def map_err_def)

subsection \<open>What the failed write leaves\<close>

lemma some_room_state:
  assumes "states_ok_but X sha m n"
  shows "\<exists>P. room_state m room P"
proof (cases "m ROOMID_SHORTSTATEHASH room")
  case (Some v)
  then show ?thesis using states_okD(4) [OF assms Some] by (auto simp: room_state_def)
qed (auto simp: room_state_def)

lemma record_short_states_ok:
  assumes inv: "states_ok_but X sha m n" and "n < h"
  shows "states_ok_but (insert d X) sha (record_short (KHash d) h m) h"
proof -
  let ?m = "record_short (KHash d) h m"
  have chains: "chain ?m k stack \<longleftrightarrow> chain m k stack" for k stack
    by (rule chain_same) (simp add: record_short_other)
  have old: "m STATEHASH_SHORTSTATEHASH d' = Some v" if "?m STATEHASH_SHORTSTATEHASH d' = Some v" "d' \<noteq> d" for d' v
    using that record_short_apply [of "KHash d" h m "KHash d'" d'] by simp
  have "\<exists>k stack. v = to_be_bytes k \<and> k \<le> h \<and> chain m k stack" if row: "m ROOMID_SHORTSTATEHASH room = Some v" for room v
  proof -
    obtain k stack where "v = to_be_bytes k" "k \<le> n" "chain m k stack" using states_okD(4) [OF inv row] by blast
    moreover from this(2) have "k \<le> h" using assms(2) by (rule order_trans [OF _ less_imp_le])
    ultimately show ?thesis by blast
  qed
  then show ?thesis
    using states_okD(2) [OF inv old] record_short_ok [OF states_okD(1) [OF inv] assms(2)]
    by (auto simp: states_ok_but_def chains record_short_other)
qed

context compressor_env
begin

text \<open>The digest \<open>d\<close> has the number \<open>h\<close>, under which no difference is stored.\<close>

definition lost_at :: "bytes \<Rightarrow> u64 \<Rightarrow> ('d, 'c) compressor \<Rightarrow> bool" where
  "lost_at d h s \<longleftrightarrow>
     cmp_tables s STATEHASH_SHORTSTATEHASH d = Some (to_be_bytes h) \<and>
     cmp_tables s SHORTSTATEHASH_STATEDIFF (to_be_bytes h) = None"

lemma save_state_unwritten:
  fixes s :: "('d, 'c) compressor"
  assumes ok: "compressor_ok_but X contents cached sha s" and room: "room_state (cmp_tables s) room_id P"
    and wf: "wf_state S" and n: "srv_count (cmp_srv s) \<noteq> - 1"
    and miss: "cmp_tables s STATEHASH_SHORTSTATEHASH (state_digest sha S) = None"
    and free: "cmp_tables s SHORTSTATEHASH_STATEDIFF (to_be_bytes (srv_count (cmp_srv s) + 1)) = None"
  shows "\<exists>s'. save_state L sha dbg (diff_write_fails e R) room_id S s = Some (s', Inr
      \<lparr>res_hash = srv_count (cmp_srv s) + 1, res_added = S |-| P, res_removed = P |-| S\<rparr>) \<and>
    compressor_ok_but (insert (state_digest sha S) X) contents cached sha s' \<and>
    lost_at (state_digest sha S) (srv_count (cmp_srv s) + 1) s'"
proof -
  let ?m = "cmp_tables s" and ?n = "srv_count (cmp_srv s)" and ?d = "state_digest sha S" and ?R = "diff_write_fails e R"
  let ?previous = "map_option from_be_bytes (?m ROOMID_SHORTSTATEHASH room_id)"
  have inv: "states_ok_but X sha ?m ?n" and cache: "cache_ok cached ?m ?n (stateinfo_cache s)"
    using ok by (simp_all add: compressor_ok_but_def Let_def)
  note more = u64_less_succ [OF n]
  obtain srv where srv: "get_or_create_shortstatehash dbg R ?d (cmp_srv s) = (srv, Inr (?n + 1, False))"
      "srv_count srv = ?n + 1" "srv_tables srv = record_short (KHash ?d) (?n + 1) ?m"
    using statehash_miss [OF shorts_okD(1) [OF states_okD(1) [OF inv]] n miss] by blast
  let ?s1 = "s\<lparr>cmp_srv := srv\<rparr>"
  obtain c' parents where load: "load_parents L dbg R ?previous ?s1 = Some (?s1\<lparr>stateinfo_cache := c'\<rparr>, Inr parents)"
      "valid_stack ?m parents" "base parents = P" "cache_ok cached ?m ?n c'"
    using load_parents_ok [OF inv room, of ?s1] cache srv(3) by (auto simp: record_short_other)
  have fresh: "Some (?n + 1) \<noteq> ?previous"
    using states_okD(4) [OF inv, of room_id] more by (cases "?m ROOMID_SHORTSTATEHASH room_id") auto
  obtain pre where pre: "save_state_from_diff ?R (?n + 1) (S |-| P) (P |-| S) 2 parents srv = save_statediff ?R (?n + 1) (diff_onto S pre) srv"
    using save_from_diff_plan [OF load(2) wf, of 2 ?R "?n + 1" srv] load(3) by auto
  let ?s' = "s\<lparr>cmp_srv := srv, stateinfo_cache := c'\<rparr>"
  have found: "get_room_shortstatehash dbg ?R room_id (srv_db (cmp_srv s)) =
      (case ?m ROOMID_SHORTSTATEHASH room_id of None \<Rightarrow> Inl DbNotFound | Some v \<Rightarrow> Inr (from_be_bytes v))"
    unfolding room_hash_same by (rule room_hash_read [OF inv refl])
  have "save_state L sha dbg ?R room_id S s =
      Some (?s', Inr \<lparr>res_hash = ?n + 1, res_added = S |-| P, res_removed = P |-| S\<rparr>)"
    using fresh load_parents_same [OF load(1), of e] load(3) srv(1) pre
    by (cases "?m ROOMID_SHORTSTATEHASH room_id")
      (simp_all add: save_state_def found statehash_same Let_def state_digest_def [symmetric] store_state_def state_changes_base
        save_statediff_dropped)
  moreover have "compressor_ok_but (insert ?d X) contents cached sha ?s'"
    using record_short_states_ok [OF inv more, of ?d] load(4) order_trans [OF _ less_imp_le [OF more]]
      chain_same [of "record_short (KHash ?d) (?n + 1) ?m" ?m]
    by (auto simp: compressor_ok_but_def Let_def srv(2,3) record_short_other cache_ok_def)
  moreover have "lost_at ?d (?n + 1) ?s'"
    using free record_short_apply [of "KHash ?d" "?n + 1" ?m "KHash ?d" ?d] by (simp add: lost_at_def srv(3) record_short_other)
  ultimately show ?thesis by blast
qed

subsection \<open>It is lost for good\<close>

lemma load_lost:
  fixes s :: "('d, 'c) compressor"
  assumes "compressor_ok_but X contents cached sha s" and "lost_at d h s"
  shows "\<exists>s'. load_shortstatehash_info L dbg R h s = Some (s', Inl SrvDatabase)"
proof -
  have "\<not> chain (cmp_tables s) h stack" for stack
    using chain_stored assms(2) by (fastforce simp: lost_at_def)
  then have "cached (stateinfo_cache s) h = None"
    using assms(1) by (cases "cached (stateinfo_cache s) h") (auto simp: compressor_ok_but_def cache_ok_def Let_def)
  then obtain c' where "lru_get_mut L (stateinfo_cache s) h = (None, c')" by (rule load_missed)
  moreover have "get_statediff dbg R h (srv_db (cmp_srv s)) = Inl SrvDatabase"
    using get_statediff_missing assms(2) by (simp add: lost_at_def)
  ultimately show ?thesis
    by (simp add: load_shortstatehash_info_unfold new_shortstatehash_info_def cache_stack_def)
qed

lemma save_state_again:
  fixes s :: "('d, 'c) compressor"
  assumes ok: "compressor_ok_but X contents cached sha s"
    and hit: "cmp_tables s STATEHASH_SHORTSTATEHASH (state_digest sha T) = Some (to_be_bytes h)"
  shows "\<exists>c' r. save_state L sha dbg R room_id T s = Some (s\<lparr>stateinfo_cache := c'\<rparr>, Inr r) \<and> res_hash r = h \<and>
    compressor_ok_but X contents cached sha (s\<lparr>stateinfo_cache := c'\<rparr>)"
proof -
  let ?m = "cmp_tables s" and ?n = "srv_count (cmp_srv s)"
  let ?previous = "map_option from_be_bytes (?m ROOMID_SHORTSTATEHASH room_id)"
  have inv: "states_ok_but X sha ?m ?n" and cache: "cache_ok cached ?m ?n (stateinfo_cache s)"
    using ok by (simp_all add: compressor_ok_but_def Let_def)
  obtain P where "room_state ?m room_id P" using some_room_state [OF inv] by blast
  then obtain c' parents where load: "load_parents L dbg R ?previous s = Some (s\<lparr>stateinfo_cache := c'\<rparr>, Inr parents)"
      "cache_ok cached ?m ?n c'"
    using load_parents_ok [OF inv _ refl cache] by blast
  note saved = save_state_unfold [OF inv, where S = T and room_id = room_id] statehash_hit [OF hit]
  show ?thesis
  proof (cases "Some h = ?previous")
    case True
    then show ?thesis
      using ok by (intro exI [of _ "stateinfo_cache s"] exI [of _ "\<lparr>res_hash = h, res_added = {||}, res_removed = {||}\<rparr>"])
        (simp add: saved Let_def)
  next
    case False
    then show ?thesis
      using load inv by (intro exI [of _ c'] exI [of _ "\<lparr>res_hash = h, res_added = T |-| base parents, res_removed = base parents |-| T\<rparr>"])
        (simp add: saved Let_def store_state_def state_changes_base compressor_ok_but_def)
  qed
qed

lemma save_state_lost:
  fixes s :: "('d, 'c) compressor"
  assumes ok: "compressor_ok_but X contents cached sha s" and lost: "lost_at d h s"
    and wf: "wf_state T" and n: "srv_count (cmp_srv s) \<noteq> - 1"
  shows "\<exists>s' r. save_state L sha dbg R room_id T s = Some (s', Inr r) \<and>
    compressor_ok_but X contents cached sha s' \<and> lost_at d h s'"
proof (cases "cmp_tables s STATEHASH_SHORTSTATEHASH (state_digest sha T)")
  case None
  let ?m = "cmp_tables s" and ?n = "srv_count (cmp_srv s)"
  have inv: "states_ok_but X sha ?m ?n" using ok by (simp add: compressor_ok_but_def Let_def)
  note more = u64_less_succ [OF n]
  obtain P where room: "room_state ?m room_id P" using some_room_state [OF inv] by blast
  obtain s' pre r where s': "save_state L sha dbg R room_id T s = Some (s', Inr r)" "srv_count (cmp_srv s') = ?n + 1"
      "cmp_tables s' = record_state sha (?n + 1) T pre ?m" "valid_stack ?m pre" "length pre \<le> 3"
      "\<forall>f \<in> set pre. info_hash f \<le> ?n" "cache_ok cached ?m ?n (stateinfo_cache s')"
    using save_state_miss [OF ok room wf n None] by blast
  note chains = record_state_chain [OF more s'(4,6) wf, where sha = sha]
  have "states_ok_but X sha (cmp_tables s') (?n + 1)"
    unfolding s'(3) by (rule record_state_ok [OF inv more s'(4-6) wf])
  moreover have "cache_ok cached (cmp_tables s') (?n + 1) (stateinfo_cache s')"
    using s'(7) chains(1) order_trans [OF _ less_imp_le [OF more]] unfolding s'(3) cache_ok_def by blast
  moreover have "h \<le> ?n" using states_okD(3) [OF inv, of d] lost by (auto simp: lost_at_def)
  then have "lost_at d h s'" using lost more None by (auto simp: lost_at_def s'(3) record_state_apply)
  ultimately show ?thesis using s'(1,2) by (auto simp: compressor_ok_but_def Let_def)
next
  case (Some v)
  have "states_ok_but X sha (cmp_tables s) (srv_count (cmp_srv s))" using ok by (simp add: compressor_ok_but_def Let_def)
  then obtain k where "v = to_be_bytes k" using states_okD(3) Some by blast
  then show ?thesis using save_state_again [OF ok, of T k room_id] Some lost by (fastforce simp: lost_at_def)
qed

end

text \<open>Any number of saves, of any states in any rooms.\<close>

inductive later_saves ::
  "'c lru \<Rightarrow> (bytes \<Rightarrow> bytes) \<Rightarrow> bool \<Rightarrow> ('d, 'it) rocksdb \<Rightarrow> ('d, 'c) compressor \<Rightarrow> ('d, 'c) compressor \<Rightarrow> bool"
  for L sha dbg R s
where
  none: "later_saves L sha dbg R s s"
| one: "later_saves L sha dbg R s s' \<Longrightarrow> wf_state T \<Longrightarrow> srv_count (cmp_srv s') \<noteq> - 1 \<Longrightarrow>
    save_state L sha dbg R room_id T s' = Some (s'', r) \<Longrightarrow> later_saves L sha dbg R s s''"

context compressor_env
begin

lemma later_saves_lost:
  fixes s :: "('d, 'c) compressor"
  assumes "later_saves L sha dbg R s s'" and "compressor_ok_but X contents cached sha s" and "lost_at d h s"
  shows "compressor_ok_but X contents cached sha s' \<and> lost_at d h s'"
  using assms(1)
proof induction
  case none
  then show ?case using assms(2,3) by simp
next
  case (one s' T room_id s'' r)
  then show ?case using save_state_lost [of X sha s' d h T room_id] by auto
qed

end

text \<open>
  C37: A difference whose write fails is lost for good. Saving a state that has no hash yet reports success, with a
  new hash and the right changes, although the database refused to store the difference. However many states are
  saved afterwards, with a database that works again, loading that hash fails, and saving the same state in any
  room reports the hash again and writes nothing.
\<close>

theorem lost_statediff:
  fixes s :: "('d, 'c) compressor"
  assumes env: "compressor_env R contents ahead L cached" and ok: "compressor_ok contents cached sha s"
    and room: "room_state (contents (eng_db (srv_db (cmp_srv s)))) room_id P"
    and wf: "wf_state S" and n: "srv_count (cmp_srv s) \<noteq> - 1"
    and miss: "contents (eng_db (srv_db (cmp_srv s))) STATEHASH_SHORTSTATEHASH (delimited sha (sorted_list_of_fset S)) = None"
    and free: "contents (eng_db (srv_db (cmp_srv s))) SHORTSTATEHASH_STATEDIFF (to_be_bytes (srv_count (cmp_srv s) + 1)) = None"
  shows "\<exists>s1 r. save_state L sha dbg (diff_write_fails e R) room_id S s = Some (s1, Inr r) \<and>
    res_hash r = srv_count (cmp_srv s) + 1 \<and> res_added r = S |-| P \<and> res_removed r = P |-| S \<and>
    (\<forall>s2. later_saves L sha dbg R s1 s2 \<longrightarrow>
       (\<exists>s3. load_shortstatehash_info L dbg R (res_hash r) s2 = Some (s3, Inl SrvDatabase)) \<and>
       (\<forall>room'. \<exists>s3 r'. save_state L sha dbg R room' S s2 = Some (s3, Inr r') \<and> res_hash r' = res_hash r \<and>
          contents (eng_db (srv_db (cmp_srv s3))) = contents (eng_db (srv_db (cmp_srv s2)))))"
proof -
  let ?h = "srv_count (cmp_srv s) + 1" and ?d = "state_digest sha S"
  note [simp] = compressor_env.lost_at_def [OF env]
  obtain s1 where s1: "save_state L sha dbg (diff_write_fails e R) room_id S s = Some (s1, Inr
        \<lparr>res_hash = ?h, res_added = S |-| P, res_removed = P |-| S\<rparr>)"
      "compressor_ok_but {?d} contents cached sha s1" "compressor_env.lost_at contents ?d ?h s1"
    using compressor_env.save_state_unwritten [OF env ok room wf n miss [folded state_digest_def] free] by blast
  have "(\<exists>s3. load_shortstatehash_info L dbg R ?h s2 = Some (s3, Inl SrvDatabase)) \<and>
      (\<forall>room'. \<exists>s3 r'. save_state L sha dbg R room' S s2 = Some (s3, Inr r') \<and> res_hash r' = ?h \<and>
         contents (eng_db (srv_db (cmp_srv s3))) = contents (eng_db (srv_db (cmp_srv s2))))"
    if "later_saves L sha dbg R s1 s2" for s2
  proof -
    have still: "compressor_ok_but {?d} contents cached sha s2" "compressor_env.lost_at contents ?d ?h s2"
      using compressor_env.later_saves_lost [OF env that s1(2,3)] by auto
    then have "contents (eng_db (srv_db (cmp_srv s2))) STATEHASH_SHORTSTATEHASH ?d = Some (to_be_bytes ?h)" by simp
    note again = compressor_env.save_state_again [OF env still(1) this, where dbg = dbg]
    have "\<exists>s3 r'. save_state L sha dbg R room' S s2 = Some (s3, Inr r') \<and> res_hash r' = ?h \<and>
        contents (eng_db (srv_db (cmp_srv s3))) = contents (eng_db (srv_db (cmp_srv s2)))" for room'
      using again [of room'] by force
    then show ?thesis using compressor_env.load_lost [OF env still, of dbg] by blast
  qed
  then show ?thesis using s1(1) by (intro exI [of _ s1] exI) auto
qed

theorem lost_statediff_witness:
  "\<exists>s1 r s2. save_state (list_lru 2) id True (diff_write_fails \<lparr>re_kind = KIOError, re_text = []\<rparr> mem_rocks) [0x21]
       {|compress_state_event 1 2|} sample_compressor = Some (s1, Inr r) \<and>
     load_shortstatehash_info (list_lru 2) True mem_rocks (res_hash r) s1 = Some (s2, Inl SrvDatabase)"
proof -
  have wf: "wf_state {|compress_state_event 1 2|}" by (rule sample_state_wf) simp
  have "mem_contents (eng_db (srv_db (cmp_srv sample_compressor))) c k = None" for c k
    by (simp add: sample_compressor_def sample_server_def empty_db_def mem_contents_def)
  from lost_statediff [where dbg = True and sha = id and room_id = "[0x21]" and e = "\<lparr>re_kind = KIOError, re_text = []\<rparr>",
      OF mem_cmp.compressor_env_axioms [where cap = 2] sample_compressor_ok sample_room_state wf sample_room_left this this]
  obtain s1 r where "save_state (list_lru 2) id True (diff_write_fails \<lparr>re_kind = KIOError, re_text = []\<rparr> mem_rocks) [0x21]
       {|compress_state_event 1 2|} sample_compressor = Some (s1, Inr r)"
    "\<And>s2. later_saves (list_lru 2) id True mem_rocks s1 s2 \<Longrightarrow>
       \<exists>s3. load_shortstatehash_info (list_lru 2) True mem_rocks (res_hash r) s2 = Some (s3, Inl SrvDatabase)"
    by (elim exE conjE) (rule that, assumption, drule spec, drule mp, assumption, erule conjunct1)
  then show ?thesis using later_saves.none by blast
qed

end
