(* ===== verification/Backoff.thy ===== *)
theory Backoff
  imports Prelude
begin

section \<open>Durations and backing off\<close>

text \<open>
  \<open>time/exponential_backoff.rs\<close> of \<open>phantom-core\<close>. A \<open>Duration\<close> is its length in nanoseconds; its arithmetic
  saturates.
\<close>

type_synonym duration = nat

definition DURATION_MAX :: duration where
  "DURATION_MAX = (2 ^ 64 - 1) * 10 ^ 9 + 999999999"

definition from_secs :: "u64 \<Rightarrow> duration" where
  "from_secs secs = unat secs * 10 ^ 9"

definition as_secs :: "duration \<Rightarrow> u64" where
  "as_secs d = word_of_nat (d div 10 ^ 9)"

definition duration_mul :: "duration \<Rightarrow> u32 \<Rightarrow> duration" where
  "duration_mul d n = min (d * unat n) DURATION_MAX"

definition continue_exponential_backoff :: "duration \<Rightarrow> duration \<Rightarrow> duration \<Rightarrow> u32 \<Rightarrow> bool" where
  "continue_exponential_backoff least most elapsed tries \<longleftrightarrow>
     elapsed < min (duration_mul (duration_mul least tries) tries) most"

definition continue_exponential_backoff_secs :: "u64 \<Rightarrow> u64 \<Rightarrow> duration \<Rightarrow> u32 \<Rightarrow> bool" where
  "continue_exponential_backoff_secs least most elapsed tries =
     continue_exponential_backoff (from_secs least) (from_secs most) elapsed tries"

text \<open>\<open>u64::isqrt\<close> is the integer square root.\<close>

fun isqrt :: "nat \<Rightarrow> nat" where
  "isqrt n = (if n = 0 then 0 else let r = 2 * isqrt (n div 4) in if (r + 1) * (r + 1) \<le> n then r + 1 else r)"

declare isqrt.simps [simp del]

definition u32_or_max :: "u64 \<Rightarrow> u32" where
  "u32_or_max w = (if unat w < 2 ^ 32 then word_of_nat (unat w) else - 1)"

definition exponential_backoff_streak_cap :: "duration \<Rightarrow> duration \<Rightarrow> u32" where
  "exponential_backoff_streak_cap window most =
     (let w = unat (as_secs window); m = unat (as_secs most) in
      if w = 0 then 1
      else u32_or_max (saturating_add (word_of_nat (isqrt ((m + w - 1) div w))) 1))"

end
