(* ===== verification/Send_Queue.thy ===== *)
theory Send_Queue
  imports Short_Ids Backoff
begin

section \<open>The queue of outgoing events\<close>

text \<open>
  \<open>net/sending/dest.rs\<close> and \<open>net/sending/data.rs\<close> of \<open>phantom-service\<close>: what is to be sent to another
  server, to an application service or to a push gateway is a row of the column of queued events, and
  of the column of active events while a transaction with it is under way. The key is the prefix of
  the destination followed by the id of the event or by a number of the server's counter. Names and
  ids are the bytes of their text. The checks \<open>ruma\<close> makes on an id are the record \<open>id_checks\<close>. A scan that
  does not end is the error \<open>SndHangs\<close>; neither it nor \<open>SndPanic\<close> can be caught.
\<close>

datatype send_error = SndServer srv_error | SndBadDatabase | SndChannel | SndPanic | SndHangs

definition fatal :: "send_error \<Rightarrow> bool" where
  "fatal e \<longleftrightarrow> e = SndPanic \<or> e = SndHangs"

definition send_err :: "srv_error \<Rightarrow> send_error" where
  "send_err e = (if e = SrvPanic then SndPanic else SndServer e)"

subsection \<open>Destinations and events\<close>

datatype destination = is_Appservice: Appservice bytes | Push bytes bytes | Federation bytes

datatype send_class = ClassFederation | ClassAppservice | ClassPush

datatype sending_event = Pdu raw_id | is_Edu: Edu bytes | Flush

fun dest_class :: "destination \<Rightarrow> send_class" where
  "dest_class (Appservice _) = ClassAppservice"
| "dest_class (Push _ _) = ClassPush"
| "dest_class (Federation _) = ClassFederation"

fun get_prefix :: "destination \<Rightarrow> bytes" where
  "get_prefix (Federation server) = server @ [0xFF]"
| "get_prefix (Appservice server) = [0x2B] @ server @ [0xFF]"
| "get_prefix (Push user pushkey) = [0x24] @ user @ [0xFF] @ pushkey @ [0xFF]"

record id_checks =
  parses_user_id :: "bytes \<Rightarrow> bool"
  parses_server_name :: "bytes \<Rightarrow> bool"

subsection \<open>Reading a row\<close>

text \<open>\<open>splitn\<close> of the standard library, at the separator.\<close>

fun splitn :: "nat \<Rightarrow> bytes \<Rightarrow> bytes list" where
  "splitn 0 bs = []"
| "splitn (Suc 0) bs = [bs]"
| "splitn (Suc (Suc n)) bs =
     (case dropWhile (\<lambda>b. b \<noteq> 0xFF) bs of
        [] \<Rightarrow> [bs]
      | _ # rest \<Rightarrow> takeWhile (\<lambda>b. b \<noteq> 0xFF) bs # splitn (Suc n) rest)"

definition part :: "nat \<Rightarrow> bytes list \<Rightarrow> (send_error, bytes) result" where
  "part i parts = (if i < length parts then Inr (parts ! i) else Inl SndBadDatabase)"

definition checked_text :: "(bytes \<Rightarrow> bool) \<Rightarrow> bytes \<Rightarrow> (send_error, bytes) result" where
  "checked_text accept bs = (if valid_utf8 bs \<and> accept bs then Inr bs else Inl SndBadDatabase)"

definition row_event :: "bytes \<Rightarrow> bytes \<Rightarrow> (send_error, sending_event) result" where
  "row_event event val =
     (if val = [] then map_sum id Pdu (ok_or SndPanic (raw_from_slice event)) else Inr (Edu val))"

definition parse_servercurrentevent ::
  "id_checks \<Rightarrow> bytes \<Rightarrow> bytes \<Rightarrow> (send_error, destination \<times> sending_event) result"
where
  "parse_servercurrentevent I key val =
     (if prefix [0x2B] key then
        let parts = splitn 2 (drop 1 key) in
        res_bind (part 0 parts) (\<lambda>server.
        res_bind (part 1 parts) (\<lambda>event.
        res_bind (checked_text (\<lambda>_. True) server) (\<lambda>server.
        res_bind (row_event event val) (\<lambda>e. Inr (Appservice server, e)))))
      else if prefix [0x24] key then
        let parts = splitn 3 (drop 1 key) in
        res_bind (part 0 parts) (\<lambda>user.
        res_bind (checked_text (parses_user_id I) user) (\<lambda>user.
        res_bind (part 1 parts) (\<lambda>pushkey.
        res_bind (checked_text (\<lambda>_. True) pushkey) (\<lambda>pushkey.
        res_bind (part 2 parts) (\<lambda>event.
        res_bind (row_event event val) (\<lambda>e. Inr (Push user pushkey, e)))))))
      else
        let parts = splitn 2 key in
        res_bind (part 0 parts) (\<lambda>server.
        res_bind (part 1 parts) (\<lambda>event.
        res_bind (checked_text (parses_server_name I) server) (\<lambda>server.
        res_bind (row_event event val) (\<lambda>e. Inr (Federation server, e))))))"

text \<open>The streams \<open>expect\<close> that a row parses.\<close>

definition parse_row ::
  "id_checks \<Rightarrow> bytes \<times> bytes \<Rightarrow> (send_error, bytes \<times> sending_event \<times> destination) result"
where
  "parse_row I row =
     (case parse_servercurrentevent I (fst row) (snd row) of
        Inl _ \<Rightarrow> Inl SndPanic
      | Inr (dest, event) \<Rightarrow> Inr (fst row, event, dest))"

fun parse_rows ::
  "id_checks \<Rightarrow> (bytes \<times> bytes) list \<Rightarrow> (send_error, (bytes \<times> sending_event) list) result"
where
  "parse_rows I [] = Inr []"
| "parse_rows I (row # rows) =
     res_bind (parse_row I row) (\<lambda>(key, event, _).
     res_bind (parse_rows I rows) (\<lambda>items. Inr ((key, event) # items)))"

subsection \<open>The tables\<close>

definition SERVERCURRENTEVENT_DATA :: column where
  "SERVERCURRENTEVENT_DATA = ''servercurrentevent_data''"

definition SERVERNAMEEVENT_DATA :: column where
  "SERVERNAMEEVENT_DATA = ''servernameevent_data''"

definition SERVERNAME_EDUCOUNT :: column where
  "SERVERNAME_EDUCOUNT = ''servername_educount''"

lemmas send_columns_defs =
  SERVERCURRENTEVENT_DATA_def SERVERNAMEEVENT_DATA_def SERVERNAME_EDUCOUNT_def GLOBAL_def

definition ok_items :: "('e, 'a) result list \<Rightarrow> 'a list" where
  "ok_items xs = List.map_filter ok xs"

definition delete_active_request :: "('d, 'it) rocksdb \<Rightarrow> bytes \<Rightarrow> 'd database \<Rightarrow> 'd database" where
  "delete_active_request R key db = fst (map_remove R SERVERCURRENTEVENT_DATA key db)"

definition delete_all_active_requests_for ::
  "('d, 'it) rocksdb \<Rightarrow> destination \<Rightarrow> 'd database \<Rightarrow> 'd database option"
where
  "delete_all_active_requests_for R dest db =
     raw_del_prefix R SERVERCURRENTEVENT_DATA (get_prefix dest) db"

definition delete_all_requests_for ::
  "('d, 'it) rocksdb \<Rightarrow> destination \<Rightarrow> 'd database \<Rightarrow> 'd database option"
where
  "delete_all_requests_for R dest db =
     Option.bind (raw_del_prefix R SERVERCURRENTEVENT_DATA (get_prefix dest) db)
       (raw_del_prefix R SERVERNAMEEVENT_DATA (get_prefix dest))"

fun event_value :: "sending_event \<Rightarrow> bytes" where
  "event_value (Edu val) = val"
| "event_value (Pdu _) = []"
| "event_value Flush = []"

definition mark_as_active ::
  "('d, 'it) rocksdb \<Rightarrow> (bytes \<times> sending_event) list \<Rightarrow> 'd database \<Rightarrow>
     'd database \<times> (db_error, unit) result"
where
  "mark_as_active R events db =
     txn_execute R
       (foldl (\<lambda>t (key, event).
            txn_remove SERVERNAMEEVENT_DATA key
              (txn_insert SERVERCURRENTEVENT_DATA key (event_value event) t))
          txn_new (filter (\<lambda>(key, _). key \<noteq> []) events)) db"

text \<open>The rows a stream goes through; they are parsed as they are taken.\<close>

definition active_requests ::
  "('d, 'it) rocksdb \<Rightarrow> 'd database \<Rightarrow> (bytes \<times> bytes) list option"
where
  "active_requests R db = map_option ok_items (raw_stream R SERVERCURRENTEVENT_DATA False db)"

definition rows_for ::
  "('d, 'it) rocksdb \<Rightarrow> column \<Rightarrow> destination \<Rightarrow> 'd database \<Rightarrow> (bytes \<times> bytes) list option"
where
  "rows_for R c dest db =
     map_option (\<lambda>xs. takeWhile (\<lambda>(key, _). prefix (get_prefix dest) key) (ok_items xs))
       (raw_stream_from R c False (get_prefix dest) db)"

definition active_requests_for ::
  "('d, 'it) rocksdb \<Rightarrow> destination \<Rightarrow> 'd database \<Rightarrow> (bytes \<times> bytes) list option"
where
  "active_requests_for R dest db = rows_for R SERVERCURRENTEVENT_DATA dest db"

definition queued_requests ::
  "('d, 'it) rocksdb \<Rightarrow> destination \<Rightarrow> 'd database \<Rightarrow> (bytes \<times> bytes) list option"
where
  "queued_requests R dest db = rows_for R SERVERNAMEEVENT_DATA dest db"

fun request_key ::
  "bool \<Rightarrow> ('d, 'it) rocksdb \<Rightarrow> sending_event \<times> destination \<Rightarrow> 'd server \<Rightarrow>
     'd server \<times> (srv_error, bytes) result"
where
  "request_key dbg R (Pdu raw, dest) s = (s, Inr (get_prefix dest @ as_bytes raw))"
| "request_key dbg R (_, dest) s =
     st_bind (server_counter_next dbg R s) (\<lambda>count s. (s, Inr (get_prefix dest @ to_be_bytes count)))"

fun request_keys ::
  "bool \<Rightarrow> ('d, 'it) rocksdb \<Rightarrow> (sending_event \<times> destination) list \<Rightarrow> 'd server \<Rightarrow>
     'd server \<times> (srv_error, bytes list) result"
where
  "request_keys dbg R [] s = (s, Inr [])"
| "request_keys dbg R (r # rs) s =
     st_bind (request_key dbg R r s) (\<lambda>key s.
     st_bind (request_keys dbg R rs s) (\<lambda>keys s. (s, Inr (key # keys))))"

definition queue_requests ::
  "bool \<Rightarrow> ('d, 'it) rocksdb \<Rightarrow> (sending_event \<times> destination) list \<Rightarrow> 'd server \<Rightarrow>
     'd server \<times> (srv_error, bytes list) result"
where
  "queue_requests dbg R requests s =
     st_bind (request_keys dbg R requests s) (\<lambda>keys s.
       case map_insert_batch R SERVERNAMEEVENT_DATA
           (zip keys (map (event_value \<circ> fst) requests)) (srv_db s) of
         (db, Inl e) \<Rightarrow> (s\<lparr>srv_db := db\<rparr>, Inl (SrvDb e))
       | (db, Inr _) \<Rightarrow> (s\<lparr>srv_db := db\<rparr>, Inr keys))"

subsection \<open>How much is queued\<close>

definition key_class :: "bytes \<Rightarrow> nat" where
  "key_class key =
     (case key of
        [] \<Rightarrow> 0
      | b # _ \<Rightarrow> if b = 0x2B then 1 else if b = 0x24 then 2 else 0)"

definition count_key :: "u64 list \<Rightarrow> bytes \<Rightarrow> u64 list" where
  "count_key counts key =
     counts[key_class key := saturating_add (counts ! key_class key) 1]"

definition queue_depths ::
  "('d, 'it) rocksdb \<Rightarrow> 'd database \<Rightarrow> (u64 list \<times> u64 list) option"
where
  "queue_depths R db =
     Option.bind (raw_stream R SERVERNAMEEVENT_DATA False db) (\<lambda>queued.
     Option.bind (raw_stream R SERVERCURRENTEVENT_DATA False db) (\<lambda>active.
       Some (foldl count_key [0, 0, 0] (ok_keys queued), foldl count_key [0, 0, 0] (ok_keys active))))"

subsection \<open>How far a server has the ephemeral events\<close>

definition set_latest_educount ::
  "bool \<Rightarrow> ('d, 'it) rocksdb \<Rightarrow> bytes \<Rightarrow> u64 \<Rightarrow> 'd database \<Rightarrow> 'd database \<times> (db_error, unit) result"
where
  "set_latest_educount dbg R server last_count db =
     map_raw_put dbg R SERVERNAME_EDUCOUNT server (SerU64 last_count) db"

definition get_latest_educount ::
  "bool \<Rightarrow> ('d, 'it) rocksdb \<Rightarrow> bytes \<Rightarrow> 'd database \<Rightarrow> (send_error, u64) result"
where
  "get_latest_educount dbg R server db =
     (case deserialized_u64 dbg (map_get R SERVERNAME_EDUCOUNT server db) of
        Inr w \<Rightarrow> Inr w
      | Inl e \<Rightarrow> if e = DbCodec CodecPanic then Inl SndPanic else Inr 0)"

end
