(* ===== verification/Send_Edus.thy ===== *)
theory Send_Edus
  imports Send_Queue "HOL-Library.AList"
begin

section \<open>Choosing ephemeral events for a server\<close>

text \<open>
  \<open>net/sending/sender/edus.rs\<close> of \<open>phantom-service\<close>: the device list changes, read receipts and presence
  updates a server has not been sent yet, found by the counts they were recorded under. What the other
  services answer and how \<open>ruma\<close> and \<open>serde_json\<close> read and write the documents is the record
  \<open>edu_env\<close>; the numbers compared, the limits and the loops are the source's. The three selections run
  interleaved in the source and share only a maximum, so the model runs them one after the other, and
  the rooms of the receipts in their order.
\<close>

record presence_content =
  pc_presence :: bytes
  pc_last_active_ago :: "u64 option"
  pc_currently_active :: "bool option"
  pc_status_msg :: "bytes option"

record presence_update =
  pu_user_id :: bytes
  pu_presence :: bytes
  pu_last_active_ago :: u64
  pu_currently_active :: bool
  pu_status_msg :: "bytes option"

text \<open>A stored receipt: not a receipt event at all, or one without the entries its writer sets.\<close>

datatype 'r stored_receipt = NotAReceipt | IncompleteReceipt | StoredReceipt bytes 'r

record 'r edu_env =
  server_rooms :: "bytes \<Rightarrow> bytes list"
  room_keys_changed :: "bytes \<Rightarrow> u64 \<Rightarrow> (bytes \<times> u64) list"
  readreceipts_since :: "bytes \<Rightarrow> u64 \<Rightarrow> (bytes \<times> u64 \<times> bytes) list"
  presence_since :: "u64 \<Rightarrow> (bytes \<times> u64 \<times> bytes) list"
  user_is_local :: "bytes \<Rightarrow> bool"
  server_sees_user :: "bytes \<Rightarrow> bytes \<Rightarrow> bool"
  allow_outgoing_read_receipts :: bool
  allow_outgoing_presence :: bool
  device_list_update :: "bytes \<Rightarrow> bytes"
  read_receipt_json :: "bytes \<Rightarrow> bytes \<Rightarrow> 'r stored_receipt"
  receipt_edu :: "(bytes \<times> (bytes \<times> 'r \<times> bytes list) list) list \<Rightarrow> bytes"
  presence_of_json :: "bytes \<Rightarrow> bytes \<Rightarrow> presence_content option"
  presence_edu :: "presence_update list \<Rightarrow> bytes"

definition EDU_LIMIT :: nat where
  "EDU_LIMIT = 100"

definition SELECT_PRESENCE_LIMIT :: nat where
  "SELECT_PRESENCE_LIMIT = 256"

definition SELECT_RECEIPT_LIMIT :: nat where
  "SELECT_RECEIPT_LIMIT = 256"

definition SELECT_EDU_LIMIT :: nat where
  "SELECT_EDU_LIMIT = EDU_LIMIT - 2"

subsection \<open>Device lists\<close>

record device_scan =
  ds_seen :: "bytes list"
  ds_events :: "bytes list"
  ds_len :: nat
  ds_max :: u64

text \<open>The flag says that the limit was reached, which ends the scan of all rooms.\<close>

fun device_changes_room ::
  "'r edu_env \<Rightarrow> u64 \<Rightarrow> (bytes \<times> u64) list \<Rightarrow> device_scan \<Rightarrow> device_scan \<times> bool"
where
  "device_changes_room E upper [] st = (st, False)"
| "device_changes_room E upper ((user, at) # rest) st =
     (if \<not> user_is_local E user then device_changes_room E upper rest st
      else if upper < at then (st, False)
      else
        let st = st\<lparr>ds_max := max (ds_max st) at\<rparr> in
        if user \<in> set (ds_seen st) then device_changes_room E upper rest st
        else
          let st' = st\<lparr>ds_seen := user # ds_seen st,
                       ds_events := ds_events st @ [device_list_update E user],
                       ds_len := ds_len st + 1\<rparr>
          in if ds_len st \<ge> SELECT_EDU_LIMIT - 1 then (st', True)
             else device_changes_room E upper rest st')"

fun device_changes_rooms :: "'r edu_env \<Rightarrow> u64 \<Rightarrow> u64 \<Rightarrow> bytes list \<Rightarrow> device_scan \<Rightarrow> device_scan" where
  "device_changes_rooms E since upper [] st = st"
| "device_changes_rooms E since upper (room # rooms) st =
     (case device_changes_room E upper (room_keys_changed E room since) st of
        (st', True) \<Rightarrow> st'
      | (st', False) \<Rightarrow> device_changes_rooms E since upper rooms st')"

definition select_edus_device_changes ::
  "'r edu_env \<Rightarrow> bytes \<Rightarrow> u64 \<Rightarrow> u64 \<Rightarrow> u64 \<Rightarrow> bytes list \<times> u64"
where
  "select_edus_device_changes E server since upper most =
     (let st = device_changes_rooms E since upper (server_rooms E server)
                 \<lparr>ds_seen = [], ds_events = [], ds_len = 0, ds_max = most\<rparr>
      in (ds_events st, ds_max st))"

subsection \<open>Receipts\<close>

fun receipts_room ::
  "'r edu_env \<Rightarrow> u64 \<Rightarrow> (bytes \<times> u64 \<times> bytes) list \<Rightarrow> (bytes \<times> 'r \<times> bytes list) list \<Rightarrow> nat \<Rightarrow> u64 \<Rightarrow>
     (send_error, (bytes \<times> 'r \<times> bytes list) list \<times> nat \<times> u64) result"
where
  "receipts_room E upper [] found num most = Inr (found, num, most)"
| "receipts_room E upper ((user, at, raw) # rest) found num most =
     (if upper < at then Inr (found, num, most)
      else
        let most = max most at in
        if \<not> user_is_local E user then receipts_room E upper rest found num most
        else
          (case read_receipt_json E raw user of
             NotAReceipt \<Rightarrow> receipts_room E upper rest found num most
           | IncompleteReceipt \<Rightarrow> Inl SndPanic
           | StoredReceipt event_id receipt \<Rightarrow>
               let found' = AList.update user (receipt, [event_id]) found in
               if map_of found user \<noteq> None then receipts_room E upper rest found' num most
               else if num \<ge> SELECT_RECEIPT_LIMIT - 1 then Inr (found', num + 1, most)
               else receipts_room E upper rest found' (num + 1) most))"

fun receipts_rooms ::
  "'r edu_env \<Rightarrow> u64 \<Rightarrow> u64 \<Rightarrow> bytes list \<Rightarrow> nat \<Rightarrow> u64 \<Rightarrow>
     (send_error, (bytes \<times> (bytes \<times> 'r \<times> bytes list) list) list \<times> u64) result"
where
  "receipts_rooms E since upper [] num most = Inr ([], most)"
| "receipts_rooms E since upper (room # rooms) num most =
     res_bind (receipts_room E upper (readreceipts_since E room since) [] num most) (\<lambda>(found, num, most).
     res_bind (receipts_rooms E since upper rooms num most) (\<lambda>(more, most).
       Inr (if found = [] then more else (room, found) # more, most)))"

definition select_edus_receipts ::
  "'r edu_env \<Rightarrow> bytes \<Rightarrow> u64 \<Rightarrow> u64 \<Rightarrow> u64 \<Rightarrow> (send_error, bytes list \<times> u64) result"
where
  "select_edus_receipts E server since upper most =
     res_bind (receipts_rooms E since upper (server_rooms E server) 0 most) (\<lambda>(receipts, most).
       Inr (if receipts = [] then [] else [receipt_edu E receipts], most))"

subsection \<open>Presence\<close>

definition to_update :: "bytes \<Rightarrow> presence_content \<Rightarrow> presence_update" where
  "to_update user c =
     \<lparr>pu_user_id = user, pu_presence = pc_presence c,
      pu_last_active_ago = (case pc_last_active_ago c of None \<Rightarrow> 0 | Some ago \<Rightarrow> ago),
      pu_currently_active = (pc_currently_active c = Some True), pu_status_msg = pc_status_msg c\<rparr>"

fun presence_scan ::
  "'r edu_env \<Rightarrow> bytes \<Rightarrow> u64 \<Rightarrow> (bytes \<times> u64 \<times> bytes) list \<Rightarrow> (bytes \<times> presence_update) list \<Rightarrow> u64 \<Rightarrow>
     (bytes \<times> presence_update) list \<times> u64"
where
  "presence_scan E server upper [] updates most = (updates, most)"
| "presence_scan E server upper ((user, at, raw) # rest) updates most =
     (if upper < at then (updates, most)
      else
        let most = max most at in
        if \<not> user_is_local E user \<or> \<not> server_sees_user E server user then
          presence_scan E server upper rest updates most
        else
          (case presence_of_json E raw user of
             None \<Rightarrow> presence_scan E server upper rest updates most
           | Some c \<Rightarrow>
               let updates = AList.update user (to_update user c) updates in
               if length updates \<ge> SELECT_PRESENCE_LIMIT then (updates, most)
               else presence_scan E server upper rest updates most))"

definition select_edus_presence ::
  "'r edu_env \<Rightarrow> bytes \<Rightarrow> u64 \<Rightarrow> u64 \<Rightarrow> u64 \<Rightarrow> bytes list \<times> u64"
where
  "select_edus_presence E server since upper most =
     (case presence_scan E server upper (presence_since E since) [] most of
        (updates, most) \<Rightarrow>
          (if updates = [] then [] else [presence_edu E (map snd updates)], most))"

subsection \<open>All three\<close>

definition select_edus ::
  "bool \<Rightarrow> ('d, 'it) rocksdb \<Rightarrow> 'r edu_env \<Rightarrow> bytes \<Rightarrow> 'd server \<Rightarrow> (send_error, bytes list \<times> u64) result"
where
  "select_edus dbg R E server s =
     res_bind (get_latest_educount dbg R server (srv_db s)) (\<lambda>since.
     res_bind (map_sum send_err id (server_counter_current dbg R s)) (\<lambda>upper.
       if dbg \<and> \<not> since \<le> upper then Inl SndPanic
       else
         (case select_edus_device_changes E server since upper since of
            (changes, most) \<Rightarrow>
              res_bind (if allow_outgoing_read_receipts E then select_edus_receipts E server since upper most
                        else Inr ([], most)) (\<lambda>(receipts, most).
                (case (if allow_outgoing_presence E then select_edus_presence E server since upper most
                       else ([], most)) of
                   (presence, most) \<Rightarrow> Inr (changes @ presence @ receipts, most))))))"

end
