(* ===== verification/Sender.thy ===== *)
theory Sender
  imports Send_Edus State_Compressor
begin

section \<open>Sending\<close>

text \<open>
  \<open>net/sending/mod.rs\<close> and \<open>net/sending/sender/\<close> of \<open>phantom-service\<close>. Callers queue events and hand a
  message to the worker of the destination; a worker takes messages and the outcomes of its
  transactions and decides what is sent next. A worker's state is the record \<open>sender\<close>, the service with
  its channels and workers the record \<open>sending\<close>. A transaction under way is an element of \<open>futures\<close>: its
  destination and events. An \<open>Instant\<close> is a number of nanoseconds, an argument of the handlers.
\<close>

subsection \<open>State\<close>

datatype transaction_status = Running | Failed u32 duration | Retrying u32

record msg =
  msg_dest :: destination
  msg_event :: sending_event
  msg_queue_id :: bytes
  msg_revive :: bool

record 'd sender =
  sd_srv :: "'d server"
  statuses :: "destination \<rightharpoonup> transaction_status"
  futures :: "(destination \<times> sending_event list) list"

record sender_config =
  sender_timeout :: u64
  sender_retry_backoff_limit :: u64
  startup_netburst_on :: bool
  startup_netburst_keep :: i64
  sender_workers :: nat

definition DEQUEUE_LIMIT :: nat where
  "DEQUEUE_LIMIT = 48"

definition sender_db :: "'d sender \<Rightarrow> 'd database" where
  "sender_db s = srv_db (sd_srv s)"

definition set_sender_db :: "'d database \<Rightarrow> 'd sender \<Rightarrow> 'd sender" where
  "set_sender_db db s = s\<lparr>sd_srv := (sd_srv s)\<lparr>srv_db := db\<rparr>\<rparr>"

definition set_status :: "destination \<Rightarrow> transaction_status option \<Rightarrow> 'd sender \<Rightarrow> 'd sender" where
  "set_status dest st s = s\<lparr>statuses := (statuses s)(dest := st)\<rparr>"

text \<open>A cork held until the end of a function.\<close>

definition corked ::
  "('d, 'it) rocksdb \<Rightarrow> ('s \<Rightarrow> 'd database) \<Rightarrow> ('d database \<Rightarrow> 's \<Rightarrow> 's) \<Rightarrow> ('s \<Rightarrow> 's \<times> 'r) \<Rightarrow> 's \<Rightarrow> 's \<times> 'r"
where
  "corked R db set_db f s =
     (case cork_new False False (db s) of (guard, db1) \<Rightarrow>
        (case f (set_db db1 s) of (s', r) \<Rightarrow> (set_db (cork_drop R guard (db s')) s', r)))"

text \<open>\<open>futures.push(self.send_events(..))\<close>; an empty transaction is a failed assertion.\<close>

definition push_transaction ::
  "bool \<Rightarrow> destination \<Rightarrow> sending_event list \<Rightarrow> 'd sender \<Rightarrow> 'd sender \<times> (send_error, unit) result"
where
  "push_transaction dbg dest events s =
     (if dbg \<and> events = [] then (s, Inl SndPanic)
      else (s\<lparr>futures := futures s @ [(dest, events)]\<rparr>, Inr ()))"

subsection \<open>Selecting events\<close>

definition select_events_current ::
  "sender_config \<Rightarrow> duration \<Rightarrow> destination \<Rightarrow> bool \<Rightarrow> 'd sender \<Rightarrow> 'd sender \<times> bool \<times> bool"
where
  "select_events_current N now dest revive s =
     (case statuses s dest of
        None \<Rightarrow> (set_status dest (Some Running) s, True, False)
      | Some (Failed tries at) \<Rightarrow>
          if \<not> revive \<and>
             continue_exponential_backoff_secs (sender_timeout N) (sender_retry_backoff_limit N) (now - at) tries \<and>
             \<not> is_Appservice dest
          then (s, False, False)
          else (set_status dest (Some (Retrying tries)) s, True, True)
      | Some Running \<Rightarrow> (s, False, False)
      | Some (Retrying _) \<Rightarrow> (s, False, False))"

text \<open>All active rows once more, for a retry.\<close>

definition select_retry ::
  "id_checks \<Rightarrow> ('d, 'it) rocksdb \<Rightarrow> destination \<Rightarrow> 'd sender \<Rightarrow>
     'd sender \<times> (send_error, sending_event list) result"
where
  "select_retry I R dest s =
     (s, case active_requests_for R dest (sender_db s) of
           None \<Rightarrow> Inl SndHangs
         | Some rows \<Rightarrow> map_sum id (map snd) (parse_rows I rows))"

text \<open>The new events, and for a server the ephemeral events it has not been sent.\<close>

definition mark_new_events ::
  "('d, 'it) rocksdb \<Rightarrow> (bytes \<times> sending_event) list \<Rightarrow> 'd sender \<Rightarrow>
     'd sender \<times> (send_error, sending_event list) result"
where
  "mark_new_events R new_events s =
     (if new_events = [] then (s, Inr [])
      else
        (case mark_as_active R new_events (sender_db s) of
           (db, Inl e) \<Rightarrow> (set_sender_db db s, Inl (SndServer (SrvDb e)))
         | (db, Inr _) \<Rightarrow> (set_sender_db db s, Inr (map snd new_events))))"

definition append_edus ::
  "bool \<Rightarrow> ('d, 'it) rocksdb \<Rightarrow> 'r edu_env \<Rightarrow> bytes \<Rightarrow> sending_event list \<Rightarrow> 'd sender \<Rightarrow>
     'd sender \<times> (send_error, sending_event list) result"
where
  "append_edus dbg R E server events s =
     (case select_edus dbg R E server (sd_srv s) of
        Inl e \<Rightarrow> if fatal e then (s, Inl e) else (s, Inr events)
      | Inr (edus, last_count) \<Rightarrow>
          if dbg \<and> \<not> length edus \<le> EDU_LIMIT then (s, Inl SndPanic)
          else
            (case set_latest_educount dbg R server last_count (sender_db s) of
               (db, Inl e) \<Rightarrow>
                 (set_sender_db db s, Inl (if e = DbCodec CodecPanic then SndPanic else SndServer (SrvDb e)))
             | (db, Inr _) \<Rightarrow> (set_sender_db db s, Inr (events @ map Edu edus))))"

definition select_fresh ::
  "bool \<Rightarrow> ('d, 'it) rocksdb \<Rightarrow> 'r edu_env \<Rightarrow> destination \<Rightarrow> (bytes \<times> sending_event) list \<Rightarrow> 'd sender \<Rightarrow>
     'd sender \<times> (send_error, sending_event list) result"
where
  "select_fresh dbg R E dest new_events s =
     corked R sender_db set_sender_db (\<lambda>s.
       st_bind (mark_new_events R new_events s) (\<lambda>events s.
         case dest of
           Federation server \<Rightarrow> append_edus dbg R E server events s
         | _ \<Rightarrow> (s, Inr events))) s"

definition select_events ::
  "bool \<Rightarrow> id_checks \<Rightarrow> ('d, 'it) rocksdb \<Rightarrow> 'r edu_env \<Rightarrow> sender_config \<Rightarrow> duration \<Rightarrow> destination \<Rightarrow>
     (bytes \<times> sending_event) list \<Rightarrow> bool \<Rightarrow> 'd sender \<Rightarrow>
     'd sender \<times> (send_error, sending_event list option) result"
where
  "select_events dbg I R E N now dest new_events revive s =
     (case select_events_current N now dest revive s of (s, allow, retry) \<Rightarrow>
        if \<not> allow then (s, Inr None)
        else
          corked R sender_db set_sender_db (\<lambda>s.
            st_bind (if retry then select_retry I R dest s else select_fresh dbg R E dest new_events s)
              (\<lambda>events s. (s, Inr (Some events)))) s)"

subsection \<open>The handlers of a worker\<close>

definition handle_request ::
  "bool \<Rightarrow> id_checks \<Rightarrow> ('d, 'it) rocksdb \<Rightarrow> 'r edu_env \<Rightarrow> sender_config \<Rightarrow> duration \<Rightarrow> msg \<Rightarrow> 'd sender \<Rightarrow>
     'd sender \<times> (send_error, unit) result"
where
  "handle_request dbg I R E N now m s =
     (case select_events dbg I R E N now (msg_dest m) [(msg_queue_id m, msg_event m)] (msg_revive m) s of
        (s, Inr (Some events)) \<Rightarrow>
          if events \<noteq> [] then push_transaction dbg (msg_dest m) events s
          else (set_status (msg_dest m) None s, Inr ())
      | (s, Inr None) \<Rightarrow> (s, Inr ())
      | (s, Inl e) \<Rightarrow> (s, if fatal e then Inl e else Inr ()))"

definition handle_response_err ::
  "duration \<Rightarrow> destination \<Rightarrow> 'd sender \<Rightarrow> 'd sender \<times> (send_error, unit) result"
where
  "handle_response_err now dest s =
     (case statuses s dest of
        None \<Rightarrow> (s, Inr ())
      | Some Running \<Rightarrow> (set_status dest (Some (Failed 1 now)) s, Inr ())
      | Some (Retrying n) \<Rightarrow> (set_status dest (Some (Failed (saturating_add n 1) now)) s, Inr ())
      | Some (Failed _ _) \<Rightarrow> (s, Inl SndPanic))"

definition handle_response_ok ::
  "bool \<Rightarrow> id_checks \<Rightarrow> ('d, 'it) rocksdb \<Rightarrow> destination \<Rightarrow> 'd sender \<Rightarrow>
     'd sender \<times> (send_error, unit) result"
where
  "handle_response_ok dbg I R dest s =
     corked R sender_db set_sender_db (\<lambda>s.
       case delete_all_active_requests_for R dest (sender_db s) of
         None \<Rightarrow> (s, Inl SndHangs)
       | Some db \<Rightarrow>
           (case queued_requests R dest db of
              None \<Rightarrow> (set_sender_db db s, Inl SndHangs)
            | Some rows \<Rightarrow>
                (case parse_rows I (take DEQUEUE_LIMIT rows) of
                   Inl e \<Rightarrow> (set_sender_db db s, Inl e)
                 | Inr new_events \<Rightarrow>
                     if new_events \<noteq> [] then
                       push_transaction dbg dest (map snd new_events)
                         (set_status dest (Some Running)
                           (set_sender_db (fst (mark_as_active R new_events db)) s))
                     else (set_status dest None (set_sender_db db s), Inr ())))) s"

definition handle_response ::
  "bool \<Rightarrow> id_checks \<Rightarrow> ('d, 'it) rocksdb \<Rightarrow> duration \<Rightarrow> destination \<Rightarrow> bool \<Rightarrow> 'd sender \<Rightarrow>
     'd sender \<times> (send_error, unit) result"
where
  "handle_response dbg I R now dest answered s =
     (if answered then handle_response_ok dbg I R dest s else handle_response_err now dest s)"

text \<open>At shutdown: the outcomes that arrive before the deadline, in their order.\<close>

fun finish_responses ::
  "('d, 'it) rocksdb \<Rightarrow> (destination \<times> bool) list \<Rightarrow> 'd database \<Rightarrow> 'd database option"
where
  "finish_responses R [] db = Some db"
| "finish_responses R ((dest, answered) # rest) db =
     Option.bind (if answered then delete_all_active_requests_for R dest db else Some db)
       (finish_responses R rest)"

subsection \<open>Starting a worker\<close>

text \<open>\<open>usize::try_from(keep).unwrap_or(usize::MAX)\<close>.\<close>

definition netburst_keep :: "i64 \<Rightarrow> nat" where
  "netburst_keep w = (if sint w < 0 then 2 ^ 64 - 1 else unat w)"

definition txn_entry ::
  "destination \<Rightarrow> (destination \<times> sending_event list) list \<Rightarrow> sending_event list"
where
  "txn_entry dest txns = (case map_of txns dest of None \<Rightarrow> [] | Some events \<Rightarrow> events)"

fun collect_active ::
  "id_checks \<Rightarrow> ('d, 'it) rocksdb \<Rightarrow> sender_config \<Rightarrow> (destination \<Rightarrow> bool) \<Rightarrow> (bytes \<times> bytes) list \<Rightarrow>
     (destination \<times> sending_event list) list \<Rightarrow> 'd database \<Rightarrow>
     'd database \<times> (send_error, (destination \<times> sending_event list) list) result"
where
  "collect_active I R N mine [] txns db = (db, Inr txns)"
| "collect_active I R N mine (row # rows) txns db =
     (case parse_row I row of
        Inl e \<Rightarrow> (db, Inl e)
      | Inr (key, event, dest) \<Rightarrow>
          if \<not> mine dest then collect_active I R N mine rows txns db
          else
            let entry = txn_entry dest txns in
            if 0 \<le> sint (startup_netburst_keep N) \<and> netburst_keep (startup_netburst_keep N) \<le> length entry then
              collect_active I R N mine rows (AList.update dest entry txns) (delete_active_request R key db)
            else
              collect_active I R N mine rows (AList.update dest (entry @ [event]) txns) db)"

fun burst ::
  "bool \<Rightarrow> sender_config \<Rightarrow> (destination \<times> sending_event list) list \<Rightarrow> 'd sender \<Rightarrow>
     'd sender \<times> (send_error, unit) result"
where
  "burst dbg N [] s = (s, Inr ())"
| "burst dbg N ((dest, events) # txns) s =
     st_bind
       (if startup_netburst_on N \<and> events \<noteq> [] then
          push_transaction dbg dest events (set_status dest (Some Running) s)
        else (s, Inr ())) (\<lambda>_ s. burst dbg N txns s)"

text \<open>\<open>order\<close> is the order in which the hash map of the transactions is gone through.\<close>

definition startup_netburst ::
  "bool \<Rightarrow> id_checks \<Rightarrow> ('d, 'it) rocksdb \<Rightarrow> sender_config \<Rightarrow> (destination \<Rightarrow> bool) \<Rightarrow>
     ((destination \<times> sending_event list) list \<Rightarrow> (destination \<times> sending_event list) list) \<Rightarrow>
     'd sender \<Rightarrow> 'd sender \<times> (send_error, unit) result"
where
  "startup_netburst dbg I R N mine order s =
     (case active_requests R (sender_db s) of
        None \<Rightarrow> (s, Inl SndHangs)
      | Some rows \<Rightarrow>
          (case collect_active I R N mine rows [] (sender_db s) of
             (db, Inl e) \<Rightarrow> (set_sender_db db s, Inl e)
           | (db, Inr txns) \<Rightarrow> burst dbg N (order txns) (set_sender_db db s)))"

subsection \<open>The service\<close>

record 'd sending =
  sn_srv :: "'d server"
  sn_channels :: "msg list list"
  sn_closed :: bool
  sn_workers :: "((destination \<rightharpoonup> transaction_status) \<times> (destination \<times> sending_event list) list) list"

definition sending_db :: "'d sending \<Rightarrow> 'd database" where
  "sending_db s = srv_db (sn_srv s)"

definition set_sending_db :: "'d database \<Rightarrow> 'd sending \<Rightarrow> 'd sending" where
  "set_sending_db db s = s\<lparr>sn_srv := (sn_srv s)\<lparr>srv_db := db\<rparr>\<rparr>"

text \<open>\<open>hash\<close> is the standard library's hasher; \<open>usize\<close> has 64 bits.\<close>

definition shard_id :: "(destination \<Rightarrow> u64) \<Rightarrow> destination \<Rightarrow> nat \<Rightarrow> nat" where
  "shard_id hash dest senders = (if senders \<le> 1 then 0 else unat (hash dest) mod senders)"

definition num_senders :: "nat \<Rightarrow> nat \<Rightarrow> sender_config \<Rightarrow> nat" where
  "num_senders num_workers parallelism N =
     (let most = max (min num_workers parallelism) 1 in max 1 (min (sender_workers N) most))"

definition dispatch_msg ::
  "bool \<Rightarrow> (destination \<Rightarrow> u64) \<Rightarrow> msg \<Rightarrow> 'd sending \<Rightarrow> 'd sending \<times> (send_error, unit) result"
where
  "dispatch_msg dbg hash m s =
     (let shard = shard_id hash (msg_dest m) (length (sn_channels s)) in
      if \<not> shard < length (sn_channels s) then (s, Inl SndPanic)
      else if sn_closed s then (s, Inl (if dbg then SndPanic else SndChannel))
      else (s\<lparr>sn_channels := (sn_channels s)[shard := sn_channels s ! shard @ [m]]\<rparr>, Inr ()))"

fun dispatch_each ::
  "bool \<Rightarrow> (destination \<Rightarrow> u64) \<Rightarrow> ((destination \<times> sending_event) \<times> bytes) list \<Rightarrow> 'd sending \<Rightarrow>
     'd sending \<times> (send_error, unit) result"
where
  "dispatch_each dbg hash [] s = (s, Inr ())"
| "dispatch_each dbg hash (((dest, event), queue_id) # rest) s =
     st_bind (dispatch_msg dbg hash
         \<lparr>msg_dest = dest, msg_event = event, msg_queue_id = queue_id, msg_revive = False\<rparr> s)
       (\<lambda>_ s. dispatch_each dbg hash rest s)"

definition queue_each ::
  "bool \<Rightarrow> ('d, 'it) rocksdb \<Rightarrow> (destination \<Rightarrow> u64) \<Rightarrow> (destination \<times> sending_event) list \<Rightarrow> 'd sending \<Rightarrow>
     'd sending \<times> (send_error, unit) result"
where
  "queue_each dbg R hash requests s =
     corked R sending_db set_sending_db (\<lambda>s.
       case queue_requests dbg R (map (\<lambda>(dest, event). (event, dest)) requests) (sn_srv s) of
         (srv, Inl e) \<Rightarrow> (s\<lparr>sn_srv := srv\<rparr>, Inl (send_err e))
       | (srv, Inr keys) \<Rightarrow> dispatch_each dbg hash (zip requests keys) (s\<lparr>sn_srv := srv\<rparr>)) s"

text \<open>\<open>queue_one\<close> is the same for one request: its list of keys has one element.\<close>

definition queue_one ::
  "bool \<Rightarrow> ('d, 'it) rocksdb \<Rightarrow> (destination \<Rightarrow> u64) \<Rightarrow> destination \<Rightarrow> sending_event \<Rightarrow> 'd sending \<Rightarrow>
     'd sending \<times> (send_error, unit) result"
where
  "queue_one dbg R hash dest event s =
     corked R sending_db set_sending_db (\<lambda>s.
       case queue_requests dbg R [(event, dest)] (sn_srv s) of
         (srv, Inl e) \<Rightarrow> (s\<lparr>sn_srv := srv\<rparr>, Inl (send_err e))
       | (srv, Inr []) \<Rightarrow> (s\<lparr>sn_srv := srv\<rparr>, Inl SndPanic)
       | (srv, Inr (key # _)) \<Rightarrow>
           dispatch_msg dbg hash \<lparr>msg_dest = dest, msg_event = event, msg_queue_id = key, msg_revive = False\<rparr>
             (s\<lparr>sn_srv := srv\<rparr>)) s"

subsection \<open>What callers send\<close>

definition remote_servers :: "bytes \<Rightarrow> bytes list \<Rightarrow> bytes list" where
  "remote_servers ours room_servers = filter (\<lambda>server. server \<noteq> ours) room_servers"

definition send_pdu_push ::
  "bool \<Rightarrow> ('d, 'it) rocksdb \<Rightarrow> (destination \<Rightarrow> u64) \<Rightarrow> raw_id \<Rightarrow> bytes \<Rightarrow> bytes \<Rightarrow> 'd sending \<Rightarrow>
     'd sending \<times> (send_error, unit) result"
where
  "send_pdu_push dbg R hash raw user pushkey s = queue_one dbg R hash (Push user pushkey) (Pdu raw) s"

definition send_pdu_appservice ::
  "bool \<Rightarrow> ('d, 'it) rocksdb \<Rightarrow> (destination \<Rightarrow> u64) \<Rightarrow> bytes \<Rightarrow> raw_id \<Rightarrow> 'd sending \<Rightarrow>
     'd sending \<times> (send_error, unit) result"
where
  "send_pdu_appservice dbg R hash appservice_id raw s =
     queue_one dbg R hash (Appservice appservice_id) (Pdu raw) s"

definition send_pdu_servers ::
  "bool \<Rightarrow> ('d, 'it) rocksdb \<Rightarrow> (destination \<Rightarrow> u64) \<Rightarrow> bytes list \<Rightarrow> raw_id \<Rightarrow> 'd sending \<Rightarrow>
     'd sending \<times> (send_error, unit) result"
where
  "send_pdu_servers dbg R hash servers raw s =
     queue_each dbg R hash (map (\<lambda>server. (Federation server, Pdu raw)) servers) s"

definition send_pdu_room ::
  "bool \<Rightarrow> ('d, 'it) rocksdb \<Rightarrow> (destination \<Rightarrow> u64) \<Rightarrow> bytes \<Rightarrow> bytes list \<Rightarrow> raw_id \<Rightarrow> 'd sending \<Rightarrow>
     'd sending \<times> (send_error, unit) result"
where
  "send_pdu_room dbg R hash ours room_servers raw s =
     send_pdu_servers dbg R hash (remote_servers ours room_servers) raw s"

definition send_edu_servers ::
  "bool \<Rightarrow> ('d, 'it) rocksdb \<Rightarrow> (destination \<Rightarrow> u64) \<Rightarrow> bytes list \<Rightarrow> bytes \<Rightarrow> 'd sending \<Rightarrow>
     'd sending \<times> (send_error, unit) result"
where
  "send_edu_servers dbg R hash servers edu s =
     queue_each dbg R hash (map (\<lambda>server. (Federation server, Edu edu)) servers) s"

definition send_edu_room ::
  "bool \<Rightarrow> ('d, 'it) rocksdb \<Rightarrow> (destination \<Rightarrow> u64) \<Rightarrow> bytes \<Rightarrow> bytes list \<Rightarrow> bytes \<Rightarrow> 'd sending \<Rightarrow>
     'd sending \<times> (send_error, unit) result"
where
  "send_edu_room dbg R hash ours room_servers edu s =
     send_edu_servers dbg R hash (remote_servers ours room_servers) edu s"

definition send_edu_push ::
  "bool \<Rightarrow> ('d, 'it) rocksdb \<Rightarrow> (destination \<Rightarrow> u64) \<Rightarrow> bytes \<Rightarrow> bytes \<Rightarrow> bytes \<Rightarrow> 'd sending \<Rightarrow>
     'd sending \<times> (send_error, unit) result"
where
  "send_edu_push dbg R hash user pushkey edu s = queue_one dbg R hash (Push user pushkey) (Edu edu) s"

definition send_edu_appservice ::
  "bool \<Rightarrow> ('d, 'it) rocksdb \<Rightarrow> (destination \<Rightarrow> u64) \<Rightarrow> bytes \<Rightarrow> bytes \<Rightarrow> 'd sending \<Rightarrow>
     'd sending \<times> (send_error, unit) result"
where
  "send_edu_appservice dbg R hash appservice_id edu s =
     queue_one dbg R hash (Appservice appservice_id) (Edu edu) s"

text \<open>
  A registration, with the answers of its regular expressions and of the room's tables for the room
  at hand.
\<close>

record appservice_interest =
  as_id :: bytes
  as_receive_ephemeral :: bool
  as_room_match :: bool
  as_in_room :: bool
  as_alias_matches :: "bool list"

definition appservice_hears_about :: "appservice_interest \<Rightarrow> bool" where
  "appservice_hears_about a \<longleftrightarrow>
     (if \<not> as_receive_ephemeral a then False
      else if as_room_match a then True
      else if as_in_room a then True
      else list_ex id (as_alias_matches a))"

fun send_edu_appservices ::
  "bool \<Rightarrow> ('d, 'it) rocksdb \<Rightarrow> (destination \<Rightarrow> u64) \<Rightarrow> (send_error, bytes) result \<Rightarrow> bytes list \<Rightarrow> 'd sending \<Rightarrow>
     'd sending \<times> (send_error, unit) result"
where
  "send_edu_appservices dbg R hash serialized [] s = (s, Inr ())"
| "send_edu_appservices dbg R hash serialized (a # rest) s =
     (case serialized of
        Inl e \<Rightarrow> (s, Inl e)
      | Inr buf \<Rightarrow>
          (case send_edu_appservice dbg R hash a buf s of
             (s, Inl e) \<Rightarrow>
               if fatal e then (s, Inl e) else send_edu_appservices dbg R hash serialized rest s
           | (s, Inr _) \<Rightarrow> send_edu_appservices dbg R hash serialized rest s))"

definition send_edu_room_appservices ::
  "bool \<Rightarrow> ('d, 'it) rocksdb \<Rightarrow> (destination \<Rightarrow> u64) \<Rightarrow> appservice_interest list \<Rightarrow>
     (send_error, bytes) result \<Rightarrow> 'd sending \<Rightarrow> 'd sending \<times> (send_error, unit) result"
where
  "send_edu_room_appservices dbg R hash registrations serialized s =
     send_edu_appservices dbg R hash serialized (map as_id (filter appservice_hears_about registrations)) s"

definition flush_msg :: "bytes \<Rightarrow> bool \<Rightarrow> msg" where
  "flush_msg server revive =
     \<lparr>msg_dest = Federation server, msg_event = Flush, msg_queue_id = [], msg_revive = revive\<rparr>"

definition dispatch_logged ::
  "bool \<Rightarrow> (destination \<Rightarrow> u64) \<Rightarrow> msg \<Rightarrow> 'd sending \<Rightarrow> 'd sending \<times> (send_error, unit) result"
where
  "dispatch_logged dbg hash m s =
     (case dispatch_msg dbg hash m s of
        (s, Inl e) \<Rightarrow> (s, if fatal e then Inl e else Inr ())
      | (s, Inr _) \<Rightarrow> (s, Inr ()))"

fun flush_servers ::
  "bool \<Rightarrow> (destination \<Rightarrow> u64) \<Rightarrow> bytes list \<Rightarrow> 'd sending \<Rightarrow> 'd sending \<times> (send_error, unit) result"
where
  "flush_servers dbg hash [] s = (s, Inr ())"
| "flush_servers dbg hash (server # servers) s =
     st_bind (dispatch_logged dbg hash (flush_msg server False) s) (\<lambda>_ s. flush_servers dbg hash servers s)"

definition flush_room ::
  "bool \<Rightarrow> (destination \<Rightarrow> u64) \<Rightarrow> bytes \<Rightarrow> bytes list \<Rightarrow> 'd sending \<Rightarrow>
     'd sending \<times> (send_error, unit) result"
where
  "flush_room dbg hash ours room_servers s = flush_servers dbg hash (remote_servers ours room_servers) s"

definition cleanup_events ::
  "bool \<Rightarrow> ('d, 'it) rocksdb \<Rightarrow> bytes option \<Rightarrow> bytes option \<Rightarrow> bytes option \<Rightarrow> 'd sending \<Rightarrow>
     'd sending \<times> (send_error, unit) result"
where
  "cleanup_events dbg R appservice_id user_id push_key s =
     (let clean = (\<lambda>dest.
            case delete_all_requests_for R dest (sending_db s) of
              None \<Rightarrow> (s, Inl SndHangs)
            | Some db \<Rightarrow> (set_sending_db db s, Inr ()))
      in case (appservice_id, user_id, push_key) of
           (None, Some user, Some pushkey) \<Rightarrow> clean (Push user pushkey)
         | (Some appservice, None, None) \<Rightarrow> clean (Appservice appservice)
         | _ \<Rightarrow> (s, if dbg then Inl SndPanic else Inr ()))"

definition interrupt :: "'d sending \<Rightarrow> 'd sending" where
  "interrupt s = s\<lparr>sn_closed := True\<rparr>"

subsection \<open>Running\<close>

definition on_worker ::
  "nat \<Rightarrow> ('d sender \<Rightarrow> 'd sender \<times> 'r) \<Rightarrow> 'd sending \<Rightarrow> 'd sending \<times> 'r"
where
  "on_worker i f s =
     (case f \<lparr>sd_srv = sn_srv s, statuses = fst (sn_workers s ! i), futures = snd (sn_workers s ! i)\<rparr> of
        (w, r) \<Rightarrow> (s\<lparr>sn_srv := sd_srv w, sn_workers := (sn_workers s)[i := (statuses w, futures w)]\<rparr>, r))"

text \<open>
  The service as it is built, and the start of its workers: each resends what an earlier run left active
  before it takes its first message.
\<close>

definition new_sending :: "nat \<Rightarrow> 'd server \<Rightarrow> 'd sending" where
  "new_sending n srv =
     \<lparr>sn_srv = srv, sn_channels = replicate n [], sn_closed = False, sn_workers = replicate n (Map.empty, [])\<rparr>"

fun start_workers ::
  "bool \<Rightarrow> id_checks \<Rightarrow> ('d, 'it) rocksdb \<Rightarrow> sender_config \<Rightarrow> (destination \<Rightarrow> u64) \<Rightarrow>
     ((destination \<times> sending_event list) list \<Rightarrow> (destination \<times> sending_event list) list) \<Rightarrow>
     nat list \<Rightarrow> 'd sending \<Rightarrow> 'd sending \<times> (send_error, unit) result"
where
  "start_workers dbg I R N hash order [] s = (s, Inr ())"
| "start_workers dbg I R N hash order (i # is) s =
     st_bind
       (on_worker i
         (startup_netburst dbg I R N (\<lambda>dest. shard_id hash dest (length (sn_channels s)) = i) order) s)
       (\<lambda>_ s. start_workers dbg I R N hash order is s)"

definition take_future :: "nat \<Rightarrow> 'd sender \<Rightarrow> 'd sender" where
  "take_future j s = s\<lparr>futures := take j (futures s) @ drop (Suc j) (futures s)\<rparr>"

text \<open>
  A step of the service: a call queues events or asks for a flush, worker \<open>i\<close> takes a message or the
  outcome of its transaction \<open>j\<close>, or the rows of a destination that is gone are deleted. A step that
  panics or hangs has no successor. Each handler is one step: interleavings at its awaits, the shutdown
  of a worker, calls that fail half way and numbers other services draw from the counter are left out.
\<close>

datatype send_label = Queued "(destination \<times> sending_event) list" | Flushed msg | Received nat msg
  | Answered nat destination "sending_event list" bool | Cleaned destination

inductive sending_step ::
  "bool \<Rightarrow> id_checks \<Rightarrow> ('d, 'it) rocksdb \<Rightarrow> 'r edu_env \<Rightarrow> sender_config \<Rightarrow> (destination \<Rightarrow> u64) \<Rightarrow>
     'd sending \<Rightarrow> send_label \<Rightarrow> 'd sending \<Rightarrow> bool"
  for dbg I R E N hash
where
  queue: "queue_each dbg R hash requests s = (s', Inr ()) \<Longrightarrow>
    sending_step dbg I R E N hash s (Queued requests) s'"
| flush: "dispatch_msg dbg hash (flush_msg server revive) s = (s', Inr ()) \<Longrightarrow>
    sending_step dbg I R E N hash s (Flushed (flush_msg server revive)) s'"
| receive: "i < length (sn_workers s) \<Longrightarrow> i < length (sn_channels s) \<Longrightarrow> sn_channels s ! i = m # ms \<Longrightarrow>
    on_worker i (handle_request dbg I R E N now m) (s\<lparr>sn_channels := (sn_channels s)[i := ms]\<rparr>) = (s', Inr ()) \<Longrightarrow>
    sending_step dbg I R E N hash s (Received i m) s'"
| answer: "i < length (sn_workers s) \<Longrightarrow> j < length (snd (sn_workers s ! i)) \<Longrightarrow>
    snd (sn_workers s ! i) ! j = (dest, events) \<Longrightarrow>
    on_worker i (\<lambda>w. handle_response dbg I R now dest answered (take_future j w)) s = (s', Inr ()) \<Longrightarrow>
    sending_step dbg I R E N hash s (Answered i dest events answered) s'"
| clean: "delete_all_requests_for R dest (sending_db s) = Some db \<Longrightarrow>
    sending_step dbg I R E N hash s (Cleaned dest) (set_sending_db db s)"

inductive_cases sending_step_cases: "sending_step dbg I R E N hash s lbl s'"

end
