(* ===== verification/Send_Queue_Props.thy ===== *)
theory Send_Queue_Props
  imports Send_Queue Short_Ids_Props
begin

section \<open>What the queue of outgoing events promises\<close>

text \<open>
  A row reads back as the event that was queued and the destination it was queued for, and the rows of
  two destinations never mix. Under a database without I/O errors the operations on the two tables are
  described by what they do to them.
\<close>

subsection \<open>Rows\<close>

fun wf_dest :: "id_checks \<Rightarrow> destination \<Rightarrow> bool" where
  "wf_dest I (Appservice a) = valid_utf8 a"
| "wf_dest I (Push user pushkey) = (valid_utf8 user \<and> parses_user_id I user \<and> valid_utf8 pushkey)"
| "wf_dest I (Federation server) =
     (valid_utf8 server \<and> parses_server_name I server \<and> \<not> prefix [0x2B] server \<and> \<not> prefix [0x24] server)"

fun wf_event :: "sending_event \<Rightarrow> bool" where
  "wf_event (Pdu raw) = (raw_from_slice (as_bytes raw) = Some raw)"
| "wf_event (Edu val) = (val \<noteq> [])"
| "wf_event Flush = False"

fun event_key :: "u64 \<Rightarrow> sending_event \<Rightarrow> bytes" where
  "event_key n (Pdu raw) = as_bytes raw"
| "event_key n (Edu _) = to_be_bytes n"
| "event_key n Flush = to_be_bytes n"

text \<open>\<open>key\<close> and \<open>val\<close> are a row of the event, with a number up to \<open>most\<close> where it has one.\<close>

definition row_for :: "id_checks \<Rightarrow> u64 \<Rightarrow> destination \<Rightarrow> sending_event \<Rightarrow> bytes \<Rightarrow> bytes \<Rightarrow> bool" where
  "row_for I most dest event key val \<longleftrightarrow>
     wf_dest I dest \<and> wf_event event \<and> val = event_value event \<and>
     (\<exists>n \<le> most. key = get_prefix dest @ event_key n event)"

lemma utf8_no_sep: "valid_utf8 bs \<Longrightarrow> 0xFF \<notin> set bs"
  using valid_utf8_no_sep by (simp add: SEP_def)

lemma splitn_sep:
  assumes "0xFF \<notin> set a"
  shows "splitn (Suc (Suc n)) (a @ 0xFF # b) = a # splitn (Suc n) b"
proof -
  have "dropWhile (\<lambda>x. x \<noteq> 0xFF) (a @ 0xFF # b) = 0xFF # b"
    using assms by (induction a) auto
  moreover have "takeWhile (\<lambda>x. x \<noteq> 0xFF) (a @ 0xFF # b) = a"
    using assms by (induction a) auto
  ultimately show ?thesis by (simp only: splitn.simps list.case)
qed

lemma splitn_two: "0xFF \<notin> set a \<Longrightarrow> splitn 2 (a @ 0xFF # b) = [a, b]"
  using splitn_sep [of a 0 b] by (simp add: numeral_2_eq_2)

lemma splitn_three:
  "0xFF \<notin> set a \<Longrightarrow> 0xFF \<notin> set b \<Longrightarrow> splitn 3 (a @ 0xFF # b @ 0xFF # c) = [a, b, c]"
  using splitn_sep [of a 1 "b @ 0xFF # c"] splitn_two [of b c] by (simp add: numeral_3_eq_3 numeral_2_eq_2)

lemma row_event_value:
  assumes "wf_event event"
  shows "row_event (event_key n event) (event_value event) = Inr event"
  using assms by (cases event) (auto simp: row_event_def)

lemma parse_row_for:
  assumes "row_for I most dest event key val"
  shows "parse_servercurrentevent I key val = Inr (dest, event)"
proof -
  obtain n where key: "key = get_prefix dest @ event_key n event"
    and wf: "wf_dest I dest" "wf_event event" and val: "val = event_value event"
    using assms by (auto simp: row_for_def)
  note event = row_event_value [OF wf(2), of n]
  show ?thesis
  proof (cases dest)
    case (Appservice a)
    then show ?thesis
      using wf(1) splitn_two [OF utf8_no_sep, of a "event_key n event"] event
      by (simp add: parse_servercurrentevent_def key val part_def checked_text_def)
  next
    case (Push user pushkey)
    then show ?thesis
      using wf(1) splitn_three [OF utf8_no_sep utf8_no_sep, of user pushkey "event_key n event"] event
      by (simp add: parse_servercurrentevent_def key val part_def checked_text_def)
  next
    case (Federation server)
    have "\<not> prefix [b] (server @ 0xFF # x)" if "\<not> prefix [b] server" "b \<noteq> 0xFF" for b and x :: bytes
      using that by (cases server) auto
    then show ?thesis
      using wf(1) Federation splitn_two [OF utf8_no_sep, of server "event_key n event"] event
      by (simp add: parse_servercurrentevent_def key val part_def checked_text_def)
  qed
qed

lemma sep_inject:
  "0xFF \<notin> set t \<Longrightarrow> 0xFF \<notin> set t' \<Longrightarrow> t @ (0xFF :: u8) # k = t' @ 0xFF # k' \<longleftrightarrow> t = t' \<and> k = k'"
  using append_sep_inject [of t t' k k'] by (simp add: SEP_def)

lemma get_prefix_inject:
  assumes "wf_dest I dest" and "wf_dest I dest'" and "get_prefix dest @ x = get_prefix dest' @ y"
  shows "dest = dest'" "x = y"
proof -
  have "dest = dest' \<and> x = y"
    using assms
    by (cases dest; cases dest')
      (auto simp: sep_inject utf8_no_sep Cons_eq_append_conv append_eq_Cons_conv)
  then show "dest = dest'" "x = y" by blast+
qed

lemma row_for_prefix:
  assumes "row_for I most dest event key val" and "wf_dest I dest'"
  shows "prefix (get_prefix dest') key \<longleftrightarrow> dest' = dest"
  using assms get_prefix_inject(1) [OF _ assms(2), of dest]
  by (auto simp: row_for_def prefix_def)

lemma row_for_parse_row: "row_for I most dest event key val \<Longrightarrow> parse_row I (key, val) = Inr (key, event, dest)"
  using parse_row_for by (simp add: parse_row_def)

lemma row_for_mono: "row_for I most dest event key val \<Longrightarrow> most \<le> most' \<Longrightarrow> row_for I most' dest event key val"
  unfolding row_for_def using order_trans by blast

lemma length_event_key: "wf_event event \<Longrightarrow> length (event_key n event) = 8 \<longleftrightarrow> (\<exists>val. event = Edu val)"
  by (cases event) (auto simp: raw_from_slice_def NORMAL_LEN_def BACKFILLED_LEN_def split: if_splits)

lemma row_for_unique:
  assumes "row_for I most dest event key val" and "row_for I most' dest' event' key val'"
  shows "dest = dest'" "is_Edu event \<longleftrightarrow> is_Edu event'" "\<not> is_Edu event \<Longrightarrow> val = val'"
proof -
  obtain n n' where key: "key = get_prefix dest @ event_key n event" "key = get_prefix dest' @ event_key n' event'"
    using assms unfolding row_for_def by blast
  have wf: "wf_dest I dest" "wf_dest I dest'" "wf_event event" "wf_event event'"
    using assms by (simp_all add: row_for_def)
  show "dest = dest'" using get_prefix_inject(1) [OF wf(1,2)] key by metis
  have keys: "event_key n event = event_key n' event'" using get_prefix_inject(2) [OF wf(1,2)] key by metis
  then show edu: "is_Edu event \<longleftrightarrow> is_Edu event'"
    using length_event_key [OF wf(3), of n] length_event_key [OF wf(4), of n'] by (cases event; cases event') auto
  assume "\<not> is_Edu event"
  then show "val = val'"
    using edu assms by (cases event; cases event') (auto simp: row_for_def)
qed

lemma row_for_number:
  assumes "row_for I most dest event key val" and "wf_dest I dest'" and "key = get_prefix dest' @ to_be_bytes n"
  shows "n \<le> most"
proof -
  obtain n' where n': "n' \<le> most" "key = get_prefix dest @ event_key n' event" and wf: "wf_dest I dest" "wf_event event"
    using assms(1) by (auto simp: row_for_def)
  have "event_key n' event = to_be_bytes n"
    using get_prefix_inject(2) [OF wf(1) assms(2)] n'(2) assms(3) by metis
  moreover from this have "length (event_key n' event) = 8" by simp
  ultimately show ?thesis
    using n'(1) length_event_key [OF wf(2), of n'] by auto
qed

lemma parse_rows_map:
  assumes "\<And>key val. (key, val) \<in> set rows \<Longrightarrow> \<exists>dest. row_for I most dest (f key) key val"
  shows "parse_rows I rows = Inr (map (\<lambda>(key, _). (key, f key)) rows)"
  using assms
proof (induction rows)
  case (Cons row rows)
  obtain key val where row: "row = (key, val)" by (cases row)
  obtain dest where "row_for I most dest (f key) key val" using Cons.prems [of key val] row by auto
  then show ?case using Cons row_for_parse_row row by simp
qed simp

subsection \<open>The tables without I/O errors\<close>

lemma ok_items_Inr [simp]: "ok_items (map Inr xs) = xs"
  by (simp add: ok_items_def map_filter_def comp_def)

definition activate :: "(bytes \<times> sending_event) list \<Rightarrow> tables \<Rightarrow> tables" where
  "activate events m =
     foldl (\<lambda>m (key, event).
         m(SERVERCURRENTEVENT_DATA := (m SERVERCURRENTEVENT_DATA)(key \<mapsto> event_value event),
           SERVERNAMEEVENT_DATA := (m SERVERNAMEEVENT_DATA)(key := None)))
       m (filter (\<lambda>(key, _). key \<noteq> []) events)"

lemma send_columns_apart [simp]:
  "SERVERCURRENTEVENT_DATA \<noteq> SERVERNAMEEVENT_DATA" "SERVERNAMEEVENT_DATA \<noteq> SERVERCURRENTEVENT_DATA"
  "SERVERCURRENTEVENT_DATA \<noteq> SERVERNAME_EDUCOUNT" "SERVERNAME_EDUCOUNT \<noteq> SERVERCURRENTEVENT_DATA"
  "SERVERNAMEEVENT_DATA \<noteq> SERVERNAME_EDUCOUNT" "SERVERNAME_EDUCOUNT \<noteq> SERVERNAMEEVENT_DATA"
  "SERVERCURRENTEVENT_DATA \<noteq> GLOBAL" "SERVERNAMEEVENT_DATA \<noteq> GLOBAL" "SERVERNAME_EDUCOUNT \<noteq> GLOBAL"
  "GLOBAL \<noteq> SERVERCURRENTEVENT_DATA" "GLOBAL \<noteq> SERVERNAMEEVENT_DATA" "GLOBAL \<noteq> SERVERNAME_EDUCOUNT"
  by (simp_all add: send_columns_defs)

lemma activate_Nil [simp]: "activate [] m = m"
  by (simp add: activate_def)

lemma activate_Cons [simp]:
  "activate ((key, event) # events) m =
     (if key = [] then activate events m
      else activate events
        (m(SERVERCURRENTEVENT_DATA := (m SERVERCURRENTEVENT_DATA)(key \<mapsto> event_value event),
           SERVERNAMEEVENT_DATA := (m SERVERNAMEEVENT_DATA)(key := None))))"
  by (simp add: activate_def)

lemma activate_other:
  "c \<noteq> SERVERCURRENTEVENT_DATA \<Longrightarrow> c \<noteq> SERVERNAMEEVENT_DATA \<Longrightarrow> activate events m c = m c"
  by (induction events arbitrary: m) (auto split: if_splits)

lemma activate_queue:
  "activate events m SERVERNAMEEVENT_DATA key =
     (if key \<noteq> [] \<and> key \<in> fst ` set events then None else m SERVERNAMEEVENT_DATA key)"
  by (induction events arbitrary: m) (auto simp: image_iff split: if_splits, fastforce)

lemma activate_active:
  assumes "\<And>event. (key, event) \<in> set events \<Longrightarrow> event_value event = val"
  shows "activate events m SERVERCURRENTEVENT_DATA key =
     (if key \<noteq> [] \<and> key \<in> fst ` set events then Some val else m SERVERCURRENTEVENT_DATA key)"
  using assms by (induction events arbitrary: m) (auto simp: image_iff split: if_splits, fastforce)

text \<open>
  What queueing adds: a row per request, under keys whose numbers are fresh; nothing else but the counter
  changes.
\<close>

definition wf_request :: "id_checks \<Rightarrow> sending_event \<times> destination \<Rightarrow> bool" where
  "wf_request I r \<longleftrightarrow> wf_event (fst r) \<and> wf_dest I (snd r)"

definition keys_fresh :: "u64 \<Rightarrow> u64 \<Rightarrow> (sending_event \<times> destination) list \<Rightarrow> bytes list \<Rightarrow> bool" where
  "keys_fresh lo hi requests keys \<longleftrightarrow>
     list_all2 (\<lambda>r key. \<exists>n \<le> hi. key = get_prefix (snd r) @ event_key n (fst r) \<and> (is_Edu (fst r) \<longrightarrow> lo < n))
       requests keys \<and>
     sorted_wrt (\<lambda>(r, key) (r', key'). is_Edu (fst r) \<or> is_Edu (fst r') \<longrightarrow> key \<noteq> key') (zip requests keys)"

context rocks_io
begin

abbreviation tab :: "'d database \<Rightarrow> tables" where
  "tab db \<equiv> contents (eng_db db)"

lemma scan_from:
  "raw_stream_from R c False p db = Some (map Inr (filter (\<lambda>(k, _). p \<le> k) (entries (tab db c))))"
  unfolding raw_stream_from_def iter_from_def
  by (rule iter_bounded_ahead) (simp_all add: io_ok_status [OF io] cursor_init_def cursor_new_def seek_law bounded_def within_def)

lemma scan_all: "raw_stream R c False db = Some (map Inr (entries (tab db c)))"
  unfolding raw_stream_def iter_from_def
  by (rule iter_bounded_ahead) (simp_all add: io_ok_status [OF io] cursor_init_def cursor_new_def first_law bounded_def within_def)

lemma rows_for_under: "rows_for R c dest db = Some (under (get_prefix dest) (tab db c))"
proof -
  let ?p = "get_prefix dest"
  let ?xs = "filter (\<lambda>(k, _). ?p \<le> k) (entries (tab db c))"
  let ?P = "\<lambda>(k, _ :: bytes). prefix ?p k"
  have "sorted_wrt (\<lambda>x y. fst x < fst y) ?xs" by (rule sorted_wrt_filter) (rule sorted_entries)
  moreover have "?P y \<longrightarrow> ?P x" if "x \<in> set ?xs" "y \<in> set ?xs" "fst x < fst y" for x y
  proof -
    have "?p \<le> fst x" using that(1) by (simp only: set_filter mem_Collect_eq split_beta)
    then show ?thesis
      using that(3) by (auto simp: split_beta prefix_range_iff within_def split: option.splits)
  qed
  ultimately have "sorted_wrt (\<lambda>x y. ?P y \<longrightarrow> ?P x) ?xs"
    by (rule sorted_wrt_mono_rel [rotated])
  then have "takeWhile ?P ?xs = filter ?P ?xs" by (rule takeWhile_eq_filter)
  also have "\<dots> = under ?p (tab db c)"
    unfolding under_def filter_filter by (rule filter_cong) (auto simp: prefix_range_iff)
  finally show ?thesis by (simp add: rows_for_def scan_from)
qed

lemma in_under: "(k, v) \<in> set (under p (tab db c)) \<longleftrightarrow> prefix p k \<and> tab db c k = Some v"
  using set_entries [OF finite_law] by (auto simp: under_def)

lemma txn_execute_table:
  "\<exists>db'. txn_execute R t db = (db', Inr ()) \<and> tab db' = foldl apply_op (tab db) (txn_batch t)"
proof (cases "txn_batch t = []")
  case False
  obtain d where d: "write_batch R (eng_db db) (txn_batch t) = Inr d" using io_okD(3) [OF io] by blast
  obtain d2 where d2: "flush_wal R d False = Inr d2" using io_okD(4) [OF io] by blast
  show ?thesis
    using write_law [OF d] flush_law [OF d2] False
    by (simp add: txn_execute_def engine_write_def d flush_if_uncorked_def engine_flush_def d2 wake_all(1))
qed (simp add: txn_execute_def)

lemma insert_batch_table:
  "\<exists>db'. map_insert_batch R c kvs db = (db', Inr ()) \<and> tab db' = (tab db)(c := tab db c ++ map_of (rev kvs))"
proof -
  let ?ops = "map (\<lambda>(k, v). BatchPut c k v) kvs"
  obtain d where d: "write_batch R (eng_db db) ?ops = Inr d" using io_okD(3) [OF io] by blast
  obtain d2 where d2: "flush_wal R d False = Inr d2" using io_okD(4) [OF io] by blast
  have ops: "foldl apply_op m ?ops = m(c := m c ++ map_of (rev kvs))" for m
    by (induction kvs arbitrary: m) (auto simp: map_add_upd_left map_add_def fun_eq_iff split: option.splits)
  have wake: "eng_db (foldl (\<lambda>s k. map_wake c k s) s ks) = eng_db s" for ks and s :: "'d database"
    by (induction ks arbitrary: s) simp_all
  show ?thesis
    using write_law [OF d] flush_law [OF d2] ops [of "tab db"]
    by (simp add: map_insert_batch_def engine_write_def d flush_if_uncorked_def engine_flush_def d2 wake)
qed

lemma mark_as_active_table:
  "\<exists>db'. mark_as_active R events db = (db', Inr ()) \<and> tab db' = activate events (tab db)"
proof -
  let ?step = "\<lambda>t (key, event). txn_remove SERVERNAMEEVENT_DATA key
      (txn_insert SERVERCURRENTEVENT_DATA key (event_value event) t)"
  have "foldl apply_op m (txn_batch (foldl ?step t events)) =
      activate events (foldl apply_op m (txn_batch t))"
    if "\<forall>(key, _) \<in> set events. key \<noteq> []" for m t events
    using that by (induction events arbitrary: t) (auto simp: txn_insert_def txn_remove_def fun_upd_def fun_eq_iff)
  from this [of "filter (\<lambda>(key, _). key \<noteq> []) events" "tab db" txn_new]
  have "foldl apply_op (tab db) (txn_batch (foldl ?step txn_new (filter (\<lambda>(key, _). key \<noteq> []) events))) =
      activate events (tab db)"
    by (auto simp: activate_def txn_new_def)
  then show ?thesis
    using txn_execute_table [of "foldl ?step txn_new (filter (\<lambda>(key, _). key \<noteq> []) events)" db]
    by (simp add: mark_as_active_def)
qed

lemma delete_active_table:
  "\<exists>db'. delete_all_active_requests_for R dest db = Some db' \<and>
     tab db' = (tab db)(SERVERCURRENTEVENT_DATA :=
       tab db SERVERCURRENTEVENT_DATA |` {k. \<not> prefix (get_prefix dest) k})"
  using raw_del_prefix_ok [OF io] by (metis delete_all_active_requests_for_def)

lemma delete_all_table:
  "\<exists>db'. delete_all_requests_for R dest db = Some db' \<and>
     tab db' = (tab db)(SERVERCURRENTEVENT_DATA :=
         tab db SERVERCURRENTEVENT_DATA |` {k. \<not> prefix (get_prefix dest) k},
       SERVERNAMEEVENT_DATA := tab db SERVERNAMEEVENT_DATA |` {k. \<not> prefix (get_prefix dest) k})"
proof -
  obtain db1 where db1: "raw_del_prefix R SERVERCURRENTEVENT_DATA (get_prefix dest) db = Some db1"
      "tab db1 = (tab db)(SERVERCURRENTEVENT_DATA :=
         tab db SERVERCURRENTEVENT_DATA |` {k. \<not> prefix (get_prefix dest) k})"
    using raw_del_prefix_ok [OF io] by blast
  obtain db2 where "raw_del_prefix R SERVERNAMEEVENT_DATA (get_prefix dest) db1 = Some db2"
      "tab db2 = (tab db1)(SERVERNAMEEVENT_DATA :=
         tab db1 SERVERNAMEEVENT_DATA |` {k. \<not> prefix (get_prefix dest) k})"
    using raw_del_prefix_ok [OF io] by blast
  then show ?thesis using db1 by (simp add: delete_all_requests_for_def)
qed

lemma counter_next_table:
  assumes "server_counter_next dbg R s = (s', Inr n)"
  shows "srv_count s < n" "srv_count s' = n" "tab (srv_db s') = put_entry GLOBAL COUNTER (to_be_bytes n) (tab (srv_db s))"
proof -
  have "server_issue dbg R s = Some (n, s')" using assms by (simp add: server_issue_def)
  then show "srv_count s < n" "srv_count s' = n" by (blast dest: server_issue_Some)+
  show "tab (srv_db s') = put_entry GLOBAL COUNTER (to_be_bytes n) (tab (srv_db s))"
  proof -
    obtain db where "srv_db s' = engine_uncork db"
        "map_insert R GLOBAL COUNTER (to_be_bytes n) (engine_cork (srv_db s)) = (db, Inr ())"
      using assms by (cases rule: server_counter_next_cases) auto
    then show ?thesis
      using insert_effect [of GLOBAL COUNTER "to_be_bytes n" "engine_cork (srv_db s)"] by auto
  qed
qed

lemma request_key_table:
  assumes "request_key dbg R (event, dest) s = (s', Inr key)" and "wf_event event"
  shows "srv_count s \<le> srv_count s'" "c \<noteq> GLOBAL \<Longrightarrow> tab (srv_db s') c = tab (srv_db s) c"
    "\<exists>n \<le> srv_count s'. key = get_prefix dest @ event_key n event \<and> (is_Edu event \<longrightarrow> srv_count s < n)"
proof -
  have "srv_count s \<le> srv_count s' \<and> (\<forall>c. c \<noteq> GLOBAL \<longrightarrow> tab (srv_db s') c = tab (srv_db s) c) \<and>
    (\<exists>n \<le> srv_count s'. key = get_prefix dest @ event_key n event \<and> (is_Edu event \<longrightarrow> srv_count s < n))"
  proof (cases event)
    case (Pdu raw)
    with assms(1) show ?thesis by (auto intro: exI [of _ 0])
  next
    case (Edu val)
    then obtain n where drawn: "server_counter_next dbg R s = (s', Inr n)" "key = get_prefix dest @ to_be_bytes n"
      using assms(1) by (auto simp: st_bind_Inr_iff)
    note drew = counter_next_table [OF drawn(1)]
    show ?thesis using drew(1,2) drawn(2) by (auto simp: drew(3) put_entry_def Edu)
  qed (use assms(2) in simp)
  then show "srv_count s \<le> srv_count s'" "c \<noteq> GLOBAL \<Longrightarrow> tab (srv_db s') c = tab (srv_db s) c"
    "\<exists>n \<le> srv_count s'. key = get_prefix dest @ event_key n event \<and> (is_Edu event \<longrightarrow> srv_count s < n)"
    by blast+
qed

lemma request_keys_table:
  assumes "request_keys dbg R requests s = (s', Inr keys)" and "list_all (wf_request I) requests"
  shows "srv_count s \<le> srv_count s' \<and> (\<forall>c. c \<noteq> GLOBAL \<longrightarrow> tab (srv_db s') c = tab (srv_db s) c) \<and>
    keys_fresh (srv_count s) (srv_count s') requests keys"
  using assms
proof (induction requests arbitrary: s keys)
  case (Cons r requests)
  obtain event dest where r: "r = (event, dest)" by (cases r)
  obtain s1 key keys' where step: "request_key dbg R (event, dest) s = (s1, Inr key)"
      "request_keys dbg R requests s1 = (s', Inr keys')" "keys = key # keys'"
    using Cons.prems(1) by (auto simp: st_bind_Inr_iff r)
  have wf: "wf_event event" "wf_dest I dest" using Cons.prems(2) by (simp_all add: r wf_request_def)
  note one = request_key_table [OF step(1) wf(1)]
  have IH: "srv_count s1 \<le> srv_count s'" "\<And>c. c \<noteq> GLOBAL \<Longrightarrow> tab (srv_db s') c = tab (srv_db s1) c"
      "keys_fresh (srv_count s1) (srv_count s') requests keys'"
    using Cons.IH [OF step(2)] Cons.prems(2) by auto
  obtain n where n: "n \<le> srv_count s1" "key = get_prefix dest @ event_key n event" "is_Edu event \<Longrightarrow> srv_count s < n"
    using one(3) by blast
  have rest: "\<exists>n' \<le> srv_count s'. key' = get_prefix (snd r') @ event_key n' (fst r') \<and> (is_Edu (fst r') \<longrightarrow> srv_count s1 < n')"
    and wf': "wf_event (fst r')" "wf_dest I (snd r')" if "(r', key') \<in> set (zip requests keys')" for r' key'
    using IH(3) that Cons.prems(2) set_zip_leftD [OF that]
    unfolding keys_fresh_def list_all2_iff list_all_iff wf_request_def by fastforce+
  have apart: "key \<noteq> key'" if mem: "(r', key') \<in> set (zip requests keys')" and edu: "is_Edu event \<or> is_Edu (fst r')" for r' key'
  proof
    assume same: "key = key'"
    obtain n' where n': "key' = get_prefix (snd r') @ event_key n' (fst r')" "is_Edu (fst r') \<Longrightarrow> srv_count s1 < n'"
      using rest [OF mem] by blast
    have eq: "event_key n event = event_key n' (fst r')"
      using get_prefix_inject(2) [OF wf(2) wf'(2) [OF mem]] n(2) n'(1) same by metis
    then have "is_Edu event \<longleftrightarrow> is_Edu (fst r')"
      using length_event_key [OF wf(1), of n] length_event_key [OF wf'(1) [OF mem], of n']
      by (cases event; cases "fst r'") auto
    with edu have "is_Edu event" "is_Edu (fst r')" by blast+
    with eq have "n = n'" by (cases event; cases "fst r'") auto
    then show False using n(1) n'(2) [OF \<open>is_Edu (fst r')\<close>] by simp
  qed
  have "keys_fresh (srv_count s) (srv_count s') (r # requests) (key # keys')"
    unfolding keys_fresh_def
  proof
    have "list_all2 (\<lambda>r key. \<exists>n \<le> srv_count s'. key = get_prefix (snd r) @ event_key n (fst r) \<and>
        (is_Edu (fst r) \<longrightarrow> srv_count s < n)) requests keys'"
      by (rule list_all2_mono [OF conjunct1 [OF IH(3) [unfolded keys_fresh_def]]])
        (use one(1) in \<open>auto intro: order.strict_trans1\<close>)
    then show "list_all2 (\<lambda>r key. \<exists>n \<le> srv_count s'. key = get_prefix (snd r) @ event_key n (fst r) \<and>
        (is_Edu (fst r) \<longrightarrow> srv_count s < n)) (r # requests) (key # keys')"
      using n IH(1) by (auto simp: r intro: order_trans)
    show "sorted_wrt (\<lambda>(r, key) (r', key'). is_Edu (fst r) \<or> is_Edu (fst r') \<longrightarrow> key \<noteq> key') (zip (r # requests) (key # keys'))"
      using IH(3) apart by (auto simp: keys_fresh_def r)
  qed
  moreover have "srv_count s \<le> srv_count s'" by (rule order_trans [OF one(1) IH(1)])
  moreover have "\<forall>c. c \<noteq> GLOBAL \<longrightarrow> tab (srv_db s') c = tab (srv_db s) c" 
    by (intro allI impI) (rule trans [OF IH(2) one(2)])
  ultimately show ?case unfolding step(3) by blast
qed (simp add: keys_fresh_def)

lemma queue_requests_table:
  assumes "queue_requests dbg R requests s = (s', Inr keys)" and "list_all (wf_request I) requests"
  shows "srv_count s \<le> srv_count s'"
    "c \<noteq> GLOBAL \<Longrightarrow> c \<noteq> SERVERNAMEEVENT_DATA \<Longrightarrow> tab (srv_db s') c = tab (srv_db s) c"
    "tab (srv_db s') SERVERNAMEEVENT_DATA =
       tab (srv_db s) SERVERNAMEEVENT_DATA ++ map_of (rev (zip keys (map (event_value \<circ> fst) requests)))"
    "keys_fresh (srv_count s) (srv_count s') requests keys"
proof -
  obtain s1 where keys: "request_keys dbg R requests s = (s1, Inr keys)"
    and s': "s' = s1\<lparr>srv_db := fst (map_insert_batch R SERVERNAMEEVENT_DATA
      (zip keys (map (event_value \<circ> fst) requests)) (srv_db s1))\<rparr>"
  proof -
    from assms(1) obtain s1 keys' where first: "request_keys dbg R requests s = (s1, Inr keys')"
      and last: "(case map_insert_batch R SERVERNAMEEVENT_DATA (zip keys' (map (event_value \<circ> fst) requests)) (srv_db s1) of
         (db, Inl e) \<Rightarrow> (s1\<lparr>srv_db := db\<rparr>, Inl (SrvDb e))
       | (db, Inr _) \<Rightarrow> (s1\<lparr>srv_db := db\<rparr>, Inr keys')) = (s', Inr keys)"
      unfolding queue_requests_def st_bind_Inr_iff by blast
    obtain db where "map_insert_batch R SERVERNAMEEVENT_DATA (zip keys' (map (event_value \<circ> fst) requests)) (srv_db s1) = (db, Inr ())"
      using insert_batch_table by blast
    then show ?thesis using that [of s1] first last by simp
  qed
  note one = request_keys_table [OF keys assms(2)]
  have t: "tab (srv_db s') = (tab (srv_db s1))(SERVERNAMEEVENT_DATA := tab (srv_db s1) SERVERNAMEEVENT_DATA ++
      map_of (rev (zip keys (map (event_value \<circ> fst) requests))))"
    using insert_batch_table [of SERVERNAMEEVENT_DATA "zip keys (map (event_value \<circ> fst) requests)" "srv_db s1"] s' by auto
  have "srv_count s' = srv_count s1" by (simp add: s')
  with one t show "srv_count s \<le> srv_count s'"
    "c \<noteq> GLOBAL \<Longrightarrow> c \<noteq> SERVERNAMEEVENT_DATA \<Longrightarrow> tab (srv_db s') c = tab (srv_db s) c"
    "tab (srv_db s') SERVERNAMEEVENT_DATA =
       tab (srv_db s) SERVERNAMEEVENT_DATA ++ map_of (rev (zip keys (map (event_value \<circ> fst) requests)))"
    "keys_fresh (srv_count s) (srv_count s') requests keys"
    by simp_all
qed

end

end
