(* ===== verification/Sender_Props.thy ===== *)
theory Sender_Props
  imports Sender Send_Queue_Props
begin

section \<open>What sending promises\<close>

text \<open>
  Every destination has at most one transaction under way, what is active is part of it, and no event is
  lost before a transaction with it was answered. The handlers of a worker are first described by what
  they do to the tables, the statuses and the transactions; the invariant of the service is then kept by
  every step.
\<close>

subsection \<open>The handlers without I/O errors\<close>

lemma sender_fields [simp]:
  "sender_db (set_sender_db db s) = db" "statuses (set_sender_db db s) = statuses s"
  "futures (set_sender_db db s) = futures s" "srv_count (sd_srv (set_sender_db db s)) = srv_count (sd_srv s)"
  "sender_db (set_status dest st s) = sender_db s" "statuses (set_status dest st s) = (statuses s)(dest := st)"
  "futures (set_status dest st s) = futures s" "sd_srv (set_status dest st s) = sd_srv s"
  "sender_db (s\<lparr>futures := fs\<rparr>) = sender_db s" "sender_db (s\<lparr>statuses := sts\<rparr>) = sender_db s"
  by (simp_all add: sender_db_def set_sender_db_def set_status_def)

lemma set_sender_db_twice [simp]: "set_sender_db db' (set_sender_db db s) = set_sender_db db' s"
  by (simp add: set_sender_db_def)

lemma corked_sender:
  "corked R sender_db set_sender_db f s =
     (case f (set_sender_db (engine_cork (sender_db s)) s) of
        (s', r) \<Rightarrow> (set_sender_db (engine_uncork (sender_db s')) s', r))"
  by (simp add: corked_def cork_new_def split: prod.split)

lemma push_transaction_ok:
  "push_transaction dbg dest events s = (s', Inr ()) \<Longrightarrow> s' = s\<lparr>futures := futures s @ [(dest, events)]\<rparr>"
  "events \<noteq> [] \<Longrightarrow> push_transaction dbg dest events s = (s\<lparr>futures := futures s @ [(dest, events)]\<rparr>, Inr ())"
  by (auto simp: push_transaction_def split: if_splits)

lemma educount_put:
  "set_latest_educount dbg R server w db = map_insert R SERVERNAME_EDUCOUNT server (to_be_bytes w) db"
  by (simp add: set_latest_educount_def map_raw_put_def map_raw_bput_def)

text \<open>What a step of a worker leaves alone.\<close>

definition same_worker :: "'d sender \<Rightarrow> 'd sender \<Rightarrow> bool" where
  "same_worker s s' \<longleftrightarrow>
     statuses s' = statuses s \<and> futures s' = futures s \<and> srv_count (sd_srv s') = srv_count (sd_srv s)"

lemma same_worker_simps [simp]:
  "same_worker s s" "same_worker s (set_sender_db db s')  \<longleftrightarrow> same_worker s s'"
  "same_worker (set_sender_db db s) s' \<longleftrightarrow> same_worker s s'"
  by (simp_all add: same_worker_def)

lemma same_worker_trans: "same_worker s s' \<Longrightarrow> same_worker s' s'' \<Longrightarrow> same_worker s s''"
  by (simp add: same_worker_def)

lemma parse_rows_length: "parse_rows I rows = Inr items \<Longrightarrow> length items = length rows"
  by (induction rows arbitrary: items) (auto simp: res_bind_Inr_iff split: prod.splits)

context rocks_io
begin

abbreviation stab :: "'d sender \<Rightarrow> tables" where
  "stab s \<equiv> tab (sender_db s)"

lemma mark_new_events_table:
  "\<exists>s'. mark_new_events R events s = (s', Inr (map snd events)) \<and> stab s' = activate events (stab s) \<and>
     same_worker s s'"
proof -
  obtain db where db: "mark_as_active R events (sender_db s) = (db, Inr ())" "tab db = activate events (stab s)"
    using mark_as_active_table by blast
  show ?thesis by (cases "events = []") (simp_all add: mark_new_events_def db)
qed

lemma append_edus_table:
  assumes "append_edus dbg R E server events s = (s', r)"
  shows "case r of
      Inl e \<Rightarrow> fatal e
    | Inr events' \<Rightarrow> (\<exists>edus. events' = events @ map Edu edus) \<and> same_worker s s' \<and>
        (\<forall>c. c \<noteq> SERVERNAME_EDUCOUNT \<longrightarrow> stab s' c = stab s c)"
proof (cases "select_edus dbg R E server (sd_srv s)")
  case (Inl e)
  then show ?thesis
    using assms by (auto simp: append_edus_def intro: exI [of _ "[]"] split: if_splits)
next
  case (Inr res)
  obtain edus w where res: "res = (edus, w)" by (cases res)
  obtain db where "set_latest_educount dbg R server w (sender_db s) = (db, Inr ())"
      "tab db = put_entry SERVERNAME_EDUCOUNT server (to_be_bytes w) (stab s)"
    using insert_effect [of SERVERNAME_EDUCOUNT server "to_be_bytes w" "sender_db s"] by (auto simp: educount_put)
  then show ?thesis
    using assms by (auto simp: append_edus_def Inr res put_entry_def fatal_def split: if_splits)
qed

lemma select_fresh_table:
  assumes "select_fresh dbg R E dest events s = (s', r)"
  shows "case r of
      Inl e \<Rightarrow> fatal e
    | Inr events' \<Rightarrow> (\<exists>edus. events' = map snd events @ map Edu edus) \<and> same_worker s s' \<and>
        (\<forall>c. c \<noteq> SERVERNAME_EDUCOUNT \<longrightarrow> stab s' c = activate events (stab s) c)"
proof -
  let ?s0 = "set_sender_db (engine_cork (sender_db s)) s"
  obtain s1 where s1: "mark_new_events R events ?s0 = (s1, Inr (map snd events))"
      "stab s1 = activate events (stab s)" "same_worker s s1"
    using mark_new_events_table [of events ?s0] by auto
  show ?thesis
  proof (cases dest)
    case (Federation server)
    obtain s2 r2 where s2: "append_edus dbg R E server (map snd events) s1 = (s2, r2)"
      by (cases "append_edus dbg R E server (map snd events) s1")
    have s': "s' = set_sender_db (engine_uncork (sender_db s2)) s2" "r = r2"
      using assms s1(1) s2 by (auto simp: select_fresh_def corked_sender Federation)
    show ?thesis
      using append_edus_table [OF s2] s1(2,3) same_worker_trans [OF s1(3)]
      by (cases r) (auto simp: s')
  qed (use assms s1 in \<open>auto simp: select_fresh_def corked_sender intro: exI [of _ "[]"]\<close>)
qed

lemma select_retry_table:
  "select_retry I R dest s =
     (s, map_sum id (map snd) (parse_rows I (under (get_prefix dest) (stab s SERVERCURRENTEVENT_DATA))))"
  by (simp add: select_retry_def active_requests_for_def rows_for_under)

text \<open>The outcomes of a message: nothing, a first transaction, a retry, or nothing left to retry.\<close>

lemma select_events_current_cases:
  obtains (skip) "select_events_current N now d revive s = (s, False, False)" "statuses s d \<noteq> None"
  | (fresh) "select_events_current N now d revive s = (set_status d (Some Running) s, True, False)" "statuses s d = None"
  | (retry) tries at where "select_events_current N now d revive s = (set_status d (Some (Retrying tries)) s, True, True)"
      "statuses s d = Some (Failed tries at)"
proof (cases "statuses s d")
  case None
  then show ?thesis using fresh by (simp add: select_events_current_def)
next
  case (Some st)
  show ?thesis
  proof (cases st)
    case (Failed tries at)
    let ?wait = "\<not> revive \<and> continue_exponential_backoff_secs (sender_timeout N) (sender_retry_backoff_limit N) (now - at) tries \<and>
      \<not> is_Appservice d"
    have eq: "select_events_current N now d revive s =
        (if ?wait then (s, False, False) else (set_status d (Some (Retrying tries)) s, True, True))"
      using Some Failed by (simp add: select_events_current_def)
    have status: "statuses s d \<noteq> None" "statuses s d = Some (Failed tries at)" using Some Failed by simp_all
    show ?thesis
      using skip [OF trans [OF eq if_P] status(1)] retry [OF trans [OF eq if_not_P] status(2)] by (cases ?wait)
  qed (use Some skip in \<open>simp_all add: select_events_current_def\<close>)
qed

lemma parse_rows_fatal: "parse_rows I rows = Inl e \<Longrightarrow> fatal e"
  by (induction rows) (auto simp: res_bind_Inl_iff parse_row_def fatal_def split: sum.splits prod.splits)

lemma handle_request_retry:
  assumes "select_events_current N now (msg_dest m) (msg_revive m) s = (set_status (msg_dest m) (Some (Retrying tries)) s, True, True)"
  defines "s1 \<equiv> set_sender_db (engine_uncork (engine_cork (sender_db s))) (set_status (msg_dest m) (Some (Retrying tries)) s)"
  shows "handle_request dbg I R E N now m s =
    (case parse_rows I (under (get_prefix (msg_dest m)) (stab s SERVERCURRENTEVENT_DATA)) of
       Inl e \<Rightarrow> (s1, Inl e)
     | Inr items \<Rightarrow>
         (if items \<noteq> [] then s1\<lparr>futures := futures s @ [(msg_dest m, map snd items)]\<rparr>
          else set_status (msg_dest m) None s1, Inr ()))"
  using parse_rows_fatal [of I "under (get_prefix (msg_dest m)) (stab s SERVERCURRENTEVENT_DATA)"]
  by (cases "parse_rows I (under (get_prefix (msg_dest m)) (stab s SERVERCURRENTEVENT_DATA))")
    (simp_all add: handle_request_def select_events_def assms(1) corked_sender select_retry_table push_transaction_ok(2) s1_def)

lemma handle_request_fresh:
  assumes run: "handle_request dbg I R E N now m s = (s', Inr ())"
    and current: "select_events_current N now (msg_dest m) (msg_revive m) s = (set_status (msg_dest m) (Some Running) s, True, False)"
  obtains edus where "\<And>c. c \<noteq> SERVERNAME_EDUCOUNT \<Longrightarrow> stab s' c = activate [(msg_queue_id m, msg_event m)] (stab s) c"
    "statuses s' = (statuses s)(msg_dest m \<mapsto> Running)"
    "futures s' = futures s @ [(msg_dest m, msg_event m # map Edu edus)]" "srv_count (sd_srv s') = srv_count (sd_srv s)"
proof -
  let ?new = "[(msg_queue_id m, msg_event m)]"
  let ?s0 = "set_sender_db (engine_cork (sender_db s)) (set_status (msg_dest m) (Some Running) s)"
  obtain s2 r2 where sel: "select_fresh dbg R E (msg_dest m) ?new ?s0 = (s2, r2)"
    by (cases "select_fresh dbg R E (msg_dest m) ?new ?s0")
  note tables = select_fresh_table [OF sel]
  let ?s3 = "set_sender_db (engine_uncork (sender_db s2)) s2"
  have chosen: "select_events dbg I R E N now (msg_dest m) ?new (msg_revive m) s = (?s3, map_sum id Some r2)"
    using sel by (cases r2) (simp_all add: select_events_def current corked_sender)
  obtain events where events: "r2 = Inr events"
    using run tables by (cases r2) (auto simp: handle_request_def chosen)
  with tables obtain edus where edus: "events = msg_event m # map Edu edus" "same_worker ?s0 s2"
      "\<And>c. c \<noteq> SERVERNAME_EDUCOUNT \<Longrightarrow> stab s2 c = activate ?new (stab s) c"
    by auto
  have "s' = ?s3\<lparr>futures := futures ?s3 @ [(msg_dest m, events)]\<rparr>"
    using run edus(1) by (simp add: handle_request_def chosen events push_transaction_ok(2))
  then show ?thesis using that [of edus] edus by (auto simp: same_worker_def)
qed

lemma handle_request_cases:
  assumes "handle_request dbg I R E N now m s = (s', Inr ())"
  obtains (skip) "same_worker s s'" "stab s' = stab s" "statuses s (msg_dest m) \<noteq> None"
  | (fresh) edus where "statuses s (msg_dest m) = None"
      "\<And>c. c \<noteq> SERVERNAME_EDUCOUNT \<Longrightarrow> stab s' c = activate [(msg_queue_id m, msg_event m)] (stab s) c"
      "statuses s' = (statuses s)(msg_dest m \<mapsto> Running)"
      "futures s' = futures s @ [(msg_dest m, msg_event m # map Edu edus)]"
      "srv_count (sd_srv s') = srv_count (sd_srv s)"
  | (retry) tries at items where "statuses s (msg_dest m) = Some (Failed tries at)"
      "parse_rows I (under (get_prefix (msg_dest m)) (stab s SERVERCURRENTEVENT_DATA)) = Inr items"
      "stab s' = stab s" "statuses s' = (statuses s)(msg_dest m := if items = [] then None else Some (Retrying tries))"
      "futures s' = futures s @ (if items = [] then [] else [(msg_dest m, map snd items)])"
      "srv_count (sd_srv s') = srv_count (sd_srv s)"
proof (cases rule: select_events_current_cases [of N now "msg_dest m" "msg_revive m" s, case_names skip fresh retry])
  case skip
  then show ?thesis using that(1) assms by (simp add: handle_request_def select_events_def)
next
  case fresh
  from handle_request_fresh [OF assms fresh(1)] show ?thesis using that(2) [OF fresh(2)] by metis
next
  case (retry tries at)
  note handled = assms [unfolded handle_request_retry [OF retry(1)]]
  then obtain items where items: "parse_rows I (under (get_prefix (msg_dest m)) (stab s SERVERCURRENTEVENT_DATA)) = Inr items"
    by (auto split: sum.splits)
  then show ?thesis using that(3) [OF retry(2) items] handled by (auto split: if_splits)
qed

lemma handle_response_ok_cases:
  assumes "handle_response_ok dbg I R dest s = (s', Inr ())"
  defines "t \<equiv> (stab s)(SERVERCURRENTEVENT_DATA := stab s SERVERCURRENTEVENT_DATA |` {k. \<not> prefix (get_prefix dest) k})"
  obtains (more) items where
      "parse_rows I (take DEQUEUE_LIMIT (under (get_prefix dest) (stab s SERVERNAMEEVENT_DATA))) = Inr items" "items \<noteq> []"
      "stab s' = activate items t" "statuses s' = (statuses s)(dest \<mapsto> Running)"
      "futures s' = futures s @ [(dest, map snd items)]" "srv_count (sd_srv s') = srv_count (sd_srv s)"
  | (idle) "under (get_prefix dest) (stab s SERVERNAMEEVENT_DATA) = []" "stab s' = t"
      "statuses s' = (statuses s)(dest := None)" "futures s' = futures s" "srv_count (sd_srv s') = srv_count (sd_srv s)"
proof -
  let ?s0 = "set_sender_db (engine_cork (sender_db s)) s"
  obtain db where db: "delete_all_active_requests_for R dest (sender_db ?s0) = Some db" "tab db = t"
    using delete_active_table [of dest "sender_db ?s0"] by (auto simp: t_def)
  have rows: "queued_requests R dest db = Some (under (get_prefix dest) (stab s SERVERNAMEEVENT_DATA))"
    by (simp add: queued_requests_def rows_for_under db(2) t_def)
  obtain items where items: "parse_rows I (take DEQUEUE_LIMIT (under (get_prefix dest) (stab s SERVERNAMEEVENT_DATA))) = Inr items"
    using assms(1)
    by (cases "parse_rows I (take DEQUEUE_LIMIT (under (get_prefix dest) (stab s SERVERNAMEEVENT_DATA)))")
      (auto simp: handle_response_ok_def corked_sender db(1) [simplified] rows split: prod.splits)
  show ?thesis
  proof (cases "items = []")
    case True
    have "length items = length (take DEQUEUE_LIMIT (under (get_prefix dest) (stab s SERVERNAMEEVENT_DATA)))"
      using items by (rule parse_rows_length)
    then have "under (get_prefix dest) (stab s SERVERNAMEEVENT_DATA) = []" 
      by (simp add: True DEQUEUE_LIMIT_def min_def split: if_splits)
    then show ?thesis
      using idle assms(1) items True
      by (auto simp: handle_response_ok_def corked_sender db(1) [simplified] db(2) rows)
  next
    case False
    obtain db2 where db2: "mark_as_active R items db = (db2, Inr ())" "tab db2 = activate items t"
      using mark_as_active_table [of items db] db(2) by auto
    show ?thesis
      using more [OF items False] assms(1) False
      by (auto simp: handle_response_ok_def corked_sender db(1) [simplified] rows items db2 push_transaction_ok(2))
  qed
qed

end

subsection \<open>The invariant of a worker\<close>

fun in_flight :: "transaction_status option \<Rightarrow> bool" where
  "in_flight (Some Running) = True"
| "in_flight (Some (Retrying _)) = True"
| "in_flight _ = False"

text \<open>
  For the destinations of a worker: a transaction is under way exactly when the status says so, there is
  at most one, it has every active event of its destination, and a destination without a status has no
  active event.
\<close>

definition carries :: "id_checks \<Rightarrow> tables \<Rightarrow> destination \<Rightarrow> sending_event list \<Rightarrow> bool" where
  "carries I m dest events \<longleftrightarrow>
     (\<forall>key val. m SERVERCURRENTEVENT_DATA key = Some val \<longrightarrow> prefix (get_prefix dest) key \<longrightarrow>
        (\<exists>event \<in> set events. parse_servercurrentevent I key val = Inr (dest, event)))"

definition worker_ok ::
  "id_checks \<Rightarrow> (destination \<Rightarrow> bool) \<Rightarrow> tables \<Rightarrow> (destination \<rightharpoonup> transaction_status) \<Rightarrow>
     (destination \<times> sending_event list) list \<Rightarrow> bool"
where
  "worker_ok I mine m st fut \<longleftrightarrow>
     distinct (map fst fut) \<and>
     (\<forall>(dest, events) \<in> set fut. mine dest \<and> wf_dest I dest \<and> carries I m dest events) \<and>
     (\<forall>dest. in_flight (st dest) \<longleftrightarrow> dest \<in> fst ` set fut) \<and>
     (\<forall>dest. mine dest \<longrightarrow> wf_dest I dest \<longrightarrow> st dest = None \<longrightarrow> carries I m dest [])"

lemma worker_okI:
  assumes "distinct (map fst fut)"
    and "\<And>dest events. (dest, events) \<in> set fut \<Longrightarrow> mine dest \<and> wf_dest I dest \<and> carries I m dest events"
    and "\<And>dest. in_flight (st dest) \<longleftrightarrow> dest \<in> fst ` set fut"
    and "\<And>dest. mine dest \<Longrightarrow> wf_dest I dest \<Longrightarrow> st dest = None \<Longrightarrow> carries I m dest []"
  shows "worker_ok I mine m st fut"
  using assms by (auto simp: worker_ok_def)

lemma worker_okD:
  assumes "worker_ok I mine m st fut"
  shows "distinct (map fst fut)"
    "(dest, events) \<in> set fut \<Longrightarrow> mine dest" "(dest, events) \<in> set fut \<Longrightarrow> wf_dest I dest"
    "(dest, events) \<in> set fut \<Longrightarrow> carries I m dest events"
    "in_flight (st dest) \<longleftrightarrow> dest \<in> fst ` set fut"
    "mine dest \<Longrightarrow> wf_dest I dest \<Longrightarrow> st dest = None \<Longrightarrow> carries I m dest []"
  using assms by (auto simp: worker_ok_def)

lemma carries_cong:
  assumes "\<And>key. prefix (get_prefix dest) key \<Longrightarrow> m' SERVERCURRENTEVENT_DATA key = m SERVERCURRENTEVENT_DATA key"
  shows "carries I m' dest events \<longleftrightarrow> carries I m dest events"
  using assms by (auto simp: carries_def)

lemma carries_Nil:
  "carries I m dest [] \<longleftrightarrow> (\<forall>key. prefix (get_prefix dest) key \<longrightarrow> m SERVERCURRENTEVENT_DATA key = None)"
  by (auto simp: carries_def)

lemma worker_ok_frame:
  assumes "worker_ok I mine m st fut"
    and "\<And>dest key. mine dest \<Longrightarrow> wf_dest I dest \<Longrightarrow> prefix (get_prefix dest) key \<Longrightarrow>
      m' SERVERCURRENTEVENT_DATA key = m SERVERCURRENTEVENT_DATA key"
  shows "worker_ok I mine m' st fut"
proof (rule worker_okI)
  show "mine dest \<and> wf_dest I dest \<and> carries I m' dest events" if "(dest, events) \<in> set fut" for dest events
    using that worker_okD(2-4) [OF assms(1)] carries_cong [of dest m' m I events] assms(2) [of dest] by blast
  show "carries I m' dest []" if "mine dest" "wf_dest I dest" "st dest = None" for dest
    using that worker_okD(6) [OF assms(1)] carries_cong [of dest m' m I "[]"] assms(2) [of dest] by blast
qed (use worker_okD(1,5) [OF assms(1)] in auto)

text \<open>A new status for a destination whose transaction, if it had one, is over.\<close>

lemma worker_ok_change:
  assumes ok: "worker_ok I mine m st fut" and dest: "mine dest" "wf_dest I dest"
    and over: "distinct (map fst fut')" "set fut' \<subseteq> set fut" "\<And>d. d \<in> fst ` set fut' \<longleftrightarrow> d \<in> fst ` set fut \<and> d \<noteq> dest"
    and others: "\<And>d key. wf_dest I d \<Longrightarrow> d \<noteq> dest \<Longrightarrow> prefix (get_prefix d) key \<Longrightarrow>
      m' SERVERCURRENTEVENT_DATA key = m SERVERCURRENTEVENT_DATA key"
    and new: "new = [] \<and> \<not> in_flight x \<and> (x = None \<longrightarrow> carries I m' dest []) \<or>
      (\<exists>events. new = [(dest, events)] \<and> in_flight x \<and> carries I m' dest events)"
  shows "worker_ok I mine m' (st(dest := x)) (fut' @ new)"
proof (rule worker_okI)
  have apart: "d \<noteq> dest" if "(d, events) \<in> set fut'" for d events
    using over(3) [of d] that by force
  show "distinct (map fst (fut' @ new))" using over(1) over(3) [of dest] new by (force simp: image_iff)
  show "mine d \<and> wf_dest I d \<and> carries I m' d events" if d: "(d, events) \<in> set (fut' @ new)" for d events
  proof (cases "(d, events) \<in> set fut'")
    case True
    then have "(d, events) \<in> set fut" "d \<noteq> dest" using over(2) apart by auto
    then show ?thesis
      using worker_okD(2-4) [OF ok, of d events] carries_cong [of d m' m I events] others [of d] by blast
  next
    case False
    then show ?thesis using d new dest by auto
  qed
  show "in_flight ((st(dest := x)) d) \<longleftrightarrow> d \<in> fst ` set (fut' @ new)" for d
    using worker_okD(5) [OF ok, of d] over(3) [of d] new by auto
  show "carries I m' d []" if d: "mine d" "wf_dest I d" "(st(dest := x)) d = None" for d
  proof (cases "d = dest")
    case True
    then show ?thesis using new d by auto
  next
    case False
    then show ?thesis
      using d worker_okD(6) [OF ok, of d] carries_cong [of d m' m I "[]"] others [of d] by auto
  qed
qed

lemma take_future_split:
  assumes "distinct (map fst fut)" and "j < length fut" and "fut ! j = (dest, events)"
  defines "fut' \<equiv> take j fut @ drop (Suc j) fut"
  shows "distinct (map fst fut')" "set fut' \<subseteq> set fut" "d \<in> fst ` set fut' \<longleftrightarrow> d \<in> fst ` set fut \<and> d \<noteq> dest"
proof -
  have fut: "fut = take j fut @ (dest, events) # drop (Suc j) fut"
    using id_take_nth_drop [OF assms(2)] assms(3) by simp
  have "distinct (map fst (take j fut @ (dest, events) # drop (Suc j) fut))" using assms(1) fut by metis
  moreover have "set fut = set (take j fut @ (dest, events) # drop (Suc j) fut)" using fut by metis
  ultimately show "distinct (map fst fut')" "set fut' \<subseteq> set fut" "d \<in> fst ` set fut' \<longleftrightarrow> d \<in> fst ` set fut \<and> d \<noteq> dest"
    unfolding fut'_def by auto
qed

subsection \<open>The handlers keep it\<close>

definition stored :: "tables \<Rightarrow> bytes \<Rightarrow> bytes \<Rightarrow> bool" where
  "stored m key val \<longleftrightarrow> m SERVERCURRENTEVENT_DATA key = Some val \<or> m SERVERNAMEEVENT_DATA key = Some val"

definition rows_ok :: "id_checks \<Rightarrow> u64 \<Rightarrow> tables \<Rightarrow> bool" where
  "rows_ok I most m \<longleftrightarrow> (\<forall>key val. stored m key val \<longrightarrow> (\<exists>dest event. row_for I most dest event key val))"

definition msg_ok :: "id_checks \<Rightarrow> u64 \<Rightarrow> msg \<Rightarrow> bool" where
  "msg_ok I most m \<longleftrightarrow>
     wf_dest I (msg_dest m) \<and>
     (msg_queue_id m = [] \<and> msg_event m = Flush \<or>
      row_for I most (msg_dest m) (msg_event m) (msg_queue_id m) (event_value (msg_event m)))"

lemma rows_okD: "rows_ok I most m \<Longrightarrow> stored m key val \<Longrightarrow> \<exists>dest event. row_for I most dest event key val"
  by (auto simp: rows_ok_def)

lemma rows_ok_parse:
  assumes "rows_ok I most m" and "stored m key val" and "wf_dest I dest" and "prefix (get_prefix dest) key"
  obtains event where "row_for I most dest event key val" "parse_servercurrentevent I key val = Inr (dest, event)"
  using rows_okD [OF assms(1,2)] row_for_prefix [OF _ assms(3)] parse_row_for assms(4) by metis

lemma parse_rows_mem:
  assumes "parse_rows I rows = Inr items"
  shows "(key, val) \<in> set rows \<Longrightarrow> parse_servercurrentevent I key val = Inr (dest, event) \<Longrightarrow> (key, event) \<in> set items"
    and "(key, event) \<in> set items \<Longrightarrow> \<exists>val dest. (key, val) \<in> set rows \<and> parse_servercurrentevent I key val = Inr (dest, event)"
  using assms
  by (induction rows arbitrary: items) (auto simp: res_bind_Inr_iff parse_row_def split: sum.splits prod.splits, blast+)

context rocks_io
begin

text \<open>The items of rows of one destination, where every row is well formed.\<close>

lemma items_under:
  assumes "parse_rows I rows = Inr items" and "set rows \<subseteq> set (under (get_prefix dest) (tab db c))"
    and "rows_ok I most (tab db)" and "c = SERVERCURRENTEVENT_DATA \<or> c = SERVERNAMEEVENT_DATA" and "wf_dest I dest"
    and "(key, event) \<in> set items"
  shows "prefix (get_prefix dest) key" "tab db c key = Some (event_value event)"
    "parse_servercurrentevent I key (event_value event) = Inr (dest, event)"
proof -
  obtain val d where row: "(key, val) \<in> set rows" "parse_servercurrentevent I key val = Inr (d, event)"
    using parse_rows_mem(2) [OF assms(1,6)] by blast
  have mem: "prefix (get_prefix dest) key" "tab db c key = Some val"
    using row(1) assms(2) in_under by blast+
  then have "stored (tab db) key val" using assms(4) by (auto simp: stored_def)
  then obtain e where "row_for I most dest e key val" "parse_servercurrentevent I key val = Inr (dest, e)"
    using rows_ok_parse [OF assms(3) _ assms(5) mem(1)] by blast
  then have "e = event" "d = dest" "val = event_value event" using row(2) by (auto simp: row_for_def)
  then show "prefix (get_prefix dest) key" "tab db c key = Some (event_value event)"
    "parse_servercurrentevent I key (event_value event) = Inr (dest, event)"
    using mem row(2) by auto
qed

lemma fresh_carries:
  assumes "carries I m dest []" and "msg_ok I most x" and "dest = msg_dest x"
    and "m' SERVERCURRENTEVENT_DATA = activate [(msg_queue_id x, msg_event x)] m SERVERCURRENTEVENT_DATA"
  shows "carries I m' dest (msg_event x # events)"
  unfolding carries_def
proof (intro allI impI)
  fix key val assume row: "m' SERVERCURRENTEVENT_DATA key = Some val" "prefix (get_prefix dest) key"
  have "m SERVERCURRENTEVENT_DATA key = None" using assms(1) row(2) by (simp add: carries_Nil)
  then have "msg_queue_id x \<noteq> []" "key = msg_queue_id x" "val = event_value (msg_event x)"
    using row(1) by (auto simp: assms(4) split: if_splits)
  then show "\<exists>event \<in> set (msg_event x # events). parse_servercurrentevent I key val = Inr (dest, event)"
    using assms(2,3) parse_row_for by (auto simp: msg_ok_def)
qed

lemma active_carries:
  assumes "rows_ok I most (tab db)" and "wf_dest I dest"
    and "parse_rows I (under (get_prefix dest) (tab db SERVERCURRENTEVENT_DATA)) = Inr items"
  shows "carries I (tab db) dest (map snd items)"
  unfolding carries_def
proof (intro allI impI)
  fix key val assume row: "tab db SERVERCURRENTEVENT_DATA key = Some val" "prefix (get_prefix dest) key"
  then obtain event where event: "parse_servercurrentevent I key val = Inr (dest, event)"
    using rows_ok_parse [OF assms(1) _ assms(2), of key val] by (auto simp: stored_def)
  then have "(key, event) \<in> set items" using parse_rows_mem(1) [OF assms(3)] row in_under by blast
  with event show "\<exists>event \<in> set (map snd items). parse_servercurrentevent I key val = Inr (dest, event)" by force
qed

lemma handle_request_all:
  assumes run: "handle_request dbg I R E N now x s = (s', Inr ())"
    and ok: "worker_ok I mine (stab s) (statuses s) (futures s)" and rows: "rows_ok I most (stab s)"
    and msg: "msg_ok I most x" and mine: "mine (msg_dest x)"
  shows "worker_ok I mine (stab s') (statuses s') (futures s') \<and>
    (\<forall>d key. wf_dest I d \<longrightarrow> d \<noteq> msg_dest x \<longrightarrow> prefix (get_prefix d) key \<longrightarrow>
      stab s' SERVERCURRENTEVENT_DATA key = stab s SERVERCURRENTEVENT_DATA key) \<and>
    (\<forall>key val. stored (stab s') key val \<longrightarrow> stored (stab s) key val \<or>
      msg_queue_id x \<noteq> [] \<and> key = msg_queue_id x \<and> val = event_value (msg_event x)) \<and>
    (\<forall>key val. stored (stab s) key val \<longrightarrow> (key = msg_queue_id x \<longrightarrow> val = event_value (msg_event x)) \<longrightarrow>
      stored (stab s') key val) \<and>
    srv_count (sd_srv s') = srv_count (sd_srv s)"
proof -
  let ?d = "msg_dest x" and ?A = SERVERCURRENTEVENT_DATA
  have wf: "wf_dest I ?d" using msg by (simp add: msg_ok_def)
  have same: "set (futures s) \<subseteq> set (futures s)" by simp
  note change = worker_ok_change [OF ok mine wf worker_okD(1) [OF ok] same]
  have free: "d \<in> fst ` set (futures s) \<longleftrightarrow> d \<in> fst ` set (futures s) \<and> d \<noteq> ?d" if "\<not> in_flight (statuses s ?d)" for d
    using worker_okD(5) [OF ok, of ?d] that by blast
  from run show ?thesis
  proof (cases rule: handle_request_cases)
    case skip
    then show ?thesis using ok by (auto simp: same_worker_def)
  next
    case (fresh edus)
    let ?m = "activate [(msg_queue_id x, msg_event x)] (stab s)"
    have A: "stab s' ?A = ?m ?A" "stab s' SERVERNAMEEVENT_DATA = ?m SERVERNAMEEVENT_DATA" using fresh(2) by auto
    have others: "stab s' ?A key = stab s ?A key" if "wf_dest I d" "d \<noteq> ?d" "prefix (get_prefix d) key" for d key
      using msg that row_for_prefix [of I most ?d "msg_event x" "msg_queue_id x" _ d] by (auto simp: A msg_ok_def)
    have carried: "carries I (stab s') ?d (msg_event x # map Edu edus)"
      by (rule fresh_carries [where m = "stab s", OF worker_okD(6) [OF ok mine wf fresh(1)] msg refl]) (rule A(1))
    have "worker_ok I mine (stab s') ((statuses s)(?d := Some Running)) (futures s @ [(?d, msg_event x # map Edu edus)])"
      by (rule change) (use free others carried fresh(1) in auto)
    then show ?thesis using fresh(3-) others by (auto simp: stored_def A)
  next
    case (retry tries at items)
    have "carries I (stab s') ?d (map snd items)"
      unfolding retry(3) by (rule active_carries [OF rows wf retry(2)])
    then have "worker_ok I mine (stab s') (statuses s') (futures s')"
      unfolding retry(4,5) by (intro change) (use free retry(1,3) in auto)
    then show ?thesis using retry(3,6) by simp
  qed
qed

lemmas handle_request_ok =
  handle_request_all [THEN conjunct1]
  handle_request_all [THEN conjunct2, THEN conjunct1, rule_format]
  handle_request_all [THEN conjunct2, THEN conjunct2, THEN conjunct1, rule_format]
  handle_request_all [THEN conjunct2, THEN conjunct2, THEN conjunct2, THEN conjunct1, rule_format]
  handle_request_all [THEN conjunct2, THEN conjunct2, THEN conjunct2, THEN conjunct2]

end

text \<open>The rows after an answer: the active rows of the destination are gone, the rows of \<open>items\<close> have become active.\<close>

lemma activate_items:
  assumes "\<And>event. (key, event) \<in> set items \<Longrightarrow> q key = Some (event_value event)"
  shows "activate items m SERVERCURRENTEVENT_DATA key =
    (if key \<noteq> [] \<and> key \<in> fst ` set items then q key else m SERVERCURRENTEVENT_DATA key)"
proof (cases "key \<in> fst ` set items")
  case True
  then obtain event where at: "q key = Some (event_value event)" using assms by force
  then have "event_value event' = event_value event" if "(key, event') \<in> set items" for event' using assms [OF that] by simp
  then show ?thesis using activate_active [of key items "event_value event" m] at by simp
next
  case False
  then show ?thesis using activate_active [of key items undefined m] by force
qed

lemma next_rows:
  assumes rows: "rows_ok I most m" and wf: "wf_dest I dest" and carried: "carries I m dest events"
    and all: "\<forall>(key, event) \<in> set items. prefix (get_prefix dest) key \<and> m SERVERNAMEEVENT_DATA key = Some (event_value event) \<and>
      parse_servercurrentevent I key (event_value event) = Inr (dest, event)"
    and m': "m' = activate items (m(SERVERCURRENTEVENT_DATA := m SERVERCURRENTEVENT_DATA |` {k. \<not> prefix (get_prefix dest) k}))"
  shows "carries I m' dest (map snd items)"
    "\<And>d key. wf_dest I d \<Longrightarrow> d \<noteq> dest \<Longrightarrow> prefix (get_prefix d) key \<Longrightarrow> m' SERVERCURRENTEVENT_DATA key = m SERVERCURRENTEVENT_DATA key"
    "\<And>key val. stored m' key val \<Longrightarrow> stored m key val"
    "\<And>key val. stored m key val \<Longrightarrow> stored m' key val \<or> (\<exists>event \<in> set events. parse_servercurrentevent I key val = Inr (dest, event))"
proof -
  let ?A = SERVERCURRENTEVENT_DATA and ?Q = SERVERNAMEEVENT_DATA
  have items: "prefix (get_prefix dest) key" "m ?Q key = Some (event_value event)"
      "parse_servercurrentevent I key (event_value event) = Inr (dest, event)" if "(key, event) \<in> set items" for key event
    using all that by auto
  have pre: "prefix (get_prefix dest) key" "key \<noteq> []" if "key \<in> fst ` set items" for key
  proof -
    show "prefix (get_prefix dest) key" using that items(1) by force
    then show "key \<noteq> []" by (cases dest) auto
  qed
  have A: "m' ?A key = (if key \<in> fst ` set items then m ?Q key else if prefix (get_prefix dest) key then None else m ?A key)" for key
    using activate_items [of key items "m ?Q"] items(2) pre by (auto simp: m')
  have Q: "m' ?Q key = (if key \<in> fst ` set items then None else m ?Q key)" for key
    using pre by (auto simp: m' activate_queue)
  show "carries I m' dest (map snd items)"
    unfolding carries_def
  proof (intro allI impI)
    fix key val assume row: "m' ?A key = Some val" "prefix (get_prefix dest) key"
    then have hit: "key \<in> fst ` set items" by (auto simp: A split: if_splits)
    then obtain event where item: "(key, event) \<in> set items" by force
    then have "val = event_value event" using row(1) items(2) [OF item] hit by (simp add: A)
    then show "\<exists>event \<in> set (map snd items). parse_servercurrentevent I key val = Inr (dest, event)"
      using item items(3) [OF item] by force
  qed
  show "m' ?A key = m ?A key" if "wf_dest I d" "d \<noteq> dest" "prefix (get_prefix d) key" for d key
  proof -
    have "\<not> prefix (get_prefix dest) key" if "stored m key val" for val
      using rows_okD [OF rows that] row_for_prefix \<open>wf_dest I d\<close> \<open>d \<noteq> dest\<close> \<open>prefix (get_prefix d) key\<close> wf by metis
    moreover have "\<exists>val. stored m key val" if "key \<in> fst ` set items" using that items(2) by (auto simp: stored_def)
    ultimately show ?thesis using pre(1) by (cases "m ?A key") (auto simp: A stored_def)
  qed
  show "stored m key val" if "stored m' key val" for key val
    using that by (auto simp: stored_def A Q split: if_splits)
  show "stored m' key val \<or> (\<exists>event \<in> set events. parse_servercurrentevent I key val = Inr (dest, event))" if "stored m key val" for key val
    using that carried pre(1) [of key]
    by (cases "key \<in> fst ` set items"; cases "prefix (get_prefix dest) key") (auto simp: stored_def A Q carries_def)
qed

lemma take_future_fields [simp]:
  "sender_db (take_future j s) = sender_db s" "statuses (take_future j s) = statuses s"
  "sd_srv (take_future j s) = sd_srv s" "futures (take_future j s) = take j (futures s) @ drop (Suc j) (futures s)"
  by (simp_all add: take_future_def sender_db_def)

lemma handle_response_err_ok:
  assumes "in_flight (statuses s dest)"
  shows "\<exists>tries. handle_response_err now dest s = (set_status dest (Some (Failed tries now)) s, Inr ())"
  using assms by (cases "statuses s dest" rule: in_flight.cases) (auto simp: handle_response_err_def)

context rocks_io
begin

lemma handle_response_ok_items:
  assumes "handle_response_ok dbg I R dest s = (s', Inr ())"
  obtains items where
    "parse_rows I (take DEQUEUE_LIMIT (under (get_prefix dest) (stab s SERVERNAMEEVENT_DATA))) = Inr items"
    "stab s' = activate items ((stab s)(SERVERCURRENTEVENT_DATA :=
       stab s SERVERCURRENTEVENT_DATA |` {k. \<not> prefix (get_prefix dest) k}))"
    "statuses s' = (statuses s)(dest := if items = [] then None else Some Running)"
    "futures s' = futures s @ (if items = [] then [] else [(dest, map snd items)])" "srv_count (sd_srv s') = srv_count (sd_srv s)"
  using assms by (cases rule: handle_response_ok_cases) (auto intro: that)

lemma handle_response_all:
  assumes run: "handle_response dbg I R now dest answered (take_future j s) = (s', Inr ())"
    and future: "j < length (futures s)" "futures s ! j = (dest, events)"
    and ok: "worker_ok I mine (stab s) (statuses s) (futures s)" and rows: "rows_ok I most (stab s)"
  shows "worker_ok I mine (stab s') (statuses s') (futures s') \<and>
    (\<forall>d key. wf_dest I d \<longrightarrow> d \<noteq> dest \<longrightarrow> prefix (get_prefix d) key \<longrightarrow>
      stab s' SERVERCURRENTEVENT_DATA key = stab s SERVERCURRENTEVENT_DATA key) \<and>
    (\<forall>key val. stored (stab s') key val \<longrightarrow> stored (stab s) key val) \<and>
    (\<forall>key val. stored (stab s) key val \<longrightarrow> stored (stab s') key val \<or>
      answered \<and> (\<exists>event \<in> set events. parse_servercurrentevent I key val = Inr (dest, event))) \<and>
    srv_count (sd_srv s') = srv_count (sd_srv s)"
proof -
  have mem: "(dest, events) \<in> set (futures s)" using future by (metis nth_mem)
  note dest = worker_okD(2,3) [OF ok mem] and carried = worker_okD(4) [OF ok mem]
  note split = take_future_split [OF worker_okD(1) [OF ok] future]
  note change = worker_ok_change [OF ok dest split(1,2)]
  have flight: "in_flight (statuses s dest)" using worker_okD(5) [OF ok, of dest] mem by force
  show ?thesis
  proof (cases answered)
    case False
    obtain tries where "s' = set_status dest (Some (Failed tries now)) (take_future j s)"
      using run False handle_response_err_ok [of "take_future j s" dest now] flight by (auto simp: handle_response_def)
    then show ?thesis
      using change [of "stab s" "[]" "Some (Failed tries now)"] split(3) by auto
  next
    case True
    then have "handle_response_ok dbg I R dest (take_future j s) = (s', Inr ())" using run by (simp add: handle_response_def)
    then obtain items where items: "parse_rows I (take DEQUEUE_LIMIT (under (get_prefix dest) (stab s SERVERNAMEEVENT_DATA))) = Inr items"
        "stab s' = activate items ((stab s)(SERVERCURRENTEVENT_DATA := stab s SERVERCURRENTEVENT_DATA |` {k. \<not> prefix (get_prefix dest) k}))"
        "statuses s' = (statuses s)(dest := if items = [] then None else Some Running)"
        "futures s' = (take j (futures s) @ drop (Suc j) (futures s)) @ (if items = [] then [] else [(dest, map snd items)])"
        "srv_count (sd_srv s') = srv_count (sd_srv s)"
      by (cases rule: handle_response_ok_items) auto
    have "\<forall>(key, event) \<in> set items. prefix (get_prefix dest) key \<and> stab s SERVERNAMEEVENT_DATA key = Some (event_value event) \<and>
        parse_servercurrentevent I key (event_value event) = Inr (dest, event)"
      using items_under [OF items(1) set_take_subset rows disjI2 [OF refl] dest(2)] by blast
    note moved = next_rows [OF rows dest(2) carried this items(2)]
    have "worker_ok I mine (stab s') (statuses s') (futures s')"
      unfolding items(3,4) by (intro change) (use split(3) moved(1,2) in auto)
    then show ?thesis using moved(2-4) items(5) True by blast
  qed
qed

lemmas handle_response_keeps =
  handle_response_all [THEN conjunct1]
  handle_response_all [THEN conjunct2, THEN conjunct1, rule_format]
  handle_response_all [THEN conjunct2, THEN conjunct2, THEN conjunct1, rule_format]
  handle_response_all [THEN conjunct2, THEN conjunct2, THEN conjunct2, THEN conjunct1, rule_format]
  handle_response_all [THEN conjunct2, THEN conjunct2, THEN conjunct2, THEN conjunct2]

end

end
