(* ===== verification/Sending_Props.thy ===== *)
theory Sending_Props
  imports Sender_Props
begin

section \<open>The sending service\<close>

text \<open>
  The invariant of the whole service, kept by every step of \<open>sending_step\<close>: the workers are in order for
  their destinations, messages are with the worker of their destination, and a key stands for one value
  in the tables and in the messages on their way. It holds after the start of the workers on whatever
  database an earlier run left.
\<close>

subsection \<open>The invariant\<close>

definition bindings :: "tables \<Rightarrow> msg list list \<Rightarrow> (bytes \<times> bytes) set" where
  "bindings m chans =
     {(key, val). stored m key val} \<union>
     {(msg_queue_id x, event_value (msg_event x)) | x. x \<in> set (concat chans) \<and> msg_queue_id x \<noteq> []}"

definition service_ok ::
  "id_checks \<Rightarrow> (destination \<Rightarrow> u64) \<Rightarrow> tables \<Rightarrow> u64 \<Rightarrow> msg list list \<Rightarrow>
     ((destination \<rightharpoonup> transaction_status) \<times> (destination \<times> sending_event list) list) list \<Rightarrow> bool"
where
  "service_ok I hash m most chans ws \<longleftrightarrow>
     ws \<noteq> [] \<and> length chans = length ws \<and> single_valued (bindings m chans) \<and> rows_ok I most m \<and>
     (\<forall>i < length ws. \<forall>x \<in> set (chans ! i). msg_ok I most x \<and> shard_id hash (msg_dest x) (length ws) = i) \<and>
     (\<forall>i < length ws. worker_ok I (\<lambda>d. shard_id hash d (length ws) = i) m (fst (ws ! i)) (snd (ws ! i)))"

lemma service_okD:
  assumes "service_ok I hash m most chans ws"
  shows "ws \<noteq> []" "length chans = length ws" "single_valued (bindings m chans)" "rows_ok I most m"
    "i < length ws \<Longrightarrow> x \<in> set (chans ! i) \<Longrightarrow> msg_ok I most x"
    "i < length ws \<Longrightarrow> x \<in> set (chans ! i) \<Longrightarrow> shard_id hash (msg_dest x) (length ws) = i"
    "i < length ws \<Longrightarrow> worker_ok I (\<lambda>d. shard_id hash d (length ws) = i) m (fst (ws ! i)) (snd (ws ! i))"
  using assms by (auto simp: service_ok_def)

lemma msg_ok_mono: "msg_ok I most x \<Longrightarrow> most \<le> most' \<Longrightarrow> msg_ok I most' x"
  using row_for_mono by (auto simp: msg_ok_def)

lemma rows_ok_mono: "rows_ok I most m \<Longrightarrow> most \<le> most' \<Longrightarrow> rows_ok I most' m"
  using row_for_mono by (fastforce simp: rows_ok_def)

lemma bindings_row:
  assumes "service_ok I hash m most chans ws" and "(key, val) \<in> bindings m chans"
  shows "\<exists>dest event. row_for I most dest event key val"
  using assms(2) service_okD(2,5) [OF assms(1)] rows_okD [OF service_okD(4) [OF assms(1)]]
  by (auto simp: bindings_def msg_ok_def in_set_conv_nth) metis

lemma bindings_stored: "stored m key val \<Longrightarrow> (key, val) \<in> bindings m chans"
  by (simp add: bindings_def)

lemma bindings_msg:
  "x \<in> set (concat chans) \<Longrightarrow> msg_queue_id x \<noteq> [] \<Longrightarrow> (msg_queue_id x, event_value (msg_event x)) \<in> bindings m chans"
  unfolding bindings_def by blast

lemma bindings_subI:
  assumes "\<And>key val. stored m' key val \<Longrightarrow> (key, val) \<in> bindings m chans" and "set (concat chans') \<subseteq> set (concat chans)"
  shows "bindings m' chans' \<subseteq> bindings m chans"
proof
  fix b assume "b \<in> bindings m' chans'"
  then consider key val where "b = (key, val)" "stored m' key val"
    | x where "b = (msg_queue_id x, event_value (msg_event x))" "x \<in> set (concat chans')" "msg_queue_id x \<noteq> []"
    unfolding bindings_def by blast
  then show "b \<in> bindings m chans"
    using assms(1) bindings_msg [of _ chans m] assms(2) by cases blast+
qed

lemma in_concat_nth: "x \<in> set (concat xss) \<longleftrightarrow> (\<exists>j < length xss. x \<in> set (xss ! j))"
  by (auto simp: in_set_conv_nth [of _ xss]) (metis nth_mem)

lemma shard_id_bound: "0 < n \<Longrightarrow> shard_id hash dest n < n"
  by (simp add: shard_id_def)

text \<open>One worker has moved, on the rows of one of its destinations.\<close>

lemma service_ok_worker:
  assumes ok: "service_ok I hash m most chans ws" and i: "i < length ws" "shard_id hash dest (length ws) = i"
    and worker: "worker_ok I (\<lambda>d. shard_id hash d (length ws) = i) m' st fut"
    and others: "\<And>d key. wf_dest I d \<Longrightarrow> d \<noteq> dest \<Longrightarrow> prefix (get_prefix d) key \<Longrightarrow>
      m' SERVERCURRENTEVENT_DATA key = m SERVERCURRENTEVENT_DATA key"
    and sub: "bindings m' chans' \<subseteq> bindings m chans" and len: "length chans' = length chans"
    and msgs: "\<And>j. j < length ws \<Longrightarrow> set (chans' ! j) \<subseteq> set (chans ! j)"
  shows "service_ok I hash m' most chans' (ws[i := (st, fut)])"
  unfolding service_ok_def length_list_update
proof (intro conjI allI impI)
  show "ws[i := (st, fut)] \<noteq> []" "length chans' = length ws" using service_okD(1,2) [OF ok] len by auto
  show "single_valued (bindings m' chans')" by (rule single_valued_subset [OF sub service_okD(3) [OF ok]])
  show "rows_ok I most m'"
    unfolding rows_ok_def
  proof (intro allI impI)
    fix key val assume "stored m' key val"
    then have "(key, val) \<in> bindings m chans" using sub by (auto simp: bindings_def)
    then show "\<exists>dest event. row_for I most dest event key val" by (rule bindings_row [OF ok])
  qed
  fix j assume j: "j < length ws"
  show "\<forall>x \<in> set (chans' ! j). msg_ok I most x \<and> shard_id hash (msg_dest x) (length ws) = j"
    using service_okD(5,6) [OF ok j] msgs [OF j] by auto
  show "worker_ok I (\<lambda>d. shard_id hash d (length ws) = j) m' (fst (ws[i := (st, fut)] ! j)) (snd (ws[i := (st, fut)] ! j))"
  proof (cases "j = i")
    case True
    then show ?thesis using worker i by simp
  next
    case False
    have "worker_ok I (\<lambda>d. shard_id hash d (length ws) = j) m' (fst (ws ! j)) (snd (ws ! j))"
      by (rule worker_ok_frame [OF service_okD(7) [OF ok j]]) (use others i(2) False in blast)
    then show ?thesis using False by simp
  qed
qed

subsection \<open>Receiving and answering\<close>

lemma on_worker_eq:
  assumes "on_worker i f s = (s', r)"
  obtains w where "f \<lparr>sd_srv = sn_srv s, statuses = fst (sn_workers s ! i), futures = snd (sn_workers s ! i)\<rparr> = (w, r)"
    "sn_srv s' = sd_srv w" "sn_workers s' = (sn_workers s)[i := (statuses w, futures w)]"
    "sn_channels s' = sn_channels s" "sn_closed s' = sn_closed s"
  using assms by (auto simp: on_worker_def split: prod.splits)

lemma sender_db_make [simp]: "sender_db \<lparr>sd_srv = srv, statuses = st, futures = fs\<rparr> = srv_db srv"
  by (simp add: sender_db_def)

context rocks_io
begin

abbreviation ntab :: "'d sending \<Rightarrow> tables" where
  "ntab s \<equiv> tab (sending_db s)"

abbreviation in_order :: "id_checks \<Rightarrow> (destination \<Rightarrow> u64) \<Rightarrow> 'd sending \<Rightarrow> bool" where
  "in_order I hash s \<equiv> service_ok I hash (ntab s) (srv_count (sn_srv s)) (sn_channels s) (sn_workers s)"

lemma receive_ok:
  assumes ok: "in_order I hash s" and i: "i < length (sn_workers s)" and msg: "sn_channels s ! i = x # ms"
    and run: "on_worker i (handle_request dbg I R E N now x) (s\<lparr>sn_channels := (sn_channels s)[i := ms]\<rparr>) = (s', Inr ())"
  shows "in_order I hash s'" "stored (ntab s) key val \<Longrightarrow> stored (ntab s') key val"
proof -
  from run obtain w where w: "handle_request dbg I R E N now x
      \<lparr>sd_srv = sn_srv s, statuses = fst (sn_workers s ! i), futures = snd (sn_workers s ! i)\<rparr> = (w, Inr ())"
      "sn_srv s' = sd_srv w" "sn_workers s' = (sn_workers s)[i := (statuses w, futures w)]"
      "sn_channels s' = (sn_channels s)[i := ms]"
    by (cases rule: on_worker_eq) auto
  have x: "x \<in> set (sn_channels s ! i)" by (simp add: msg)
  have len: "i < length (sn_channels s)" using service_okD(2) [OF ok] i by simp
  note keeps = handle_request_ok [OF w(1), where mine = "\<lambda>d. shard_id hash d (length (sn_workers s)) = i"
      and most = "srv_count (sn_srv s)", simplified, folded sending_db_def, OF service_okD(7) [OF ok i]
      service_okD(4) [OF ok] service_okD(5) [OF ok i x] service_okD(6) [OF ok i x]]
  have db: "sending_db s' = sender_db w" using w(2) by (simp add: sending_db_def sender_db_def)
  have xb: "(msg_queue_id x, event_value (msg_event x)) \<in> bindings (ntab s) (sn_channels s)" if "msg_queue_id x \<noteq> []"
    using bindings_msg [OF _ that] x nth_mem [OF len] by fastforce
  have sub: "set (sn_channels s' ! j) \<subseteq> set (sn_channels s ! j)" if "j < length (sn_channels s)" for j
    using that msg by (cases "j = i") (auto simp: w(4))
  then have "set (concat (sn_channels s')) \<subseteq> set (concat (sn_channels s))"
    by (fastforce simp: in_set_conv_nth w(4))
  then have "bindings (ntab s') (sn_channels s') \<subseteq> bindings (ntab s) (sn_channels s)"
    unfolding db using keeps(3) xb bindings_stored by (intro bindings_subI) blast+
  then show "in_order I hash s'"
    using service_ok_worker [OF ok i service_okD(6) [OF ok i x] keeps(1,2), where chans' = "sn_channels s'"] sub service_okD(2) [OF ok]
      keeps(5) by (simp add: w(2,3,4) db)
  show "stored (ntab s') key val" if kept: "stored (ntab s) key val"
  proof -
    have "val = event_value (msg_event x)" if "key = msg_queue_id x" "msg_queue_id x \<noteq> []"
      using single_valuedD [OF service_okD(3) [OF ok] bindings_stored [OF kept] xb [folded that(1)]] that by simp
    moreover have "key \<noteq> []"
    proof -
      obtain dest event where "row_for I (srv_count (sn_srv s)) dest event key val"
        using rows_okD [OF service_okD(4) [OF ok] kept] by blast
      then show ?thesis by (cases dest) (auto simp: row_for_def)
    qed
    ultimately show ?thesis using keeps(4) [OF kept] by (auto simp: db)
  qed
qed

lemma answer_ok:
  assumes ok: "in_order I hash s" and i: "i < length (sn_workers s)"
    and future: "j < length (snd (sn_workers s ! i))" "snd (sn_workers s ! i) ! j = (dest, events)"
    and run: "on_worker i (\<lambda>w. handle_response dbg I R now dest answered (take_future j w)) s = (s', Inr ())"
  shows "in_order I hash s'"
    "stored (ntab s) key val \<Longrightarrow> stored (ntab s') key val \<or>
       answered \<and> (\<exists>event \<in> set events. parse_servercurrentevent I key val = Inr (dest, event))"
proof -
  from run obtain w where w: "handle_response dbg I R now dest answered (take_future j
      \<lparr>sd_srv = sn_srv s, statuses = fst (sn_workers s ! i), futures = snd (sn_workers s ! i)\<rparr>) = (w, Inr ())"
      "sn_srv s' = sd_srv w" "sn_workers s' = (sn_workers s)[i := (statuses w, futures w)]"
      "sn_channels s' = sn_channels s"
    by (cases rule: on_worker_eq) auto
  note keeps = handle_response_keeps [OF w(1), simplified, folded sending_db_def, OF future service_okD(7) [OF ok i]
      service_okD(4) [OF ok]]
  have db: "sending_db s' = sender_db w" using w(2) by (simp add: sending_db_def sender_db_def)
  have shard: "shard_id hash dest (length (sn_workers s)) = i"
    using worker_okD(2) [OF service_okD(7) [OF ok i], of dest events] future by (metis nth_mem)
  have "bindings (ntab s') (sn_channels s') \<subseteq> bindings (ntab s) (sn_channels s)"
    unfolding db w(4) using keeps(3) bindings_stored by (intro bindings_subI) blast+
  then show "in_order I hash s'"
    using service_ok_worker [OF ok i shard keeps(1,2), where chans' = "sn_channels s'"] keeps(5) by (simp add: w(2,3,4) db)
  show "stored (ntab s) key val \<Longrightarrow> stored (ntab s') key val \<or>
       answered \<and> (\<exists>event \<in> set events. parse_servercurrentevent I key val = Inr (dest, event))"
    using keeps(4) by (simp add: db)
qed

end

subsection \<open>Queueing\<close>

lemma dispatch_msg_ok:
  assumes "dispatch_msg dbg hash x s = (s', Inr ())"
  defines "i \<equiv> shard_id hash (msg_dest x) (length (sn_channels s))"
  shows "i < length (sn_channels s)" "s' = s\<lparr>sn_channels := (sn_channels s)[i := sn_channels s ! i @ [x]]\<rparr>"
  using assms by (auto simp: dispatch_msg_def Let_def split: if_splits)

definition queued_msg :: "(destination \<times> sending_event) \<times> bytes \<Rightarrow> msg" where
  "queued_msg r =
     \<lparr>msg_dest = fst (fst r), msg_event = snd (fst r), msg_queue_id = snd r, msg_revive = False\<rparr>"

lemma dispatch_each_ok:
  assumes "dispatch_each dbg hash xs s = (s', Inr ())"
  shows "\<exists>chans. s' = s\<lparr>sn_channels := chans\<rparr> \<and> length chans = length (sn_channels s) \<and>
    (\<forall>j < length (sn_channels s). \<forall>x \<in> set (chans ! j). x \<in> set (sn_channels s ! j) \<or>
      (\<exists>r \<in> set xs. x = queued_msg r \<and> shard_id hash (fst (fst r)) (length (sn_channels s)) = j))"
  using assms
proof (induction xs arbitrary: s)
  case Nil
  then show ?case by (auto intro!: exI [of _ "sn_channels s"])
next
  case (Cons r xs)
  obtain d e k where r: "r = ((d, e), k)" by (metis prod.collapse)
  let ?i = "shard_id hash d (length (sn_channels s))"
  obtain s1 where s1: "dispatch_msg dbg hash (queued_msg r) s = (s1, Inr ())" "dispatch_each dbg hash xs s1 = (s', Inr ())"
    using Cons.prems by (auto simp: r queued_msg_def st_bind_Inr_iff)
  have i: "?i < length (sn_channels s)" "s1 = s\<lparr>sn_channels := (sn_channels s)[?i := sn_channels s ! ?i @ [queued_msg r]]\<rparr>"
    using dispatch_msg_ok [OF s1(1)] by (simp_all add: queued_msg_def r)
  obtain chans where chans: "s' = s1\<lparr>sn_channels := chans\<rparr>" "length chans = length (sn_channels s)"
      "\<forall>j < length (sn_channels s). \<forall>x \<in> set (chans ! j). x \<in> set (sn_channels s1 ! j) \<or>
        (\<exists>r \<in> set xs. x = queued_msg r \<and> shard_id hash (fst (fst r)) (length (sn_channels s)) = j)"
    using Cons.IH [OF s1(2)] by (auto simp: i(2))
  have "x \<in> set (sn_channels s ! j) \<or> x = queued_msg r \<and> shard_id hash (fst (fst r)) (length (sn_channels s)) = j"
    if "j < length (sn_channels s)" "x \<in> set (sn_channels s1 ! j)" for j x
    using that by (cases "j = ?i") (auto simp: i(2) r)
  then have "\<forall>j < length (sn_channels s). \<forall>x \<in> set (chans ! j). x \<in> set (sn_channels s ! j) \<or>
      (\<exists>r \<in> set (r # xs). x = queued_msg r \<and> shard_id hash (fst (fst r)) (length (sn_channels s)) = j)"
    using chans(3) by (metis list.set_intros)
  then show ?case
    using chans(1,2) by (intro exI [of _ chans]) (simp add: i(2))
qed

lemma corked_sending:
  "corked R sending_db set_sending_db f s =
     (case f (set_sending_db (engine_cork (sending_db s)) s) of
        (s', r) \<Rightarrow> (set_sending_db (engine_uncork (sending_db s')) s', r))"
  by (simp add: corked_def cork_new_def split: prod.split)

lemma sending_fields [simp]:
  "sending_db (set_sending_db db s) = db" "sn_channels (set_sending_db db s) = sn_channels s"
  "sn_workers (set_sending_db db s) = sn_workers s" "srv_count (sn_srv (set_sending_db db s)) = srv_count (sn_srv s)"
  "sending_db (s\<lparr>sn_channels := c\<rparr>) = sending_db s" "sending_db (s\<lparr>sn_workers := ws\<rparr>) = sending_db s"
  "sending_db (s\<lparr>sn_srv := srv\<rparr>) = srv_db srv"
  by (simp_all add: sending_db_def set_sending_db_def)

text \<open>New rows and messages, under keys that agree with the old ones.\<close>

lemma bindings_more:
  assumes "\<And>key val. stored m' key val \<Longrightarrow> (key, val) \<in> bindings m chans \<union> new" and "length chans' = length chans"
    and "\<And>j x. j < length chans \<Longrightarrow> x \<in> set (chans' ! j) \<Longrightarrow> x \<in> set (chans ! j) \<or>
      msg_queue_id x = [] \<or> (msg_queue_id x, event_value (msg_event x)) \<in> new"
  shows "bindings m' chans' \<subseteq> bindings m chans \<union> new"
proof
  fix b assume "b \<in> bindings m' chans'"
  then consider key val where "b = (key, val)" "stored m' key val"
    | x where "b = (msg_queue_id x, event_value (msg_event x))" "x \<in> set (concat chans')" "msg_queue_id x \<noteq> []"
    unfolding bindings_def by blast
  then show "b \<in> bindings m chans \<union> new"
  proof cases
    case (2 x)
    then obtain j where j: "j < length chans" "x \<in> set (chans' ! j)"
      using assms(2) by (auto simp: in_concat_nth simp del: set_concat)
    show ?thesis
    proof (cases "x \<in> set (chans ! j)")
      case True
      then have "x \<in> set (concat chans)" using j(1) nth_mem by fastforce
      then show ?thesis using bindings_msg 2 by blast
    qed (use assms(3) [OF j] 2 in blast)
  qed (use assms(1) in blast)
qed

lemma service_ok_more:
  assumes ok: "service_ok I hash m most chans ws" and most: "most \<le> most'"
    and active: "m' SERVERCURRENTEVENT_DATA = m SERVERCURRENTEVENT_DATA"
    and queue: "m' SERVERNAMEEVENT_DATA = m SERVERNAMEEVENT_DATA ++ add"
    and new: "\<And>key val. add key = Some val \<Longrightarrow> (key, val) \<in> new"
    and rows: "\<And>key val. (key, val) \<in> new \<Longrightarrow> \<exists>dest event. row_for I most' dest event key val"
    and agree: "single_valued (bindings m chans \<union> new)"
    and len: "length chans' = length chans"
    and msgs: "\<And>j x. j < length ws \<Longrightarrow> x \<in> set (chans' ! j) \<Longrightarrow> x \<in> set (chans ! j) \<or>
      msg_ok I most' x \<and> shard_id hash (msg_dest x) (length ws) = j \<and>
        (msg_queue_id x = [] \<or> (msg_queue_id x, event_value (msg_event x)) \<in> new)"
  shows "service_ok I hash m' most' chans' ws" "stored m key val \<Longrightarrow> stored m' key val"
proof -
  have stored': "(key, val) \<in> bindings m chans \<union> new" if "stored m' key val" for key val
    using that new bindings_stored [of m key val chans] by (auto simp: stored_def active queue map_add_Some_iff)
  have "bindings m' chans' \<subseteq> bindings m chans \<union> new"
    by (rule bindings_more [OF stored' len]) (use msgs in \<open>auto simp: service_okD(2) [OF ok]\<close>)
  then have single: "single_valued (bindings m' chans')" by (rule single_valued_subset [OF _ agree])
  have "\<exists>dest event. row_for I most' dest event key val" if "stored m' key val" for key val
    using stored' [OF that] bindings_row [OF ok, of key val] rows row_for_mono [OF _ most] by blast
  then have rows': "rows_ok I most' m'" by (simp add: rows_ok_def)
  have msgs': "msg_ok I most' x \<and> shard_id hash (msg_dest x) (length ws) = j" if "j < length ws" "x \<in> set (chans' ! j)" for j x
    using msgs [OF that] service_okD(5,6) [OF ok that(1)] msg_ok_mono [OF _ most] by blast
  have workers: "worker_ok I (\<lambda>d. shard_id hash d (length ws) = j) m' (fst (ws ! j)) (snd (ws ! j))" if "j < length ws" for j
    by (rule worker_ok_frame [OF service_okD(7) [OF ok that]]) (simp add: active)
  show "service_ok I hash m' most' chans' ws"
    unfolding service_ok_def using service_okD(1,2) [OF ok] len single rows' msgs' workers by simp
  show "stored m' key val" if kept: "stored m key val"
  proof -
    have "v = val" if "add key = Some v" for v
      using single_valuedD [OF agree, of key v val] new [OF that] bindings_stored [OF kept, of chans] by blast
    then show ?thesis using kept by (cases "add key") (auto simp: stored_def active queue map_add_def)
  qed
qed

lemma keys_freshD:
  assumes "keys_fresh lo hi requests keys" and "(r, key) \<in> set (zip requests keys)"
  obtains n where "n \<le> hi" "key = get_prefix (snd r) @ event_key n (fst r)" "is_Edu (fst r) \<Longrightarrow> lo < n"
  using assms by (auto simp: keys_fresh_def list_all2_iff)

lemma sorted_wrt_pair: "sorted_wrt P xs \<Longrightarrow> x \<in> set xs \<Longrightarrow> y \<in> set xs \<Longrightarrow> x = y \<or> P x y \<or> P y x"
  by (induction xs) auto

lemma keys_fresh_row:
  assumes "keys_fresh lo hi requests keys" and "list_all (wf_request I) requests" and "(r, key) \<in> set (zip requests keys)"
  shows "row_for I hi (snd r) (fst r) key (event_value (fst r))"
  using keys_freshD [OF assms(1,3)] assms(2) set_zip_leftD [OF assms(3)]
  unfolding row_for_def list_all_iff wf_request_def by metis

lemma keys_fresh_agree:
  assumes "keys_fresh lo hi requests keys" and "list_all (wf_request I) requests"
    and "(r, key) \<in> set (zip requests keys)" and "(r', key) \<in> set (zip requests keys)"
  shows "event_value (fst r) = event_value (fst r')"
proof -
  have "(r, key) = (r', key) \<or> \<not> is_Edu (fst r) \<and> \<not> is_Edu (fst r')"
    using sorted_wrt_pair [OF conjunct2 [OF assms(1) [unfolded keys_fresh_def]] assms(3,4)] by auto
  then show ?thesis by (cases "fst r"; cases "fst r'") auto
qed

text \<open>The rows of the requests \<open>rs\<close> under their \<open>keys\<close>.\<close>

definition added :: "(sending_event \<times> destination) list \<Rightarrow> bytes list \<Rightarrow> bytes \<rightharpoonup> bytes" where
  "added rs keys = map_of (rev (zip keys (map (event_value \<circ> fst) rs)))"

definition new_rows :: "(sending_event \<times> destination) list \<Rightarrow> bytes list \<Rightarrow> (bytes \<times> bytes) set" where
  "new_rows rs keys = {(key, event_value (fst r)) | key r. (r, key) \<in> set (zip rs keys)}"

lemma zip_values: "zip keys (map (event_value \<circ> fst) rs) = map (\<lambda>(r, key). (key, event_value (fst r))) (zip rs keys)"
  by (rule nth_equalityI) (auto simp: min.commute)

lemma added_new: "added rs keys key = Some val \<Longrightarrow> (key, val) \<in> new_rows rs keys"
  unfolding added_def by (drule map_of_SomeD) (auto simp: new_rows_def zip_values)

lemma added_row:
  assumes "keys_fresh lo hi rs keys" and "list_all (wf_request I) rs" and "(r, key) \<in> set (zip rs keys)"
  shows "added rs keys key = Some (event_value (fst r))"
proof -
  have "key \<in> fst ` set (zip keys (map (event_value \<circ> fst) rs))" using assms(3) by (force simp: zip_values)
  then obtain v where v: "added rs keys key = Some v" unfolding added_def by (metis map_of_eq_None_iff not_None_eq set_rev)
  then show ?thesis using added_new [OF v] keys_fresh_agree [OF assms(1,2) _ assms(3)] by (auto simp: new_rows_def)
qed

lemma new_rows_agree:
  assumes ok: "service_ok I hash m lo chans ws" and fresh: "keys_fresh lo hi rs keys" and wf: "list_all (wf_request I) rs"
  shows "single_valued (bindings m chans \<union> new_rows rs keys)"
  unfolding single_valued_def
proof (intro allI impI)
  have mixed: "val = event_value (fst r)" if old: "(key, val) \<in> bindings m chans" and r: "(r, key) \<in> set (zip rs keys)" for key val r
  proof -
    obtain dest event where row: "row_for I lo dest event key val" using bindings_row [OF ok old] by blast
    have rrow: "row_for I hi (snd r) (fst r) key (event_value (fst r))" by (rule keys_fresh_row [OF fresh wf r])
    have "\<not> is_Edu (fst r)"
    proof
      assume edu: "is_Edu (fst r)"
      obtain n where "key = get_prefix (snd r) @ event_key n (fst r)" "lo < n" using keys_freshD [OF fresh r] edu by metis
      moreover from this(1) edu have "key = get_prefix (snd r) @ to_be_bytes n" by (cases "fst r") auto
      ultimately show False using row_for_number [OF row, of "snd r" n] rrow by (auto simp: row_for_def)
    qed
    then show ?thesis using row_for_unique(3) [OF rrow row] by simp
  qed
  fix key val val' assume "(key, val) \<in> bindings m chans \<union> new_rows rs keys" "(key, val') \<in> bindings m chans \<union> new_rows rs keys"
  then show "val = val'"
    using single_valuedD [OF service_okD(3) [OF ok], of key val val'] mixed [of key val] mixed [of key val']
      keys_fresh_agree [OF fresh wf] unfolding new_rows_def by blast
qed

lemma queued_msg_new:
  assumes "keys_fresh lo hi rs keys" and "list_all (wf_request I) rs" and "rs = map (\<lambda>(dest, event). (event, dest)) requests"
    and "r \<in> set (zip requests keys)"
  shows "msg_ok I hi (queued_msg r)" "(msg_queue_id (queued_msg r), event_value (msg_event (queued_msg r))) \<in> new_rows rs keys"
proof -
  obtain d e k where r: "r = ((d, e), k)" by (metis surj_pair)
  then have at: "((e, d), k) \<in> set (zip rs keys)" using assms(3,4) by (force simp: zip_map1)
  then show "msg_ok I hi (queued_msg r)" "(msg_queue_id (queued_msg r), event_value (msg_event (queued_msg r))) \<in> new_rows rs keys"
    using keys_fresh_row [OF assms(1,2) at] by (auto simp: r queued_msg_def msg_ok_def row_for_def new_rows_def)
qed

context rocks_io
begin

lemma queue_each_ok:
  assumes ok: "in_order I hash s" and run: "queue_each dbg R hash requests s = (s', Inr ())"
    and wf: "\<forall>(dest, event) \<in> set requests. wf_dest I dest \<and> wf_event event"
  shows "in_order I hash s'" "stored (ntab s) key val \<Longrightarrow> stored (ntab s') key val"
    "(dest, event) \<in> set requests \<Longrightarrow>
      \<exists>key. stored (ntab s') key (event_value event) \<and> parse_servercurrentevent I key (event_value event) = Inr (dest, event)"
proof -
  define rs where "rs = map (\<lambda>(dest, event). (event, dest)) requests"
  let ?s0 = "set_sending_db (engine_cork (sending_db s)) s"
  obtain srv keys s2 where srv: "queue_requests dbg R rs (sn_srv ?s0) = (srv, Inr keys)"
    and s2: "dispatch_each dbg hash (zip requests keys) (?s0\<lparr>sn_srv := srv\<rparr>) = (s2, Inr ())"
    and s': "s' = set_sending_db (engine_uncork (sending_db s2)) s2"
    using run by (auto simp: queue_each_def corked_sending rs_def [symmetric] split: prod.splits sum.splits)
  have wfr: "list_all (wf_request I) rs" using wf by (auto simp: rs_def list_all_iff wf_request_def)
  note tables = queue_requests_table [OF srv wfr, folded added_def]
  have fresh: "keys_fresh (srv_count (sn_srv s)) (srv_count srv) rs keys" using tables(4) by simp
  obtain chans where chans: "s2 = ?s0\<lparr>sn_srv := srv, sn_channels := chans\<rparr>" "length chans = length (sn_channels s)"
      "\<And>j x. j < length (sn_channels s) \<Longrightarrow> x \<in> set (chans ! j) \<Longrightarrow> x \<in> set (sn_channels s ! j) \<or>
        (\<exists>r \<in> set (zip requests keys). x = queued_msg r \<and> shard_id hash (fst (fst r)) (length (sn_channels s)) = j)"
    using dispatch_each_ok [OF s2] by auto
  have db: "sending_db s' = engine_uncork (srv_db srv)" by (simp add: s' chans(1))
  have new_row: "\<exists>dest event. row_for I (srv_count srv) dest event key val" if "(key, val) \<in> new_rows rs keys" for key val
    using that keys_fresh_row [OF fresh wfr] unfolding new_rows_def by blast
  have msgs: "x \<in> set (sn_channels s ! j) \<or> msg_ok I (srv_count srv) x \<and> shard_id hash (msg_dest x) (length (sn_workers s)) = j \<and>
      (msg_queue_id x = [] \<or> (msg_queue_id x, event_value (msg_event x)) \<in> new_rows rs keys)"
    if j: "j < length (sn_workers s)" "x \<in> set (chans ! j)" for j x
    using chans(3) [of j x] j service_okD(2) [OF ok] queued_msg_new [OF fresh wfr rs_def] by (auto simp: queued_msg_def)
  have pre: "srv_count (sn_srv s) \<le> srv_count srv" "ntab s' SERVERCURRENTEVENT_DATA = ntab s SERVERCURRENTEVENT_DATA"
      "ntab s' SERVERNAMEEVENT_DATA = ntab s SERVERNAMEEVENT_DATA ++ added rs keys"
    using tables(1-3) by (simp_all add: db) (simp_all add: sending_db_def set_sending_db_def)
  note more = service_ok_more [OF ok pre added_new new_row new_rows_agree [OF ok fresh wfr] chans(2) msgs]
  show "in_order I hash s'" using more(1) by (simp add: s' chans(1))
  show "stored (ntab s) key val \<Longrightarrow> stored (ntab s') key val" by (rule more(2))
  show "\<exists>key. stored (ntab s') key (event_value event) \<and> parse_servercurrentevent I key (event_value event) = Inr (dest, event)"
    if mem: "(dest, event) \<in> set requests"
  proof -
    have "length keys = length rs" using fresh by (auto simp: keys_fresh_def list_all2_iff)
    moreover have "(event, dest) \<in> set rs" using mem by (force simp: rs_def)
    ultimately obtain key where at: "((event, dest), key) \<in> set (zip rs keys)" by (metis in_set_impl_in_set_zip1)
    have "stored (ntab s') key (event_value event)"
      using added_row [OF fresh wfr at] pre(3) by (simp add: stored_def map_add_Some_iff)
    then show ?thesis using parse_row_for [OF keys_fresh_row [OF fresh wfr at]] by auto
  qed
qed

end

subsection \<open>Flushing and deleting\<close>

lemma service_ok_less:
  assumes ok: "service_ok I hash m most chans ws" and less: "\<And>c key val. m' c key = Some val \<Longrightarrow> m c key = Some val"
  shows "service_ok I hash m' most chans ws"
proof -
  have stored: "stored m' key val \<Longrightarrow> stored m key val" for key val using less by (auto simp: stored_def)
  have carried: "carries I m dest events \<Longrightarrow> carries I m' dest events" for dest events
    using less by (auto simp: carries_def)
  have "bindings m' chans \<subseteq> bindings m chans" using stored bindings_stored by (intro bindings_subI) blast+
  then have "single_valued (bindings m' chans)" using service_okD(3) [OF ok] by (rule single_valued_subset)
  then show ?thesis
    using ok stored carried unfolding service_ok_def rows_ok_def worker_ok_def by (auto split: prod.splits)
qed

context rocks_io
begin

lemma flush_ok:
  assumes ok: "in_order I hash s" and run: "dispatch_msg dbg hash (flush_msg server revive) s = (s', Inr ())"
    and wf: "wf_dest I (Federation server)"
  shows "in_order I hash s'" "sending_db s' = sending_db s"
proof -
  let ?i = "shard_id hash (Federation server) (length (sn_channels s))"
  let ?chans = "(sn_channels s)[?i := sn_channels s ! ?i @ [flush_msg server revive]]"
  have s': "?i < length (sn_channels s)" "s' = s\<lparr>sn_channels := ?chans\<rparr>"
    using dispatch_msg_ok [OF run] by (simp_all add: flush_msg_def)
  then show "sending_db s' = sending_db s" by simp
  have "service_ok I hash (ntab s) (srv_count (sn_srv s)) ?chans (sn_workers s)"
  proof (rule service_ok_more(1) [OF ok order_refl, where add = Map.empty and new = "{}"])
    fix j x assume j: "j < length (sn_workers s)" "x \<in> set (?chans ! j)"
    then show "x \<in> set (sn_channels s ! j) \<or> msg_ok I (srv_count (sn_srv s)) x \<and>
        shard_id hash (msg_dest x) (length (sn_workers s)) = j \<and>
        (msg_queue_id x = [] \<or> (msg_queue_id x, event_value (msg_event x)) \<in> {})"
      using s'(1) wf service_okD(2) [OF ok] by (cases "j = ?i") (auto simp: flush_msg_def msg_ok_def)
  qed (use service_okD(3) [OF ok] in auto)
  then show "in_order I hash s'" by (simp add: s'(2))
qed

lemma clean_ok:
  assumes ok: "in_order I hash s" and run: "delete_all_requests_for R dest (sending_db s) = Some db"
  shows "in_order I hash (set_sending_db db s)"
    "stored (ntab s) key val \<Longrightarrow> stored (tab db) key val \<or> prefix (get_prefix dest) key"
proof -
  have t: "tab db = (ntab s)(SERVERCURRENTEVENT_DATA := ntab s SERVERCURRENTEVENT_DATA |` {k. \<not> prefix (get_prefix dest) k},
       SERVERNAMEEVENT_DATA := ntab s SERVERNAMEEVENT_DATA |` {k. \<not> prefix (get_prefix dest) k})"
    using delete_all_table [of dest "sending_db s"] run by auto
  have "tab db c key = Some val \<Longrightarrow> ntab s c key = Some val" for c key val
    by (auto simp: t restrict_map_def split: if_splits)
  then show "in_order I hash (set_sending_db db s)"
    using service_ok_less [OF ok, of "tab db"] by simp
  show "stored (ntab s) key val \<Longrightarrow> stored (tab db) key val \<or> prefix (get_prefix dest) key"
    by (auto simp: t stored_def restrict_map_def)
qed

end

subsection \<open>Every step\<close>

fun label_ok :: "id_checks \<Rightarrow> send_label \<Rightarrow> bool" where
  "label_ok I (Queued requests) = (\<forall>(dest, event) \<in> set requests. wf_dest I dest \<and> wf_event event)"
| "label_ok I (Flushed m) = wf_dest I (msg_dest m)"
| "label_ok I (Cleaned dest) = wf_dest I dest"
| "label_ok I _ = True"

context rocks_io
begin

lemma sending_step_ok:
  assumes ok: "in_order I hash s" and step: "sending_step dbg I R E N hash s lbl s'" and "label_ok I lbl"
  shows "in_order I hash s'"
    and "stored (ntab s) key val \<Longrightarrow> stored (ntab s') key val \<or>
      (\<exists>i dest events event. lbl = Answered i dest events True \<and> event \<in> set events \<and>
         parse_servercurrentevent I key val = Inr (dest, event)) \<or>
      (\<exists>dest. lbl = Cleaned dest \<and> prefix (get_prefix dest) key)"
proof -
  have "in_order I hash s' \<and> (stored (ntab s) key val \<longrightarrow> stored (ntab s') key val \<or>
      (\<exists>i dest events event. lbl = Answered i dest events True \<and> event \<in> set events \<and>
         parse_servercurrentevent I key val = Inr (dest, event)) \<or>
      (\<exists>dest. lbl = Cleaned dest \<and> prefix (get_prefix dest) key))"
    using step
  proof (cases rule: sending_step.cases)
    case (queue requests)
    then show ?thesis using queue_each_ok [OF ok queue(2)] assms(3) by simp
  next
    case (flush server revive)
    then show ?thesis using flush_ok [OF ok flush(2)] assms(3) by (simp add: flush_msg_def)
  next
    case (receive i m ms now)
    then show ?thesis using receive_ok [OF ok receive(2,4,5)] by simp
  next
    case (answer i j dest events now answered)
    then show ?thesis using answer_ok [OF ok answer(2-5)] by auto
  next
    case (clean dest db)
    then show ?thesis using clean_ok [OF ok clean(3)] by auto
  qed
  then show "in_order I hash s'"
    "stored (ntab s) key val \<Longrightarrow> stored (ntab s') key val \<or>
      (\<exists>i dest events event. lbl = Answered i dest events True \<and> event \<in> set events \<and>
         parse_servercurrentevent I key val = Inr (dest, event)) \<or>
      (\<exists>dest. lbl = Cleaned dest \<and> prefix (get_prefix dest) key)"
    by blast+
qed

end

end
