(* ===== verification/Sending_Run.thy ===== *)
theory Sending_Run
  imports Sending_Props
begin

section \<open>Runs of the sending service\<close>

text \<open>
  The start of the workers on the database of an earlier run establishes the invariant, so it holds in
  every state the service reaches, and with it: nothing that was queued is lost, no worker panics, a
  destination that answers is sent everything, and one that failed is tried again.
\<close>

subsection \<open>The start\<close>

text \<open>What the start may do to the tables: active rows beyond \<open>startup_netburst_keep\<close> are deleted.\<close>

definition fewer_active :: "tables \<Rightarrow> tables \<Rightarrow> bool" where
  "fewer_active m' m \<longleftrightarrow>
     (\<forall>c. c \<noteq> SERVERCURRENTEVENT_DATA \<longrightarrow> m' c = m c) \<and> m' SERVERCURRENTEVENT_DATA \<subseteq>\<^sub>m m SERVERCURRENTEVENT_DATA"

lemma fewer_activeD:
  assumes "fewer_active m' m"
  shows "c \<noteq> SERVERCURRENTEVENT_DATA \<Longrightarrow> m' c = m c"
    "m' SERVERCURRENTEVENT_DATA key = Some val \<Longrightarrow> m SERVERCURRENTEVENT_DATA key = Some val"
    "m SERVERCURRENTEVENT_DATA key = None \<Longrightarrow> m' SERVERCURRENTEVENT_DATA key = None"
    "stored m' key val \<Longrightarrow> stored m key val"
proof -
  show old: "m SERVERCURRENTEVENT_DATA key = Some val" if "m' SERVERCURRENTEVENT_DATA key = Some val" for key val
    using assms that unfolding fewer_active_def map_le_def by (metis domI)
  show "m' c = m c" if "c \<noteq> SERVERCURRENTEVENT_DATA" for c using assms that by (simp add: fewer_active_def)
  then have "m' SERVERNAMEEVENT_DATA = m SERVERNAMEEVENT_DATA" by simp
  then show "stored m key val" if "stored m' key val" for key val using that old by (auto simp: stored_def)
  show "m' SERVERCURRENTEVENT_DATA key = None" if "m SERVERCURRENTEVENT_DATA key = None" for key
    using that old by (metis option.exhaust option.distinct(1))
qed

lemma fewer_active_refl: "fewer_active m m"
  by (simp add: fewer_active_def)

lemma fewer_active_trans: "fewer_active m1 m2 \<Longrightarrow> fewer_active m2 m3 \<Longrightarrow> fewer_active m1 m3"
  by (auto simp: fewer_active_def intro: map_le_trans)

lemma fewer_active_rows: "fewer_active m' m \<Longrightarrow> rows_ok I most m \<Longrightarrow> rows_ok I most m'"
  using fewer_activeD(4) by (fastforce simp: rows_ok_def)

lemma fewer_active_worker:
  assumes "fewer_active m' m" and "worker_ok I mine m st fut"
  shows "worker_ok I mine m' st fut"
proof -
  have "carries I m' dest events" if "carries I m dest events" for dest events
    using that fewer_activeD(2) [OF assms(1)] by (fastforce simp: carries_def)
  then show ?thesis using assms(2) by (fastforce simp: worker_ok_def)
qed

definition txns_ok :: "id_checks \<Rightarrow> (destination \<Rightarrow> bool) \<Rightarrow> (destination \<times> sending_event list) list \<Rightarrow> bool" where
  "txns_ok I mine txns \<longleftrightarrow>
     distinct (map fst txns) \<and> (\<forall>(dest, events) \<in> set txns. mine dest \<and> wf_dest I dest)"

lemma txn_entry_update:
  "txn_entry dest (AList.update d events txns) = (if dest = d then events else txn_entry dest txns)"
  by (simp add: txn_entry_def update_conv')

lemma txns_ok_update:
  assumes "txns_ok I mine txns" and "mine dest" and "wf_dest I dest"
  shows "txns_ok I mine (AList.update dest events txns)"
proof -
  have "set (AList.update dest events txns) \<subseteq> insert (dest, events) (set txns)"
    by (induction txns) auto
  then show ?thesis using assms by (auto simp: txns_ok_def distinct_update)
qed

context rocks_io
begin

lemma delete_active_request_table:
  "tab (delete_active_request R key db) = (tab db)(SERVERCURRENTEVENT_DATA := (tab db SERVERCURRENTEVENT_DATA)(key := None))"
  using map_remove_ok [OF io, of SERVERCURRENTEVENT_DATA key db] by (auto simp: delete_active_request_def)

lemma collect_active_ok:
  assumes "\<forall>(key, val) \<in> set rows. \<exists>dest event. row_for I most dest event key val" and "txns_ok I mine txns"
  shows "\<exists>txns' db'. collect_active I R N mine rows txns db = (db', Inr txns') \<and> fewer_active (tab db') (tab db) \<and>
    txns_ok I mine txns' \<and> (\<forall>dest. set (txn_entry dest txns) \<subseteq> set (txn_entry dest txns')) \<and>
    (\<forall>(key, val) \<in> set rows. \<forall>dest event. parse_servercurrentevent I key val = Inr (dest, event) \<longrightarrow>
       mine dest \<longrightarrow> tab db' SERVERCURRENTEVENT_DATA key \<noteq> None \<longrightarrow> event \<in> set (txn_entry dest txns'))"
  using assms
proof (induction rows arbitrary: txns db)
  case Nil
  then show ?case by (simp add: fewer_active_refl)
next
  case (Cons row rows)
  obtain key val where row: "row = (key, val)" by (cases row)
  obtain dest event where rf: "row_for I most dest event key val" using Cons.prems(1) row by auto
  have parse: "parse_row I row = Inr (key, event, dest)" "parse_servercurrentevent I key val = Inr (dest, event)"
    using row_for_parse_row [OF rf] parse_row_for [OF rf] row by auto
  have wf: "wf_dest I dest" using rf by (simp add: row_for_def)
  let ?entry = "txn_entry dest txns"
  let ?full = "0 \<le> sint (startup_netburst_keep N) \<and> netburst_keep (startup_netburst_keep N) \<le> length ?entry"
  define txns1 where "txns1 = (if \<not> mine dest then txns else AList.update dest (if ?full then ?entry else ?entry @ [event]) txns)"
  define db1 where "db1 = (if mine dest \<and> ?full then delete_active_request R key db else db)"
  have run: "collect_active I R N mine (row # rows) txns db = collect_active I R N mine rows txns1 db1"
    using parse(1) by (simp add: txns1_def db1_def Let_def)
  have fewer: "fewer_active (tab db1) (tab db)"
    by (auto simp: db1_def delete_active_request_table fewer_active_def map_le_def)
  have ok: "txns_ok I mine txns1" using Cons.prems(2) wf by (simp add: txns1_def txns_ok_update)
  have grown: "set (txn_entry d txns) \<subseteq> set (txn_entry d txns1)" for d
    by (auto simp: txns1_def txn_entry_update)
  have taken: "event \<in> set (txn_entry dest txns1) \<or> tab db1 SERVERCURRENTEVENT_DATA key = None" if "mine dest"
    using that by (simp add: txns1_def db1_def txn_entry_update delete_active_request_table)
  obtain txns' db' where rest: "collect_active I R N mine rows txns1 db1 = (db', Inr txns')"
      "fewer_active (tab db') (tab db1)" "txns_ok I mine txns'"
      "\<forall>dest. set (txn_entry dest txns1) \<subseteq> set (txn_entry dest txns')"
      "\<forall>(key, val) \<in> set rows. \<forall>dest event. parse_servercurrentevent I key val = Inr (dest, event) \<longrightarrow>
         mine dest \<longrightarrow> tab db' SERVERCURRENTEVENT_DATA key \<noteq> None \<longrightarrow> event \<in> set (txn_entry dest txns')"
    using Cons.IH [OF _ ok, of db1] Cons.prems(1) by auto
  have "event \<in> set (txn_entry dest txns')" if "mine dest" "tab db' SERVERCURRENTEVENT_DATA key \<noteq> None"
    using taken [OF that(1)] rest(4) fewer_activeD(3) [OF rest(2), of key] that(2) by blast
  then have all: "\<forall>(key, val) \<in> set (row # rows). \<forall>dest event. parse_servercurrentevent I key val = Inr (dest, event) \<longrightarrow>
       mine dest \<longrightarrow> tab db' SERVERCURRENTEVENT_DATA key \<noteq> None \<longrightarrow> event \<in> set (txn_entry dest txns')"
    using rest(5) parse(2) by (simp add: row)
  have "\<forall>d. set (txn_entry d txns) \<subseteq> set (txn_entry d txns')" using grown rest(4) by blast
  moreover note fewer_active_trans [OF rest(2) fewer]
  ultimately show ?case unfolding run using rest(1,3) all by (intro exI [of _ txns'] exI [of _ db'] conjI) assumption+
qed

end

text \<open>The burst starts one transaction for each destination with events, when it is switched on.\<close>

lemma burst_ok:
  "\<exists>s'. burst dbg N txns s = (s', Inr ()) \<and> sd_srv s' = sd_srv s \<and>
    futures s' = futures s @ filter (\<lambda>(_, events). startup_netburst_on N \<and> events \<noteq> []) txns \<and>
    (\<forall>dest. statuses s' dest = (if dest \<in> fst ` set (filter (\<lambda>(_, events). startup_netburst_on N \<and> events \<noteq> []) txns)
       then Some Running else statuses s dest))"
proof (induction txns arbitrary: s)
  case (Cons t txns)
  obtain dest events where t: "t = (dest, events)" by (cases t)
  let ?go = "startup_netburst_on N \<and> events \<noteq> []"
  let ?s1 = "if ?go then (set_status dest (Some Running) s)\<lparr>futures := futures s @ [(dest, events)]\<rparr> else s"
  have "burst dbg N (t # txns) s = burst dbg N txns ?s1"
    by (simp add: t push_transaction_ok(2))
  then show ?case using Cons.IH [of ?s1] by (auto simp: t)
qed simp

lemma burst_worker_ok:
  assumes ok: "txns_ok I mine txns" and perm: "mset ts = mset txns"
    and futs: "futs = filter (\<lambda>(_, events). startup_netburst_on N \<and> events \<noteq> []) ts"
    and st: "\<forall>dest. sts dest = (if dest \<in> fst ` set futs then Some Running else None)"
    and carried: "\<And>dest. mine dest \<Longrightarrow> wf_dest I dest \<Longrightarrow> carries I T dest (txn_entry dest txns)"
    and on: "startup_netburst_on N \<or> T SERVERCURRENTEVENT_DATA = Map.empty"
  shows "worker_ok I mine T sts futs"
proof (rule worker_okI)
  have "set ts = set txns" by (metis perm set_mset_mset)
  then have fut: "(dest, events) \<in> set futs \<longleftrightarrow> (dest, events) \<in> set txns \<and> startup_netburst_on N \<and> events \<noteq> []" for dest events
    by (auto simp: futs)
  have "mset (map fst ts) = mset (map fst txns)" using perm by simp
  then have "distinct (map fst ts)" using ok by (metis txns_ok_def mset_eq_imp_distinct_iff)
  then show "distinct (map fst futs)" unfolding futs by (rule distinct_map_filter)
  show "mine dest \<and> wf_dest I dest \<and> carries I T dest events" if "(dest, events) \<in> set futs" for dest events
  proof -
    have "(dest, events) \<in> set txns" using that fut by blast
    then have "mine dest" "wf_dest I dest" "txn_entry dest txns = events" using ok by (auto simp: txns_ok_def txn_entry_def)
    then show ?thesis using carried by blast
  qed
  show "in_flight (sts dest) \<longleftrightarrow> dest \<in> fst ` set futs" for dest by (simp add: st)
  show "carries I T dest []" if "mine dest" "wf_dest I dest" "sts dest = None" for dest
  proof (cases "startup_netburst_on N")
    case True
    have "txn_entry dest txns = []"
    proof (rule ccontr)
      assume some: "txn_entry dest txns \<noteq> []"
      then have "(dest, txn_entry dest txns) \<in> set txns" by (auto simp: txn_entry_def dest: map_of_SomeD split: option.splits)
      then have "(dest, txn_entry dest txns) \<in> set futs" using fut True some by blast
      then show False using that(3) st by (metis fst_conv image_eqI option.distinct(1))
    qed
    then show ?thesis using carried [OF that(1,2)] by simp
  next
    case False
    then show ?thesis using on by (simp add: carries_Nil)
  qed
qed

context rocks_io
begin

lemma startup_netburst_ok:
  assumes rows: "rows_ok I most (stab s)" and on: "startup_netburst_on N \<or> stab s SERVERCURRENTEVENT_DATA = Map.empty"
    and blank: "statuses s = Map.empty" "futures s = []" and order: "\<And>xs. mset (order xs) = mset xs"
  shows "\<exists>s'. startup_netburst dbg I R N mine order s = (s', Inr ()) \<and> srv_count (sd_srv s') = srv_count (sd_srv s) \<and>
    fewer_active (stab s') (stab s) \<and> worker_ok I mine (stab s') (statuses s') (futures s')"
proof -
  let ?rows = "entries (stab s SERVERCURRENTEVENT_DATA)"
  have mem: "(key, val) \<in> set ?rows \<longleftrightarrow> stab s SERVERCURRENTEVENT_DATA key = Some val" for key val
    by (rule set_entries [OF finite_law])
  have parsed: "\<forall>(key, val) \<in> set ?rows. \<exists>dest event. row_for I most dest event key val"
    using rows_okD [OF rows] mem by (auto simp: stored_def)
  have none: "txns_ok I mine []" by (simp add: txns_ok_def)
  obtain txns db where txns: "collect_active I R N mine ?rows [] (sender_db s) = (db, Inr txns)"
      "fewer_active (tab db) (stab s)" "txns_ok I mine txns"
      "\<forall>(key, val) \<in> set ?rows. \<forall>dest event. parse_servercurrentevent I key val = Inr (dest, event) \<longrightarrow>
         mine dest \<longrightarrow> tab db SERVERCURRENTEVENT_DATA key \<noteq> None \<longrightarrow> event \<in> set (txn_entry dest txns)"
    using collect_active_ok [OF parsed none, where N = N and db = "sender_db s"] by blast
  let ?fut = "filter (\<lambda>(_, events). startup_netburst_on N \<and> events \<noteq> []) (order txns)"
  obtain s' where s': "burst dbg N (order txns) (set_sender_db db s) = (s', Inr ())" "sd_srv s' = sd_srv (set_sender_db db s)"
      "futures s' = ?fut" "\<forall>dest. statuses s' dest = (if dest \<in> fst ` set ?fut then Some Running else None)"
    using burst_ok [of dbg N "order txns" "set_sender_db db s"] blank by (auto simp: set_sender_db_def)
  have tables: "stab s' = tab db" by (simp add: s'(2) sender_db_def set_sender_db_def)
  have carried: "carries I (tab db) dest (txn_entry dest txns)" if own: "mine dest" "wf_dest I dest" for dest
    unfolding carries_def
  proof (intro allI impI)
    fix key val assume row: "tab db SERVERCURRENTEVENT_DATA key = Some val" "prefix (get_prefix dest) key"
    note old = fewer_activeD(2) [OF txns(2) row(1)]
    then obtain event where "parse_servercurrentevent I key val = Inr (dest, event)"
      using rows_ok_parse [OF rows _ own(2), of key val] row(2) by (auto simp: stored_def)
    then show "\<exists>event \<in> set (txn_entry dest txns). parse_servercurrentevent I key val = Inr (dest, event)"
      using txns(4) mem [of key val] old row(1) own(1) by fastforce
  qed
  have "startup_netburst_on N \<or> tab db SERVERCURRENTEVENT_DATA = Map.empty"
    using on fewer_activeD(3) [OF txns(2)] by auto
  then have "worker_ok I mine (tab db) (statuses s') (futures s')"
    using burst_worker_ok [OF txns(3) order s'(3) _ carried] s'(3,4) by simp
  then show ?thesis
    using s'(1,2) txns(1,2) tables by (simp add: startup_netburst_def active_requests_def scan_all set_sender_db_def)
qed

lemma start_workers_ok:
  assumes rows: "rows_ok I most (ntab s)" and on: "startup_netburst_on N \<or> ntab s SERVERCURRENTEVENT_DATA = Map.empty"
    and order: "\<And>xs. mset (order xs) = mset xs"
    and "distinct is" and "\<forall>i \<in> set is. i < length (sn_workers s) \<and> sn_workers s ! i = (Map.empty, [])"
  shows "\<exists>s'. start_workers dbg I R N hash order is s = (s', Inr ()) \<and> srv_count (sn_srv s') = srv_count (sn_srv s) \<and>
    fewer_active (ntab s') (ntab s) \<and>
    sn_channels s' = sn_channels s \<and> length (sn_workers s') = length (sn_workers s) \<and>
    (\<forall>i. i \<notin> set is \<longrightarrow> sn_workers s' ! i = sn_workers s ! i) \<and>
    (\<forall>i \<in> set is. worker_ok I (\<lambda>d. shard_id hash d (length (sn_channels s)) = i) (ntab s')
       (fst (sn_workers s' ! i)) (snd (sn_workers s' ! i)))"
  using assms
proof (induction "is" arbitrary: s)
  case (Cons i "is")
  let ?mine = "\<lambda>d. shard_id hash d (length (sn_channels s)) = i"
  let ?w = "\<lparr>sd_srv = sn_srv s, statuses = Map.empty, futures = []\<rparr>"
  have blank: "sn_workers s ! i = (Map.empty, [])" "i < length (sn_workers s)" using Cons.prems(5) by auto
  obtain w where w: "startup_netburst dbg I R N ?mine order ?w = (w, Inr ())" "srv_count (sd_srv w) = srv_count (sn_srv s)"
      "fewer_active (stab w) (ntab s)" "worker_ok I ?mine (stab w) (statuses w) (futures w)"
    using startup_netburst_ok [of I most ?w N order ?mine] Cons.prems(1-3) by (auto simp: sending_db_def)
  let ?s1 = "s\<lparr>sn_srv := sd_srv w, sn_workers := (sn_workers s)[i := (statuses w, futures w)]\<rparr>"
  have one: "on_worker i (startup_netburst dbg I R N ?mine order) s = (?s1, Inr ())"
    using w(1) by (simp add: on_worker_def blank)
  have tables: "ntab ?s1 = stab w" by (simp add: sending_db_def sender_db_def)
  have rest: "\<forall>j \<in> set is. j < length (sn_workers ?s1) \<and> sn_workers ?s1 ! j = (Map.empty, [])"
    using Cons.prems(4,5) by (auto simp: nth_list_update)
  have rows1: "rows_ok I most (ntab ?s1)" unfolding tables by (rule fewer_active_rows [OF w(3) Cons.prems(1)])
  have on1: "startup_netburst_on N \<or> ntab ?s1 SERVERCURRENTEVENT_DATA = Map.empty"
    using Cons.prems(2) fewer_activeD(3) [OF w(3)] unfolding tables by (metis (full_types) ext)
  obtain s' where s': "start_workers dbg I R N hash order is ?s1 = (s', Inr ())" "srv_count (sn_srv s') = srv_count (sn_srv s)"
      "fewer_active (ntab s') (stab w)" "sn_channels s' = sn_channels s" "length (sn_workers s') = length (sn_workers s)"
      "\<forall>j. j \<notin> set is \<longrightarrow> sn_workers s' ! j = sn_workers ?s1 ! j"
      "\<forall>j \<in> set is. worker_ok I (\<lambda>d. shard_id hash d (length (sn_channels s)) = j) (ntab s')
         (fst (sn_workers s' ! j)) (snd (sn_workers s' ! j))"
    using Cons.IH [OF rows1 on1 Cons.prems(3) _ rest] Cons.prems(4) w(2) unfolding tables by auto
  have this_one: "sn_workers s' ! i = (statuses w, futures w)" using s'(6) Cons.prems(4) blank(2) by simp
  have others: "sn_workers s' ! j = sn_workers s ! j" if "j \<notin> set (i # is)" for j using s'(6) that by simp
  show ?case
    using s'(1,2,4,5,7) one this_one others fewer_active_worker [OF s'(3) w(4)] fewer_active_trans [OF s'(3) w(3)]
    by (intro exI [of _ s']) simp
qed (simp add: fewer_active_refl)

end

subsection \<open>Runs\<close>

text \<open>
  A run: the workers start on the database of an earlier run, and then any of the steps happens, with
  destinations and events that are well formed. The invariant needs the burst at the start, or a database
  without active rows: with the burst off, an active row of an earlier run is part of no transaction.
\<close>

definition left_over :: "id_checks \<Rightarrow> sender_config \<Rightarrow> u64 \<Rightarrow> tables \<Rightarrow> bool" where
  "left_over I N most m \<longleftrightarrow>
     rows_ok I most m \<and> single_valued {(key, val). stored m key val} \<and>
     (startup_netburst_on N \<or> m SERVERCURRENTEVENT_DATA = Map.empty)"

inductive sending_run ::
  "bool \<Rightarrow> id_checks \<Rightarrow> ('d, 'it) rocksdb \<Rightarrow> 'r edu_env \<Rightarrow> sender_config \<Rightarrow> (destination \<Rightarrow> u64) \<Rightarrow>
     ((destination \<times> sending_event list) list \<Rightarrow> (destination \<times> sending_event list) list) \<Rightarrow>
     'd server \<Rightarrow> nat \<Rightarrow> send_label list \<Rightarrow> 'd sending \<Rightarrow> bool"
  for dbg I R E N hash order srv n
where
  start: "start_workers dbg I R N hash order [0..<n] (new_sending n srv) = (s, Inr ()) \<Longrightarrow>
    sending_run dbg I R E N hash order srv n [] s"
| step: "sending_run dbg I R E N hash order srv n lbls s \<Longrightarrow> label_ok I lbl \<Longrightarrow>
    sending_step dbg I R E N hash s lbl s' \<Longrightarrow> sending_run dbg I R E N hash order srv n (lbls @ [lbl]) s'"

context rocks_io
begin

lemma start_in_order:
  assumes "left_over I N (srv_count srv) (srv_tables srv)"
    and "\<And>xs. mset (order xs) = mset xs" and "0 < n"
  shows "\<exists>s. start_workers dbg I R N hash order [0..<n] (new_sending n srv) = (s, Inr ()) \<and>
    srv_count (sn_srv s) = srv_count srv \<and> fewer_active (ntab s) (srv_tables srv) \<and> in_order I hash s"
proof -
  let ?s = "new_sending n srv"
  have tables: "ntab ?s = srv_tables srv" by (simp add: sending_db_def new_sending_def)
  have rows: "rows_ok I (srv_count srv) (ntab ?s)" "startup_netburst_on N \<or> ntab ?s SERVERCURRENTEVENT_DATA = Map.empty"
    using assms(1) by (auto simp: tables left_over_def)
  have blank: "\<forall>i \<in> set [0..<n]. i < length (sn_workers ?s) \<and> sn_workers ?s ! i = (Map.empty, [])"
    by (simp add: new_sending_def)
  note started = start_workers_ok [OF rows assms(2) distinct_upt blank, where hash = hash, unfolded tables]
  obtain s where s: "start_workers dbg I R N hash order [0..<n] ?s = (s, Inr ())" "srv_count (sn_srv s) = srv_count srv"
      "fewer_active (ntab s) (srv_tables srv)" "sn_channels s = replicate n []" "length (sn_workers s) = n"
      "\<forall>i < n. worker_ok I (\<lambda>d. shard_id hash d n = i) (ntab s) (fst (sn_workers s ! i)) (snd (sn_workers s ! i))"
    using started by (elim exE conjE) (rule that, simp_all add: new_sending_def Ball_def)
  have "bindings (ntab s) (replicate n []) \<subseteq> {(key, val). stored (srv_tables srv) key val}"
    using fewer_activeD(4) [OF s(3)] by (auto simp: bindings_def)
  then have "single_valued (bindings (ntab s) (sn_channels s))"
    using assms(1) single_valued_subset unfolding left_over_def s(4) by blast
  moreover have "rows_ok I (srv_count srv) (ntab s)"
    using fewer_active_rows [OF s(3)] assms(1) by (simp add: left_over_def)
  moreover have "sn_workers s \<noteq> []" using s(5) assms(3) by force
  ultimately have "in_order I hash s"
    using s(6) unfolding service_ok_def s(2,4) by (auto simp: s(5))
  then show ?thesis using s(1-3) by blast
qed

lemma run_in_order:
  assumes "sending_run dbg I R E N hash order srv n lbls s"
    and "left_over I N (srv_count srv) (srv_tables srv)"
    and "\<And>xs. mset (order xs) = mset xs" and "0 < n"
  shows "in_order I hash s"
  using assms(1)
proof induction
  case (start s)
  then show ?case using start_in_order [OF assms(2-4), of hash] by auto
next
  case (step lbls s lbl s')
  then show ?case using sending_step_ok(1) by blast
qed

end

subsection \<open>A destination that answers\<close>

lemma parse_rows_take: "parse_rows I rows = Inr items \<Longrightarrow> parse_rows I (take n rows) = Inr (take n items)"
proof (induction rows arbitrary: items n)
  case (Cons row rows)
  then show ?case by (cases n) (auto simp: res_bind_Inr_iff split: prod.splits)
qed simp

lemma parse_rows_drop: "parse_rows I rows = Inr items \<Longrightarrow> parse_rows I (drop n rows) = Inr (drop n items)"
proof (induction rows arbitrary: items n)
  case (Cons row rows)
  then show ?case by (cases n) (auto simp: res_bind_Inr_iff split: prod.splits)
qed simp

lemma parse_rows_keys: "parse_rows I rows = Inr items \<Longrightarrow> map fst items = map fst rows"
  by (induction rows arbitrary: items) (auto simp: res_bind_Inr_iff parse_row_def split: prod.splits sum.splits)

lemma filter_dropped:
  assumes "distinct (map fst xs)"
  shows "filter (\<lambda>(k, _). k \<notin> fst ` set (take n xs)) xs = drop n xs"
proof -
  let ?P = "\<lambda>(k, _). k \<notin> fst ` set (take n xs)"
  have "distinct (map fst (take n xs) @ map fst (drop n xs))"
    using assms by (metis append_take_drop_id map_append)
  then have "fst ` set (take n xs) \<inter> fst ` set (drop n xs) = {}" by auto
  then have "filter ?P (drop n xs) = drop n xs" by (intro filter_True) force
  moreover have "filter ?P (take n xs) = []" by (force simp: filter_empty_conv)
  ultimately show ?thesis by (metis append_take_drop_id filter_append append_Nil)
qed

lemma entries_restrict:
  assumes "finite (dom m)"
  shows "entries (m |` {k. k \<notin> K}) = filter (\<lambda>(k, _). k \<notin> K) (entries m)"
proof -
  let ?ks = "filter (\<lambda>k. k \<notin> K) (sorted_list_of_set (dom m))"
  have "dom (m |` {k. k \<notin> K}) = set ?ks" using assms by auto
  moreover have "sorted ?ks" "distinct ?ks" by (simp_all add: sorted_wrt_filter)
  ultimately have "sorted_list_of_set (dom (m |` {k. k \<notin> K})) = ?ks"
    by (simp only: sorted_list_of_set.idem_if_sorted_distinct)
  then show ?thesis
    by (simp add: entries_def filter_map o_def restrict_map_def cong: map_cong)
qed

lemma get_prefix_nonempty [simp]: "get_prefix dest \<noteq> []"
  by (cases dest) auto

context rocks_io
begin

lemma under_distinct: "distinct (map fst (under p (tab db c)))"
  by (simp add: keys_under)

lemma under_activated:
  assumes "m SERVERNAMEEVENT_DATA = tab db SERVERNAMEEVENT_DATA" and "map fst items = map fst (take n (under p (tab db SERVERNAMEEVENT_DATA)))"
    and "p \<noteq> []" and "activate items m = tab db'"
  shows "under p (tab db' SERVERNAMEEVENT_DATA) = drop n (under p (tab db SERVERNAMEEVENT_DATA))"
proof -
  let ?u = "under p (tab db SERVERNAMEEVENT_DATA)"
  let ?K = "fst ` set (take n ?u)"
  have K: "fst ` set items = ?K" using assms(2) by (metis list.set_map)
  have "prefix p k" if "k \<in> ?K" for k using that by (auto simp: under_def dest!: in_set_takeD)
  then have "[] \<notin> ?K" using assms(3) by fastforce
  then have "tab db' SERVERNAMEEVENT_DATA = tab db SERVERNAMEEVENT_DATA |` {k. k \<notin> ?K}"
    unfolding assms(4) [symmetric] by (auto simp: activate_queue K assms(1) restrict_map_def fun_eq_iff)
  then have "under p (tab db' SERVERNAMEEVENT_DATA) = filter (\<lambda>(k, _). k \<notin> ?K) ?u"
    by (simp add: under_def entries_restrict [OF finite_law] case_prod_unfold conj_commute)
  then show ?thesis by (simp add: filter_dropped [OF under_distinct])
qed

lemma queue_parses:
  assumes "rows_ok I most (tab db)" and "wf_dest I dest" and "c = SERVERCURRENTEVENT_DATA \<or> c = SERVERNAMEEVENT_DATA"
  shows "\<exists>items. parse_rows I (under (get_prefix dest) (tab db c)) = Inr items"
proof -
  define f where "f key = (case parse_servercurrentevent I key (the (tab db c key)) of Inr (_, event) \<Rightarrow> event | _ \<Rightarrow> Flush)" for key
  have "\<exists>dest. row_for I most dest (f key) key val" if "(key, val) \<in> set (under (get_prefix dest) (tab db c))" for key val
  proof -
    have row: "tab db c key = Some val" "prefix (get_prefix dest) key" using that by (auto simp: in_under)
    then have "stored (tab db) key val" using assms(3) by (auto simp: stored_def)
    then obtain event where "row_for I most dest event key val" "parse_servercurrentevent I key val = Inr (dest, event)"
      using rows_ok_parse [OF assms(1) _ assms(2) row(2)] by blast
    then show ?thesis using row(1) by (auto simp: f_def)
  qed
  then show ?thesis using parse_rows_map by blast
qed

lemma handle_response_ok_total:
  assumes "parse_rows I (take DEQUEUE_LIMIT (under (get_prefix dest) (stab s SERVERNAMEEVENT_DATA))) = Inr items"
  shows "\<exists>s'. handle_response_ok dbg I R dest s = (s', Inr ())"
proof -
  let ?s0 = "set_sender_db (engine_cork (sender_db s)) s"
  obtain db where db: "delete_all_active_requests_for R dest (sender_db ?s0) = Some db"
      "tab db SERVERNAMEEVENT_DATA = stab s SERVERNAMEEVENT_DATA"
    using delete_active_table [of dest "sender_db ?s0"] by auto
  have rows: "queued_requests R dest db = Some (under (get_prefix dest) (stab s SERVERNAMEEVENT_DATA))"
    by (simp add: queued_requests_def rows_for_under db(2))
  show ?thesis
    using assms by (simp add: handle_response_ok_def corked_sender db(1) [simplified] rows push_transaction_def split: prod.splits)
qed

text \<open>
  One answer of the destination: its active rows go, and the next rows of its queue are its next
  transaction, or it is idle.
\<close>

lemma answer_step:
  assumes ok: "in_order I hash s" and i: "i < length (sn_workers s)" and future: "(dest, events) \<in> set (snd (sn_workers s ! i))"
    and items: "parse_rows I (under (get_prefix dest) (ntab s SERVERNAMEEVENT_DATA)) = Inr items"
  shows "\<exists>s'. sending_step dbg I R E N hash s (Answered i dest events True) s' \<and>
    length (sn_workers s') = length (sn_workers s) \<and>
    parse_rows I (under (get_prefix dest) (ntab s' SERVERNAMEEVENT_DATA)) = Inr (drop DEQUEUE_LIMIT items) \<and>
    (if items = [] then fst (sn_workers s' ! i) dest = None \<and> (\<forall>key. prefix (get_prefix dest) key \<longrightarrow> ntab s' SERVERCURRENTEVENT_DATA key = None)
     else (dest, map snd (take DEQUEUE_LIMIT items)) \<in> set (snd (sn_workers s' ! i)))"
proof -
  let ?Q = "under (get_prefix dest) (ntab s SERVERNAMEEVENT_DATA)"
  obtain j where j: "j < length (snd (sn_workers s ! i))" "snd (sn_workers s ! i) ! j = (dest, events)"
    using future by (auto simp: in_set_conv_nth)
  define w where "w = take_future j \<lparr>sd_srv = sn_srv s, statuses = fst (sn_workers s ! i), futures = snd (sn_workers s ! i)\<rparr>"
  have tables: "stab w = ntab s" by (simp add: w_def sending_db_def)
  have taken: "parse_rows I (take DEQUEUE_LIMIT (under (get_prefix dest) (stab w SERVERNAMEEVENT_DATA))) = Inr (take DEQUEUE_LIMIT items)"
    using parse_rows_take [OF items] by (simp add: tables)
  obtain w' where w': "handle_response_ok dbg I R dest w = (w', Inr ())" using handle_response_ok_total [OF taken] by blast
  let ?s' = "s\<lparr>sn_srv := sd_srv w', sn_workers := (sn_workers s)[i := (statuses w', futures w')]\<rparr>"
  have step: "sending_step dbg I R E N hash s (Answered i dest events True) ?s'"
    by (rule sending_step.answer [OF i j]) (simp add: on_worker_def handle_response_def w'(1) w_def [symmetric])
  have tables': "ntab ?s' = stab w'" by (simp add: sending_db_def sender_db_def)
  from w' have "parse_rows I (under (get_prefix dest) (ntab ?s' SERVERNAMEEVENT_DATA)) = Inr (drop DEQUEUE_LIMIT items) \<and>
    (if items = [] then statuses w' dest = None \<and> (\<forall>key. prefix (get_prefix dest) key \<longrightarrow> ntab ?s' SERVERCURRENTEVENT_DATA key = None)
     else (dest, map snd (take DEQUEUE_LIMIT items)) \<in> set (futures w'))"
  proof (cases rule: handle_response_ok_cases)
    case (more new)
    then have new: "new = take DEQUEUE_LIMIT items" "items \<noteq> []" using taken by auto
    have "under (get_prefix dest) (stab w' SERVERNAMEEVENT_DATA) = drop DEQUEUE_LIMIT ?Q"
      by (rule under_activated [OF _ _ _ more(3) [symmetric]])
        (use parse_rows_keys [OF more(1)] in \<open>auto simp: tables get_prefix_nonempty\<close>)
    then show ?thesis using more(5) new parse_rows_drop [OF items] unfolding tables' by simp
  next
    case idle
    then have "?Q = []" by (simp add: tables)
    then have none: "items = []" using items by simp
    have "stab w' SERVERNAMEEVENT_DATA = ntab s SERVERNAMEEVENT_DATA" by (simp add: idle(2) tables)
    then show ?thesis using items none idle(2,3) unfolding tables' by simp
  qed
  then show ?thesis using step i by (intro exI [of _ ?s']) (cases "items = []"; simp)
qed

lemma drained:
  assumes "sending_run dbg I R E N hash order srv n lbls s"
    and start: "left_over I N (srv_count srv) (srv_tables srv)" "\<And>xs. mset (order xs) = mset xs" "0 < n"
    and "i < length (sn_workers s)" and "(dest, events) \<in> set (snd (sn_workers s ! i))"
    and "parse_rows I (under (get_prefix dest) (ntab s SERVERNAMEEVENT_DATA)) = Inr items"
  shows "\<exists>txns s'. sending_run dbg I R E N hash order srv n (lbls @ map (\<lambda>events. Answered i dest events True) (events # txns)) s' \<and>
    concat txns = map snd items \<and> (\<forall>t \<in> set txns. t \<noteq> [] \<and> length t \<le> DEQUEUE_LIMIT) \<and>
    fst (sn_workers s' ! i) dest = None \<and> (\<forall>key val. prefix (get_prefix dest) key \<longrightarrow> \<not> stored (ntab s') key val)"
  using assms(1,5-)
proof (induction "length items" arbitrary: items events lbls s rule: less_induct)
  case less
  note ok = run_in_order [OF less.prems(1) start]
  obtain s' where s': "sending_step dbg I R E N hash s (Answered i dest events True) s'"
      "length (sn_workers s') = length (sn_workers s)"
      "parse_rows I (under (get_prefix dest) (ntab s' SERVERNAMEEVENT_DATA)) = Inr (drop DEQUEUE_LIMIT items)"
      "if items = [] then fst (sn_workers s' ! i) dest = None \<and> (\<forall>key. prefix (get_prefix dest) key \<longrightarrow> ntab s' SERVERCURRENTEVENT_DATA key = None)
       else (dest, map snd (take DEQUEUE_LIMIT items)) \<in> set (snd (sn_workers s' ! i))"
    using answer_step [OF ok less.prems(2-)] by blast
  have run: "sending_run dbg I R E N hash order srv n (lbls @ [Answered i dest events True]) s'"
    by (rule sending_run.step [OF less.prems(1) _ s'(1)]) simp
  show ?case
  proof (cases "items = []")
    case True
    then have "under (get_prefix dest) (ntab s' SERVERNAMEEVENT_DATA) = []"
      using parse_rows_length [OF s'(3)] by simp
    then have "ntab s' SERVERNAMEEVENT_DATA key = None" if "prefix (get_prefix dest) key" for key
      using that in_under [of key _ "get_prefix dest" "sending_db s'" SERVERNAMEEVENT_DATA] by (cases "ntab s' SERVERNAMEEVENT_DATA key") auto
    then show ?thesis using run s'(4) True by (intro exI [of _ "[]"] exI [of _ s']) (auto simp: stored_def)
  next
    case False
    let ?t = "map snd (take DEQUEUE_LIMIT items)"
    obtain txns s'' where "sending_run dbg I R E N hash order srv n
          ((lbls @ [Answered i dest events True]) @ map (\<lambda>events. Answered i dest events True) (?t # txns)) s''"
        "concat txns = map snd (drop DEQUEUE_LIMIT items)" "\<forall>t \<in> set txns. t \<noteq> [] \<and> length t \<le> DEQUEUE_LIMIT"
        "fst (sn_workers s'' ! i) dest = None" "\<forall>key val. prefix (get_prefix dest) key \<longrightarrow> \<not> stored (ntab s'') key val"
      using less.hyps [OF _ run _ _ s'(3), of ?t] less.prems(2) s'(2,4) False by (auto simp: DEQUEUE_LIMIT_def)
    then show ?thesis
      using False by (intro exI [of _ "?t # txns"] exI [of _ s'']) (auto simp: DEQUEUE_LIMIT_def simp flip: map_append)
  qed
qed

end

subsection \<open>Nothing is lost\<close>

text \<open>The events of a call are in the tables until they were in a transaction that was answered, or their rows were deleted.\<close>

context rocks_io
begin

lemma run_keeps:
  assumes "sending_run dbg I R E N hash order srv n lbls s"
    and start: "left_over I N (srv_count srv) (srv_tables srv)" "\<And>xs. mset (order xs) = mset xs" "0 < n"
    and "lbls = before @ Queued requests # after" and request: "(dest, event) \<in> set requests"
  shows "(\<exists>key. stored (ntab s) key (event_value event) \<and> parse_servercurrentevent I key (event_value event) = Inr (dest, event)) \<or>
    (\<exists>i events. Answered i dest events True \<in> set after \<and> event \<in> set events) \<or> Cleaned dest \<in> set after"
  using assms(1,5)
proof (induction arbitrary: after)
  case (step lbls s lbl s')
  note ok = run_in_order [OF step.hyps(1) start]
  show ?case
  proof (cases after rule: rev_cases)
    case Nil
    then have "lbl = Queued requests" using step.prems by simp
    with step.hyps(3) have "queue_each dbg R hash requests s = (s', Inr ())"
      by (auto elim: sending_step.cases)
    then show ?thesis using queue_each_ok(3) [OF ok _ _ request] step.hyps(2) \<open>lbl = Queued requests\<close> by auto
  next
    case (snoc earlier lbl')
    then have lbls: "lbls = before @ Queued requests # earlier" "lbl' = lbl" using step.prems by auto
    show ?thesis
    proof (cases "\<exists>key. stored (ntab s) key (event_value event) \<and> parse_servercurrentevent I key (event_value event) = Inr (dest, event)")
      case True
      then obtain key where key: "stored (ntab s) key (event_value event)" "parse_servercurrentevent I key (event_value event) = Inr (dest, event)"
        by blast
      obtain d e where "row_for I (srv_count (sn_srv s)) d e key (event_value event)"
        using rows_okD [OF service_okD(4) [OF ok] key(1)] by blast
      then have row: "row_for I (srv_count (sn_srv s)) dest event key (event_value event)"
        using parse_row_for key(2) by fastforce
      have "d = dest" if "label_ok I (Cleaned d)" "prefix (get_prefix d) key" for d
        using row_for_prefix [OF row, of d] that by simp
      then show ?thesis
        using sending_step_ok(2) [OF ok step.hyps(3,2) key(1)] key(2) step.hyps(2) snoc lbls(2) by fastforce
    next
      case False
      then show ?thesis using step.IH [OF lbls(1)] snoc by auto
    qed
  qed
qed simp

end

end
