(* ===== verification/Send_Edus_Props.thy ===== *)
theory Send_Edus_Props
  imports Send_Edus Send_Queue_Props
begin

section \<open>Which ephemeral events a server is sent\<close>

text \<open>
  A selection stays within its limit and within the numbers it was asked for. Below the limit it has every
  user whose devices changed; at the limit the rest is left out although the number that is recorded for
  the server has passed it.
\<close>

subsection \<open>The scan of device lists\<close>

definition changed :: "'r edu_env \<Rightarrow> u64 \<Rightarrow> (bytes \<times> u64) list \<Rightarrow> bytes set" where
  "changed E upper keys = {user. user_is_local E user \<and> (\<exists>at. (user, at) \<in> set keys \<and> at \<le> upper)}"

definition scan_ok :: "'r edu_env \<Rightarrow> device_scan \<Rightarrow> bool" where
  "scan_ok E st \<longleftrightarrow>
     ds_events st = map (device_list_update E) (rev (ds_seen st)) \<and> distinct (ds_seen st) \<and>
     ds_len st = length (ds_seen st)"

definition scanned :: "'r edu_env \<Rightarrow> u64 \<Rightarrow> bytes set \<Rightarrow> device_scan \<Rightarrow> device_scan \<Rightarrow> bool" where
  "scanned E upper users st st' \<longleftrightarrow>
     scan_ok E st' \<and> ds_len st' \<le> SELECT_EDU_LIMIT \<and> set (ds_seen st) \<subseteq> set (ds_seen st') \<and>
     set (ds_seen st') \<subseteq> set (ds_seen st) \<union> users \<and> ds_max st \<le> ds_max st' \<and>
     (ds_max st \<le> upper \<longrightarrow> ds_max st' \<le> upper)"

lemma limit_pos: "0 < SELECT_EDU_LIMIT" "SELECT_EDU_LIMIT - 1 \<le> n \<longleftrightarrow> SELECT_EDU_LIMIT \<le> Suc n"
  by (auto simp: SELECT_EDU_LIMIT_def EDU_LIMIT_def)

lemma changed_Cons:
  "changed E upper ((user, at) # rest) =
     (if user_is_local E user \<and> \<not> upper < at then insert user (changed E upper rest) else changed E upper rest)"
  by (auto simp: changed_def not_less)

lemma changed_late:
  assumes "sorted (map snd keys)" and "upper < at" and "\<forall>x \<in> set keys. at \<le> snd x"
  shows "changed E upper keys = {}"
  using assms(2,3) by (fastforce simp: changed_def)

lemma device_changes_room_scan:
  assumes "device_changes_room E upper keys st = (st', full)" and "scan_ok E st" and "ds_len st < SELECT_EDU_LIMIT"
  shows "scanned E upper (changed E upper keys) st st' \<and> (full \<longleftrightarrow> ds_len st' = SELECT_EDU_LIMIT)"
  using assms
proof (induction keys arbitrary: st)
  case Nil
  then show ?case by (auto simp: scanned_def)
next
  case (Cons key rest)
  obtain user at where key: "key = (user, at)" by (cases key)
  let ?st = "st\<lparr>ds_max := max (ds_max st) at\<rparr>"
  let ?new = "?st\<lparr>ds_seen := user # ds_seen st, ds_events := ds_events st @ [device_list_update E user], ds_len := ds_len st + 1\<rparr>"
  consider (skip) "\<not> user_is_local E user" | (late) "user_is_local E user" "upper < at"
    | (seen) "user_is_local E user" "\<not> upper < at" "user \<in> set (ds_seen st)"
    | (new) "user_is_local E user" "\<not> upper < at" "user \<notin> set (ds_seen st)"
    by fastforce
  then show ?case
  proof cases
    case skip
    then show ?thesis using Cons by (simp add: key changed_Cons)
  next
    case late
    then show ?thesis using Cons.prems by (auto simp: key scanned_def)
  next
    case seen
    then have "scanned E upper (changed E upper rest) ?st st' \<and> (full \<longleftrightarrow> ds_len st' = SELECT_EDU_LIMIT)"
      using Cons.IH [of ?st] Cons.prems by (simp add: key Let_def scan_ok_def)
    then show ?thesis using seen by (auto simp: key changed_Cons scanned_def)
  next
    case new
    have ok: "scan_ok E ?new" using Cons.prems(2) new by (simp add: scan_ok_def)
    show ?thesis
    proof (cases "SELECT_EDU_LIMIT - 1 \<le> ds_len st")
      case True
      then have "st' = ?new" "full" using Cons.prems(1) new by (auto simp: key Let_def)
      moreover have "ds_len ?new = SELECT_EDU_LIMIT" using True Cons.prems(3) by simp
      ultimately show ?thesis using ok new by (auto simp: key changed_Cons scanned_def)
    next
      case False
      then have "scanned E upper (changed E upper rest) ?new st' \<and> (full \<longleftrightarrow> ds_len st' = SELECT_EDU_LIMIT)"
        using Cons.IH [of ?new] Cons.prems new ok by (simp add: key Let_def)
      then show ?thesis using new by (auto simp: key changed_Cons scanned_def)
    qed
  qed
qed

lemma device_changes_room_all:
  assumes "device_changes_room E upper keys st = (st', False)" and "sorted (map snd keys)"
  shows "changed E upper keys \<subseteq> set (ds_seen st')" "set (ds_seen st) \<subseteq> set (ds_seen st')"
proof -
  have "changed E upper keys \<union> set (ds_seen st) \<subseteq> set (ds_seen st')"
    using assms
  proof (induction keys arbitrary: st)
    case (Cons key rest)
    obtain user at where key: "key = (user, at)" by (cases key)
    have late: "changed E upper (key # rest) = {}" if "upper < at"
      using changed_late [OF Cons.prems(2) that] Cons.prems(2) by (auto simp: key)
    show ?case
    proof (cases "user_is_local E user \<and> upper < at")
      case True
      then show ?thesis using Cons.prems(1) late by (auto simp: key)
    next
      case False
      let ?st = "if user_is_local E user then st\<lparr>ds_max := max (ds_max st) at\<rparr> else st"
      let ?new = "?st\<lparr>ds_seen := user # ds_seen st, ds_events := ds_events st @ [device_list_update E user], ds_len := ds_len st + 1\<rparr>"
      have "device_changes_room E upper rest (if user_is_local E user \<and> user \<notin> set (ds_seen st) then ?new else ?st) = (st', False)"
        using Cons.prems(1) False by (auto simp: key Let_def not_less split: if_splits)
      from Cons.IH [OF this] Cons.prems(2) False show ?thesis
        by (auto simp: key changed_Cons split: if_splits)
    qed
  qed (simp add: changed_def)
  then show "changed E upper keys \<subseteq> set (ds_seen st')" "set (ds_seen st) \<subseteq> set (ds_seen st')" by auto
qed

lemma device_changes_rooms_scan:
  assumes "scan_ok E st" and "ds_len st < SELECT_EDU_LIMIT"
  shows "scanned E upper (\<Union>room \<in> set rooms. changed E upper (room_keys_changed E room since)) st
    (device_changes_rooms E since upper rooms st)"
  using assms
proof (induction rooms arbitrary: st)
  case (Cons room rooms)
  obtain st1 full where first: "device_changes_room E upper (room_keys_changed E room since) st = (st1, full)"
    by (cases "device_changes_room E upper (room_keys_changed E room since) st")
  note scan = device_changes_room_scan [OF first Cons.prems]
  show ?case
  proof (cases full)
    case True
    then show ?thesis using scan first by (auto simp: scanned_def)
  next
    case False
    then have "ds_len st1 < SELECT_EDU_LIMIT" "scan_ok E st1" using scan by (auto simp: scanned_def)
    from Cons.IH [OF this(2,1)] show ?thesis using scan first False by (auto simp: scanned_def)
  qed
qed (auto simp: scanned_def)

lemma device_changes_rooms_all:
  assumes "scan_ok E st" and "ds_len st < SELECT_EDU_LIMIT"
    and "\<forall>room \<in> set rooms. sorted (map snd (room_keys_changed E room since))"
    and "ds_len (device_changes_rooms E since upper rooms st) < SELECT_EDU_LIMIT"
  shows "(\<Union>room \<in> set rooms. changed E upper (room_keys_changed E room since)) \<union> set (ds_seen st) \<subseteq>
    set (ds_seen (device_changes_rooms E since upper rooms st))"
  using assms
proof (induction rooms arbitrary: st)
  case (Cons room rooms)
  obtain st1 full where first: "device_changes_room E upper (room_keys_changed E room since) st = (st1, full)"
    by (cases "device_changes_room E upper (room_keys_changed E room since) st")
  note scan = device_changes_room_scan [OF first Cons.prems(1,2)]
  have full: "\<not> full" using Cons.prems(4) first scan by auto
  then have st1: "ds_len st1 < SELECT_EDU_LIMIT" "scan_ok E st1" using scan by (auto simp: scanned_def)
  have "changed E upper (room_keys_changed E room since) \<union> set (ds_seen st) \<subseteq> set (ds_seen st1)"
    using device_changes_room_all [of E upper "room_keys_changed E room since" st st1] first full Cons.prems(3) by simp
  then show ?case using Cons.IH [OF st1(2,1)] Cons.prems(3,4) first full by auto
qed simp

definition changed_for :: "'r edu_env \<Rightarrow> bytes \<Rightarrow> u64 \<Rightarrow> u64 \<Rightarrow> bytes set" where
  "changed_for E server since upper =
     (\<Union>room \<in> set (server_rooms E server). changed E upper (room_keys_changed E room since))"

lemma select_edus_device_changes_scan:
  assumes "select_edus_device_changes E server since upper most = (changes, most')"
  shows "length changes \<le> SELECT_EDU_LIMIT" "most \<le> most'" "most \<le> upper \<Longrightarrow> most' \<le> upper"
    "set changes \<subseteq> device_list_update E ` changed_for E server since upper"
    "\<forall>room \<in> set (server_rooms E server). sorted (map snd (room_keys_changed E room since)) \<Longrightarrow>
       card (changed_for E server since upper) \<le> SELECT_EDU_LIMIT \<Longrightarrow>
       device_list_update E ` changed_for E server since upper \<subseteq> set changes"
proof -
  let ?st = "\<lparr>ds_seen = [], ds_events = [], ds_len = 0, ds_max = most\<rparr>"
  let ?st' = "device_changes_rooms E since upper (server_rooms E server) ?st"
  let ?users = "changed_for E server since upper"
  have start: "scan_ok E ?st" "ds_len ?st < SELECT_EDU_LIMIT" by (simp_all add: scan_ok_def limit_pos)
  have res: "changes = ds_events ?st'" "most' = ds_max ?st'"
    using assms by (auto simp: select_edus_device_changes_def Let_def)
  have scan: "scanned E upper ?users ?st ?st'"
    unfolding changed_for_def by (rule device_changes_rooms_scan [OF start])
  then have seen: "set changes = device_list_update E ` set (ds_seen ?st')" "set (ds_seen ?st') \<subseteq> ?users"
      "distinct (ds_seen ?st')" "ds_len ?st' = length (ds_seen ?st')" "ds_len ?st' \<le> SELECT_EDU_LIMIT"
    by (auto simp: scanned_def scan_ok_def res)
  show "length changes \<le> SELECT_EDU_LIMIT" "most \<le> most'" "most \<le> upper \<Longrightarrow> most' \<le> upper"
    using scan by (auto simp: scanned_def scan_ok_def res)
  show "set changes \<subseteq> device_list_update E ` ?users" using seen(1,2) by blast
  assume sorted: "\<forall>room \<in> set (server_rooms E server). sorted (map snd (room_keys_changed E room since))"
    and few: "card ?users \<le> SELECT_EDU_LIMIT"
  have "finite (changed E upper keys)" for keys
    by (rule finite_subset [of _ "fst ` set keys"]) (force simp: changed_def)+
  then have fin: "finite ?users" by (auto simp: changed_for_def)
  have "?users \<subseteq> set (ds_seen ?st')"
  proof (cases "ds_len ?st' < SELECT_EDU_LIMIT")
    case True
    then show ?thesis using device_changes_rooms_all [OF start sorted True] by (simp add: changed_for_def)
  next
    case False
    then have "card ?users \<le> card (set (ds_seen ?st'))" using few seen by (simp add: distinct_card)
    then show ?thesis using card_seteq [OF fin seen(2)] by simp
  qed
  then show "device_list_update E ` ?users \<subseteq> set changes" using seen(1) by blast
qed

subsection \<open>Receipts, presence, and all three\<close>

definition receipts_complete :: "'r edu_env \<Rightarrow> bool" where
  "receipts_complete E \<longleftrightarrow> (\<forall>raw user. read_receipt_json E raw user \<noteq> IncompleteReceipt)"

lemma receipts_room_scan:
  assumes "receipts_complete E"
  shows "\<exists>found' num' most'. receipts_room E upper keys found num most = Inr (found', num', most') \<and> most \<le> most' \<and>
    (most \<le> upper \<longrightarrow> most' \<le> upper)"
proof (induction keys arbitrary: found num most)
  case (Cons key rest)
  obtain user at raw where key: "key = (user, at, raw)" by (cases key)
  show ?case
  proof (cases "upper < at")
    case False
    have grow: "\<exists>found' num' most'. receipts_room E upper rest f n (max most at) = Inr (found', num', most') \<and> most \<le> most' \<and>
        (most \<le> upper \<longrightarrow> most' \<le> upper)" for f n
      using Cons.IH [of f n "max most at"] False by auto
    show ?thesis
      using False grow assms
      by (cases "read_receipt_json E raw user") (auto simp: key Let_def receipts_complete_def)
  qed (simp add: key)
qed simp

lemma receipts_rooms_scan:
  assumes "receipts_complete E"
  shows "\<exists>found most'. receipts_rooms E since upper rooms num most = Inr (found, most') \<and> most \<le> most' \<and>
    (most \<le> upper \<longrightarrow> most' \<le> upper)"
proof (induction rooms arbitrary: num most)
  case (Cons room rooms)
  obtain found num1 most1 where first: "receipts_room E upper (readreceipts_since E room since) [] num most = Inr (found, num1, most1)"
      "most \<le> most1" "most \<le> upper \<longrightarrow> most1 \<le> upper"
    using receipts_room_scan [OF assms] by blast
  then show ?case using Cons.IH [of num1 most1] by auto
qed simp

lemma presence_scan_max:
  "most \<le> snd (presence_scan E server upper keys updates most) \<and>
   (most \<le> upper \<longrightarrow> snd (presence_scan E server upper keys updates most) \<le> upper)"
proof (induction keys arbitrary: updates most)
  case (Cons key rest)
  obtain user at raw where key: "key = (user, at, raw)" by (cases key)
  show ?case
  proof (cases "upper < at")
    case False
    have grow: "most \<le> snd (presence_scan E server upper rest u (max most at)) \<and>
        (most \<le> upper \<longrightarrow> snd (presence_scan E server upper rest u (max most at)) \<le> upper)" for u
      using Cons.IH [of "max most at" u] False by auto
    then show ?thesis using False by (cases "presence_of_json E raw user") (auto simp: key Let_def)
  qed (simp add: key)
qed simp

lemma select_edus_receipts_scan:
  assumes "receipts_complete E"
  shows "\<exists>receipts most'. (if on then select_edus_receipts E server since upper most else Inr ([], most)) = Inr (receipts, most') \<and>
    most \<le> most' \<and> (most \<le> upper \<longrightarrow> most' \<le> upper) \<and> length receipts \<le> 1"
proof -
  obtain found most' where "receipts_rooms E since upper (server_rooms E server) 0 most = Inr (found, most')"
      "most \<le> most'" "most \<le> upper \<longrightarrow> most' \<le> upper"
    using receipts_rooms_scan [OF assms] by blast
  then show ?thesis by (cases on) (simp_all add: select_edus_receipts_def)
qed

lemma select_edus_presence_scan:
  "\<exists>presence most'. (if on then select_edus_presence E server since upper most else ([], most)) = (presence, most') \<and>
    most \<le> most' \<and> (most \<le> upper \<longrightarrow> most' \<le> upper) \<and> length presence \<le> 1"
  using presence_scan_max [of most E server upper "presence_since E since" "[]"]
  by (cases "presence_scan E server upper (presence_since E since) [] most") (simp add: select_edus_presence_def)

lemma select_edus_within:
  assumes since: "get_latest_educount dbg R server (srv_db s) = Inr since"
    and upper: "server_counter_current dbg R s = Inr upper" and "since \<le> upper" and "receipts_complete E"
  shows "\<exists>changes rest most. select_edus dbg R E server s = Inr (changes @ rest, most) \<and>
    length (changes @ rest) \<le> EDU_LIMIT \<and> since \<le> most \<and> most \<le> upper \<and>
    (\<exists>seen. select_edus_device_changes E server since upper since = (changes, seen))"
proof -
  obtain changes m1 where changes: "select_edus_device_changes E server since upper since = (changes, m1)"
    by (cases "select_edus_device_changes E server since upper since")
  note scan = select_edus_device_changes_scan [OF changes]
  obtain receipts m2 where receipts: "(if allow_outgoing_read_receipts E then select_edus_receipts E server since upper m1
      else Inr ([], m1)) = Inr (receipts, m2)" "m1 \<le> m2" "m1 \<le> upper \<longrightarrow> m2 \<le> upper" "length receipts \<le> 1"
    using select_edus_receipts_scan [OF assms(4)] by metis
  obtain presence m3 where presence: "(if allow_outgoing_presence E then select_edus_presence E server since upper m2
      else ([], m2)) = (presence, m3)" "m2 \<le> m3" "m2 \<le> upper \<longrightarrow> m3 \<le> upper" "length presence \<le> 1"
    using select_edus_presence_scan by metis
  have "select_edus dbg R E server s = Inr (changes @ (presence @ receipts), m3)"
    by (simp add: select_edus_def since upper assms(3) changes receipts(1) presence(1))
  moreover have "length (changes @ (presence @ receipts)) \<le> EDU_LIMIT"
    using scan(1) receipts(4) presence(4) by (simp add: SELECT_EDU_LIMIT_def EDU_LIMIT_def)
  moreover have "since \<le> m3" "m3 \<le> upper" using scan(2,3) receipts(2,3) presence(2,3) assms(3) by auto
  ultimately show ?thesis using changes by blast
qed

text \<open>
  C11: The selection of ephemeral events for a server succeeds with at most \<open>EDU_LIMIT\<close> of them, however many
  users changed their devices, and the number it will record for the server lies between the last one and the
  current one. When every room lists its changes in ascending order and at most \<open>SELECT_EDU_LIMIT\<close> local users
  changed, the update of each of them is selected, so recording that number passes over nobody.
\<close>

theorem select_edus_complete:
  assumes "get_latest_educount dbg R server (srv_db s) = Inr since" and "server_counter_current dbg R s = Inr upper"
    and "since \<le> upper" and "receipts_complete E"
  shows "\<exists>edus most. select_edus dbg R E server s = Inr (edus, most) \<and> length edus \<le> EDU_LIMIT \<and>
    since \<le> most \<and> most \<le> upper \<and>
    ((\<forall>room \<in> set (server_rooms E server). sorted (map snd (room_keys_changed E room since))) \<longrightarrow>
     card (changed_for E server since upper) \<le> SELECT_EDU_LIMIT \<longrightarrow>
       (\<forall>room \<in> set (server_rooms E server). \<forall>(user, at) \<in> set (room_keys_changed E room since).
          user_is_local E user \<longrightarrow> at \<le> upper \<longrightarrow> device_list_update E user \<in> set edus))"
proof -
  obtain changes rest most seen where edus: "select_edus dbg R E server s = Inr (changes @ rest, most)"
      "length (changes @ rest) \<le> EDU_LIMIT" "since \<le> most" "most \<le> upper"
      "select_edus_device_changes E server since upper since = (changes, seen)"
    using select_edus_within [OF assms(1-4)] by blast
  have "device_list_update E user \<in> set (changes @ rest)"
    if "\<forall>room \<in> set (server_rooms E server). sorted (map snd (room_keys_changed E room since))"
      "card (changed_for E server since upper) \<le> SELECT_EDU_LIMIT"
      "room \<in> set (server_rooms E server)" "(user, at) \<in> set (room_keys_changed E room since)"
      "user_is_local E user" "at \<le> upper" for room user at
  proof -
    have "user \<in> changed_for E server since upper" using that(3-) by (auto simp: changed_for_def changed_def)
    then show ?thesis using select_edus_device_changes_scan(5) [OF edus(5) that(1,2)] by auto
  qed
  then show ?thesis using edus(1-4) by blast
qed

subsection \<open>More changes than fit\<close>



text \<open>
  Ninety-eight users of the room \<open>1\<close> changed their devices at \<open>101\<close> to \<open>198\<close>, one of the room \<open>2\<close> at
  \<open>100\<close>. The rooms are gone through in this order.
\<close>

definition room_changes :: "bytes \<Rightarrow> (bytes \<times> u64) list" where
  "room_changes room =
     (if room = [1] then map (\<lambda>i. ([of_nat i], of_nat (100 + i))) [1..<99] else [([200], 100)])"

definition busy_env :: "unit edu_env" where
  "busy_env =
     \<lparr>server_rooms = \<lambda>_. [[1], [2]],
      room_keys_changed = \<lambda>room since. filter (\<lambda>(_, at). since < at) (room_changes room),
      readreceipts_since = \<lambda>_ _. [], presence_since = \<lambda>_. [], user_is_local = \<lambda>_. True,
      server_sees_user = \<lambda>_ _. True, allow_outgoing_read_receipts = False, allow_outgoing_presence = False,
      device_list_update = \<lambda>user. user, read_receipt_json = \<lambda>_ _. NotAReceipt, receipt_edu = \<lambda>_. [],
      presence_of_json = \<lambda>_ _. None, presence_edu = \<lambda>_. []\<rparr>"

definition busy_server :: "u64 \<Rightarrow> mem_db server" where
  "busy_server most = \<lparr>srv_db = empty_db, srv_count = most\<rparr>"

lemma busy_counts:
  "get_latest_educount False mem_rocks server (srv_db (busy_server most)) = Inr 0"
  "server_counter_current False mem_rocks (busy_server most) = Inr most"
  by (simp_all add: get_latest_educount_def deserialized_u64_def deserialized_def mem_io.get_table mem_contents_def
      busy_server_def empty_db_def server_counter_current_def count_matches_def)

lemma room_1:
  "sorted (map snd (room_changes [1]))" "distinct (map fst (room_changes [1]))" "length (room_changes [1]) = 98"
  "(user, at) \<in> set (room_changes [1]) \<Longrightarrow> 100 < at \<and> at \<le> 198 \<and> user \<noteq> [200]" "last (map snd (room_changes [1])) = 198"
proof -
  have at: "unat (word_of_nat (100 + i) :: u64) = 100 + i" "unat (word_of_nat i :: u8) = i" if "i < 99" for i
    using that by (simp_all only: unat_of_nat) simp_all
  show "sorted (map snd (room_changes [1]))"
    using at(1) by (auto simp: room_changes_def sorted_wrt_map o_def word_le_nat_alt simp del: of_nat_add
        intro!: sorted_wrt_mono_rel [OF _ sorted_wrt_upt])
  have "inj_on (word_of_nat :: nat \<Rightarrow> u8) {1..<99}"
    using at(2) by (intro inj_onI) (metis atLeastLessThan_iff)
  then show "distinct (map fst (room_changes [1]))"
    by (simp add: room_changes_def distinct_map o_def inj_on_def)
  show "length (room_changes [1]) = 98" by (simp add: room_changes_def)
  show "last (map snd (room_changes [1])) = 198" by (simp add: room_changes_def last_map o_def)
  show "100 < at \<and> at \<le> 198 \<and> user \<noteq> [200]" if hit: "(user, at) \<in> set (room_changes [1])"
  proof -
    obtain i where "i < 99" "1 \<le> i" "user = [word_of_nat i]" "at = word_of_nat (100 + i)"
      using hit by (auto simp: room_changes_def)
    then show ?thesis using at [of i] by (auto simp: word_less_nat_alt word_le_nat_alt simp del: of_nat_add)
  qed
qed

lemma room_2: "room \<noteq> [1] \<Longrightarrow> room_changes room = [([200], 100)]"
  by (simp add: room_changes_def)

lemma room_changes_ascending: "sorted (map snd (filter (\<lambda>(_, at). since < at) (room_changes room)))"
  using room_1(1) by (cases "room = [1]") (auto simp: room_2 sorted_filter)

theorem select_edus_complete_witness:
  "\<exists>edus most. select_edus False mem_rocks busy_env [0x61] (busy_server 100) = Inr (edus, most) \<and>
     length edus \<le> EDU_LIMIT \<and> [200] \<in> set edus"
proof -
  have "changed_for busy_env [0x61] 0 100 \<subseteq> {[200]}"
    by (auto simp: changed_for_def changed_def busy_env_def room_2 dest!: room_1(4))
  then have "card (changed_for busy_env [0x61] 0 100) \<le> card {[200 :: u8]}" by (rule card_mono [rotated]) simp
  then have "card (changed_for busy_env [0x61] 0 100) \<le> SELECT_EDU_LIMIT" by (simp add: SELECT_EDU_LIMIT_def EDU_LIMIT_def)
  moreover have "receipts_complete busy_env" by (simp add: receipts_complete_def busy_env_def)
  moreover have "\<forall>room \<in> set (server_rooms busy_env [0x61]). sorted (map snd (room_keys_changed busy_env room 0))"
    using room_changes_ascending [of 0] by (simp add: busy_env_def)
  ultimately obtain edus most where "select_edus False mem_rocks busy_env [0x61] (busy_server 100) = Inr (edus, most)"
      "length edus \<le> EDU_LIMIT"
    and all: "\<forall>room \<in> set (server_rooms busy_env [0x61]). \<forall>(user, at) \<in> set (room_keys_changed busy_env room 0).
       user_is_local busy_env user \<longrightarrow> at \<le> 100 \<longrightarrow> device_list_update busy_env user \<in> set edus"
    using select_edus_complete [OF busy_counts, of 100 busy_env "[0x61]"] by auto
  moreover have "[200] \<in> set edus" using bspec [OF all, of "[2]"] by (simp add: busy_env_def room_2)
  ultimately show ?thesis by blast
qed


end
