(* ===== verification/Sending_Safe.thy ===== *)
theory Sending_Safe
  imports Sending_Run Send_Edus_Props
begin

section \<open>No worker panics\<close>

text \<open>
  The handlers have several assertions and one panic on the way: a failed transaction must have been
  running, an empty transaction is refused, rows must parse, and in debug builds the counter must agree
  with the database and the number recorded for a server must not be ahead of it. In every state of a
  run they hold.
\<close>

definition counts_ok :: "tables \<Rightarrow> u64 \<Rightarrow> bool" where
  "counts_ok m most \<longleftrightarrow>
     m GLOBAL COUNTER = (if most = 0 then None else Some (to_be_bytes most)) \<and>
     (\<forall>server val. m SERVERNAME_EDUCOUNT server = Some val \<longrightarrow> (\<exists>w \<le> most. val = to_be_bytes w))"

lemma counts_ok_same:
  "counts_ok m most \<Longrightarrow> m' GLOBAL = m GLOBAL \<Longrightarrow> m' SERVERNAME_EDUCOUNT = m SERVERNAME_EDUCOUNT \<Longrightarrow> counts_ok m' most"
  by (simp add: counts_ok_def)

lemma count_columns [simp]:
  "GLOBAL \<noteq> SERVERNAME_EDUCOUNT" "SERVERNAME_EDUCOUNT \<noteq> GLOBAL" "GLOBAL \<noteq> SERVERCURRENTEVENT_DATA"
  "GLOBAL \<noteq> SERVERNAMEEVENT_DATA" "SERVERNAME_EDUCOUNT \<noteq> SERVERCURRENTEVENT_DATA" "SERVERNAME_EDUCOUNT \<noteq> SERVERNAMEEVENT_DATA"
  "SERVERNAMEEVENT_DATA \<noteq> GLOBAL" "SERVERCURRENTEVENT_DATA \<noteq> GLOBAL"
  by (simp_all add: GLOBAL_def SERVERNAME_EDUCOUNT_def SERVERCURRENTEVENT_DATA_def SERVERNAMEEVENT_DATA_def)

context rocks_io
begin

lemma counts_readable:
  assumes "counts_ok (srv_tables s) (srv_count s)"
  shows "server_counter_current dbg R s = Inr (srv_count s)"
    "\<exists>w \<le> srv_count s. get_latest_educount dbg R server (srv_db s) = Inr w"
proof -
  have "stored_count R (srv_db s) = Inr (srv_count s)"
    using assms by (auto simp: stored_count_def get_blocking_table counts_ok_def split: if_splits)
  then show "server_counter_current dbg R s = Inr (srv_count s)" by (simp add: server_counter_current_def count_matches_def)
  show "\<exists>w \<le> srv_count s. get_latest_educount dbg R server (srv_db s) = Inr w"
  proof (cases "srv_tables s SERVERNAME_EDUCOUNT server")
    case None
    then show ?thesis by (auto simp: get_latest_educount_def get_table)
  next
    case (Some val)
    then obtain w where "w \<le> srv_count s" "val = to_be_bytes w" using assms by (auto simp: counts_ok_def)
    then show ?thesis using Some by (auto simp: get_latest_educount_def get_table)
  qed
qed

lemma append_edus_total:
  assumes counts: "counts_ok (stab s) (srv_count (sd_srv s))" and "receipts_complete E"
  shows "\<exists>s' edus. append_edus dbg R E server events s = (s', Inr (events @ map Edu edus)) \<and>
    counts_ok (stab s') (srv_count (sd_srv s'))"
proof -
  have srv: "counts_ok (srv_tables (sd_srv s)) (srv_count (sd_srv s))" using counts by (simp add: sender_db_def)
  obtain since where since: "since \<le> srv_count (sd_srv s)" "get_latest_educount dbg R server (srv_db (sd_srv s)) = Inr since"
    using counts_readable(2) [OF srv] by blast
  obtain edus most where edus: "select_edus dbg R E server (sd_srv s) = Inr (edus, most)" "length edus \<le> EDU_LIMIT"
      "most \<le> srv_count (sd_srv s)"
    using select_edus_within [OF since(2) counts_readable(1) [OF srv] since(1) assms(2)] by blast
  obtain db where db: "set_latest_educount dbg R server most (sender_db s) = (db, Inr ())"
      "tab db = put_entry SERVERNAME_EDUCOUNT server (to_be_bytes most) (stab s)"
    using insert_effect [of SERVERNAME_EDUCOUNT server "to_be_bytes most" "sender_db s"] by (auto simp: educount_put)
  have "counts_ok (tab db) (srv_count (sd_srv s))"
    using counts edus(3) by (auto simp: db(2) counts_ok_def put_entry_def)
  then show ?thesis by (auto simp: append_edus_def edus db(1))
qed

lemma select_fresh_total:
  assumes counts: "counts_ok (stab s) (srv_count (sd_srv s))" and "receipts_complete E"
  shows "\<exists>s' edus. select_fresh dbg R E dest events s = (s', Inr (map snd events @ map Edu edus)) \<and>
    counts_ok (stab s') (srv_count (sd_srv s'))"
proof -
  let ?s0 = "set_sender_db (engine_cork (sender_db s)) s"
  obtain s1 where s1: "mark_new_events R events ?s0 = (s1, Inr (map snd events))"
      "stab s1 = activate events (stab s)" "same_worker s s1"
    using mark_new_events_table [of events ?s0] by auto
  then have counts1: "counts_ok (stab s1) (srv_count (sd_srv s1))"
    using counts_ok_same [OF counts, of "stab s1"] by (simp add: activate_other same_worker_def)
  show ?thesis
  proof (cases dest)
    case (Federation server)
    obtain s2 edus where "append_edus dbg R E server (map snd events) s1 = (s2, Inr (map snd events @ map Edu edus))"
        "counts_ok (stab s2) (srv_count (sd_srv s2))"
      using append_edus_total [OF counts1 assms(2)] by blast
    then show ?thesis using s1(1) by (auto simp: select_fresh_def corked_sender Federation)
  qed (use s1 counts1 in \<open>auto simp: select_fresh_def corked_sender intro: exI [of _ "[]"]\<close>)
qed

lemma handle_request_total:
  assumes counts: "counts_ok (stab s) (srv_count (sd_srv s))" and "receipts_complete E"
    and rows: "rows_ok I most (stab s)" and wf: "wf_dest I (msg_dest m)"
  shows "\<exists>s'. handle_request dbg I R E N now m s = (s', Inr ()) \<and> counts_ok (stab s') (srv_count (sd_srv s'))"
proof -
  let ?d = "msg_dest m" and ?new = "[(msg_queue_id m, msg_event m)]"
  obtain s1 allow retry where current: "select_events_current N now ?d (msg_revive m) s = (s1, allow, retry)"
    by (cases "select_events_current N now ?d (msg_revive m) s")
  have same: "stab s1 = stab s" "srv_count (sd_srv s1) = srv_count (sd_srv s)"
    using current by (auto simp: select_events_current_def split: option.splits transaction_status.splits if_splits)
  let ?s0 = "set_sender_db (engine_cork (sender_db s1)) s1"
  obtain s2 events where chosen: "(if retry then select_retry I R ?d ?s0 else select_fresh dbg R E ?d ?new ?s0) = (s2, Inr events)"
      "counts_ok (stab s2) (srv_count (sd_srv s2))"
  proof (cases retry)
    case True
    obtain items where "parse_rows I (under (get_prefix ?d) (stab s SERVERCURRENTEVENT_DATA)) = Inr items"
      using queue_parses [OF rows wf] by blast
    then show ?thesis using that [of ?s0] True counts by (simp add: select_retry_table same)
  next
    case False
    then show ?thesis using that select_fresh_total [of ?s0 E ?d ?new] counts assms(2) by (auto simp: same)
  qed
  show ?thesis
    using chosen counts
    by (auto simp: handle_request_def select_events_def current corked_sender same push_transaction_ok(2))
qed

lemma handle_response_total:
  assumes counts: "counts_ok (stab s) (srv_count (sd_srv s))" and rows: "rows_ok I most (stab s)" and wf: "wf_dest I dest"
    and "in_flight (statuses s dest)"
  shows "\<exists>s'. handle_response dbg I R now dest answered s = (s', Inr ()) \<and> counts_ok (stab s') (srv_count (sd_srv s'))"
proof (cases answered)
  case True
  obtain items where "parse_rows I (under (get_prefix dest) (stab s SERVERNAMEEVENT_DATA)) = Inr items"
    using queue_parses [OF rows wf] by blast
  then obtain s' where s': "handle_response_ok dbg I R dest s = (s', Inr ())"
    using handle_response_ok_total [OF parse_rows_take] by blast
  then have "counts_ok (stab s') (srv_count (sd_srv s'))"
    by (cases rule: handle_response_ok_cases) (use counts_ok_same [OF counts, of "stab s'"] in \<open>auto simp: activate_other\<close>)
  then show ?thesis using s' True by (simp add: handle_response_def)
next
  case False
  then show ?thesis
    using handle_response_err_ok [OF assms(4), of now] counts by (auto simp: handle_response_def)
qed

end

subsection \<open>Every state of a run\<close>

context rocks_io
begin

lemma request_keys_counts:
  assumes "request_keys dbg R requests s = (s', Inr keys)" and "counts_ok (srv_tables s) (srv_count s)"
    and "\<forall>r \<in> set requests. wf_event (fst r)"
  shows "counts_ok (srv_tables s') (srv_count s')"
  using assms
proof (induction requests arbitrary: s keys)
  case (Cons r requests)
  obtain event dest where r: "r = (event, dest)" by (cases r)
  obtain s1 key keys' where step: "request_key dbg R (event, dest) s = (s1, Inr key)"
      "request_keys dbg R requests s1 = (s', Inr keys')"
    using Cons.prems(1) by (auto simp: st_bind_Inr_iff r)
  have "counts_ok (srv_tables s1) (srv_count s1)"
  proof (cases event)
    case (Edu val)
    then obtain n where "server_counter_next dbg R s = (s1, Inr n)" using step(1) by (auto simp: st_bind_Inr_iff)
    note drew = counter_next_table [OF this]
    have "n \<noteq> 0" using drew(1) by auto
    moreover have "w \<le> n" if "w \<le> srv_count s" for w using that drew(1) by simp
    ultimately show ?thesis using Cons.prems(2) by (simp add: drew(2,3) counts_ok_def put_entry_def) blast
  qed (use step(1) Cons.prems in \<open>auto simp: r\<close>)
  then show ?case using Cons.IH [OF step(2)] Cons.prems(3) by simp
qed simp

lemma queue_each_counts:
  assumes run: "queue_each dbg R hash requests s = (s', Inr ())" and counts: "counts_ok (ntab s) (srv_count (sn_srv s))"
    and wf: "\<forall>(dest, event) \<in> set requests. wf_event event"
  shows "counts_ok (ntab s') (srv_count (sn_srv s'))"
proof -
  define rs where "rs = map (\<lambda>(dest, event). (event, dest)) requests"
  let ?s0 = "set_sending_db (engine_cork (sending_db s)) s"
  obtain srv keys s2 where srv: "queue_requests dbg R rs (sn_srv ?s0) = (srv, Inr keys)"
    and s2: "dispatch_each dbg hash (zip requests keys) (?s0\<lparr>sn_srv := srv\<rparr>) = (s2, Inr ())"
    and s': "s' = set_sending_db (engine_uncork (sending_db s2)) s2"
    using run by (auto simp: queue_each_def corked_sending rs_def [symmetric] split: prod.splits sum.splits)
  obtain srv1 keys1 where keys: "request_keys dbg R rs (sn_srv ?s0) = (srv1, Inr keys1)"
    and stored_rows: "(case map_insert_batch R SERVERNAMEEVENT_DATA (zip keys1 (map (event_value \<circ> fst) rs)) (srv_db srv1) of
         (db, Inl e) \<Rightarrow> (srv1\<lparr>srv_db := db\<rparr>, Inl (SrvDb e))
       | (db, Inr _) \<Rightarrow> (srv1\<lparr>srv_db := db\<rparr>, Inr keys1)) = (srv, Inr keys)"
    using srv unfolding queue_requests_def st_bind_Inr_iff by blast
  have counts1: "counts_ok (srv_tables srv1) (srv_count srv1)"
    by (rule request_keys_counts [OF keys]) (use counts wf in \<open>auto simp: rs_def sending_db_def set_sending_db_def\<close>)
  have "counts_ok (srv_tables srv) (srv_count srv)"
    using insert_batch_table [of SERVERNAMEEVENT_DATA "zip keys1 (map (event_value \<circ> fst) rs)" "srv_db srv1"] stored_rows
      counts_ok_same [OF counts1, of "srv_tables srv"] by auto
  moreover have "sn_srv s2 = srv" using dispatch_each_ok [OF s2] by auto
  ultimately show ?thesis by (simp add: s' sending_db_def set_sending_db_def)
qed

lemma receive_total:
  assumes ok: "in_order I hash s" and counts: "counts_ok (ntab s) (srv_count (sn_srv s))" and E: "receipts_complete E"
    and i: "i < length (sn_workers s)" and m: "sn_channels s ! i = m # ms"
  shows "\<exists>s'. on_worker i (handle_request dbg I R E N now m) (s\<lparr>sn_channels := (sn_channels s)[i := ms]\<rparr>) = (s', Inr ()) \<and>
    counts_ok (ntab s') (srv_count (sn_srv s'))"
proof -
  let ?w = "\<lparr>sd_srv = sn_srv s, statuses = fst (sn_workers s ! i), futures = snd (sn_workers s ! i)\<rparr>"
  have "wf_dest I (msg_dest m)" using service_okD(5) [OF ok i, of m] m by (simp add: msg_ok_def)
  then obtain w where "handle_request dbg I R E N now m ?w = (w, Inr ())" "counts_ok (stab w) (srv_count (sd_srv w))"
    using handle_request_total [of ?w E I "srv_count (sn_srv s)" m N now] counts E service_okD(4) [OF ok]
    by (auto simp: sending_db_def)
  then show ?thesis by (simp add: on_worker_def sending_db_def sender_db_def)
qed

lemma answer_total:
  assumes ok: "in_order I hash s" and counts: "counts_ok (ntab s) (srv_count (sn_srv s))"
    and i: "i < length (sn_workers s)" and j: "j < length (snd (sn_workers s ! i))" "snd (sn_workers s ! i) ! j = (dest, events)"
  shows "\<exists>s'. on_worker i (\<lambda>w. handle_response dbg I R now dest answered (take_future j w)) s = (s', Inr ()) \<and>
    counts_ok (ntab s') (srv_count (sn_srv s'))"
proof -
  let ?w = "take_future j \<lparr>sd_srv = sn_srv s, statuses = fst (sn_workers s ! i), futures = snd (sn_workers s ! i)\<rparr>"
  have future: "(dest, events) \<in> set (snd (sn_workers s ! i))" using j nth_mem by force
  note worker = service_okD(7) [OF ok i]
  have "dest \<in> fst ` set (snd (sn_workers s ! i))" using future by force
  then have "wf_dest I dest" "in_flight (fst (sn_workers s ! i) dest)"
    using worker_okD(3) [OF worker future] worker by (auto simp: worker_ok_def)
  then obtain w where "handle_response dbg I R now dest answered ?w = (w, Inr ())" "counts_ok (stab w) (srv_count (sd_srv w))"
    using handle_response_total [of ?w I "srv_count (sn_srv s)" dest now answered] counts service_okD(4) [OF ok]
    by (auto simp: sending_db_def)
  then show ?thesis by (simp add: on_worker_def sending_db_def sender_db_def)
qed

lemma sending_step_counts:
  assumes step: "sending_step dbg I R E N hash s lbl s'" and lbl: "label_ok I lbl"
    and ok: "in_order I hash s" and counts: "counts_ok (ntab s) (srv_count (sn_srv s))" and E: "receipts_complete E"
  shows "counts_ok (ntab s') (srv_count (sn_srv s'))"
  using step
proof (cases rule: sending_step.cases)
  case (queue requests)
  then show ?thesis using queue_each_counts [OF queue(2) counts] lbl by auto
next
  case (flush server revive)
  then show ?thesis using dispatch_msg_ok(2) [OF flush(2)] counts by (simp add: sending_db_def)
next
  case (receive i m ms now)
  then show ?thesis using receive_total [OF ok counts E receive(2,4), of N now] by auto
next
  case (answer i j dest events now answered)
  then show ?thesis using answer_total [OF ok counts answer(2-4), of now answered] by auto
next
  case (clean dest db)
  then show ?thesis
    using delete_all_table [of dest "sending_db s"] counts_ok_same [OF counts, of "tab db"]
    by (auto simp: sending_db_def set_sending_db_def)
qed

lemma run_counts:
  assumes "sending_run dbg I R E N hash order srv n lbls s"
    and start: "left_over I N (srv_count srv) (srv_tables srv)" "\<And>xs. mset (order xs) = mset xs" "0 < n"
    and counts: "counts_ok (srv_tables srv) (srv_count srv)" and E: "receipts_complete E"
  shows "counts_ok (ntab s) (srv_count (sn_srv s))"
  using assms(1)
proof induction
  case (start s)
  obtain s0 where "start_workers dbg I R N hash order [0..<n] (new_sending n srv) = (s0, Inr ())"
      "srv_count (sn_srv s0) = srv_count srv" "fewer_active (ntab s0) (srv_tables srv)"
    using start_in_order [OF assms(2-4), of hash] by blast
  then show ?case
    using start counts_ok_same [OF counts, of "ntab s"] fewer_activeD(1) [of "ntab s" "srv_tables srv"] by auto
next
  case (step lbls s lbl s')
  then show ?case using sending_step_counts [OF step.hyps(3,2) run_in_order [OF step.hyps(1) start] step.IH E] by simp
qed

end

end
