(* ===== verification/Sending_Theorems.thy ===== *)
theory Sending_Theorems
  imports Sending_Safe
begin

section \<open>What the sending service guarantees\<close>

text \<open>
  The theorems on runs of the sending service, and two states it does not leave by itself. The database
  answers without I/O errors, and the run starts on what an earlier run may have left: rows that parse, no key
  bound to two values in the two tables, and, where \<open>startup_netburst\<close> is off, no active rows. Rows beyond
  \<open>startup_netburst_keep\<close> are deleted by the start.
\<close>

definition start_ok ::
  "('d \<Rightarrow> tables) \<Rightarrow> id_checks \<Rightarrow> sender_config \<Rightarrow>
     ((destination \<times> sending_event list) list \<Rightarrow> (destination \<times> sending_event list) list) \<Rightarrow> 'd server \<Rightarrow> nat \<Rightarrow> bool"
where
  "start_ok contents I N order srv n \<longleftrightarrow>
     left_over I N (srv_count srv) (contents (eng_db (srv_db srv))) \<and> (\<forall>xs. mset (order xs) = mset xs) \<and> 0 < n"

lemma start_okD:
  assumes "start_ok contents I N order srv n"
  shows "left_over I N (srv_count srv) (contents (eng_db (srv_db srv)))"
    "mset (order xs) = mset xs" "0 < n"
  using assms by (auto simp: start_ok_def)

subsection \<open>Runs\<close>

text \<open>
  C6: The service is started with \<open>startup_netburst\<close> on, or on a database without active rows. Then in every state
  of a run, every worker has at most one transaction per destination under way, and has one exactly for the
  destinations whose status says so. A transaction has every active event of its destination, which belongs to
  this worker, and a destination without a status has no active event. A start with the burst off on left-over
  active rows, which no transaction carries, is outside of this theorem.
\<close>

theorem sending_invariant:
  assumes "rocks_io R contents ahead" and "start_ok contents I N order srv n"
    and "sending_run dbg I R E N hash order srv n lbls s" and "i < length (sn_workers s)"
  shows "case sn_workers s ! i of (st, fut) \<Rightarrow>
    distinct (map fst fut) \<and> (\<forall>dest. in_flight (st dest) \<longleftrightarrow> dest \<in> fst ` set fut) \<and>
    (\<forall>(dest, events) \<in> set fut. shard_id hash dest (length (sn_workers s)) = i \<and>
       (\<forall>key val. contents (eng_db (sending_db s)) SERVERCURRENTEVENT_DATA key = Some val \<longrightarrow> prefix (get_prefix dest) key \<longrightarrow>
          (\<exists>event \<in> set events. parse_servercurrentevent I key val = Inr (dest, event)))) \<and>
    (\<forall>dest. shard_id hash dest (length (sn_workers s)) = i \<longrightarrow> wf_dest I dest \<longrightarrow> st dest = None \<longrightarrow>
       (\<forall>key. prefix (get_prefix dest) key \<longrightarrow> contents (eng_db (sending_db s)) SERVERCURRENTEVENT_DATA key = None))"
proof -
  note ok = rocks_io.run_in_order [OF assms(1,3) start_okD [OF assms(2)]]
  note worker = service_okD(7) [OF ok assms(4)]
  obtain st fut where w: "sn_workers s ! i = (st, fut)" by (cases "sn_workers s ! i")
  show ?thesis
    using worker unfolding w worker_ok_def carries_Nil unfolding carries_def by auto
qed

text \<open>
  C4: No event is lost. An event that a call of this run queued for a destination is in the tables, as a row that reads back
  as this event for this destination, until it was part of a transaction that the destination answered, or until
  the rows of the destination were deleted on purpose.
\<close>

theorem sending_loses_nothing:
  assumes "rocks_io R contents ahead" and "start_ok contents I N order srv n"
    and "sending_run dbg I R E N hash order srv n (before @ Queued requests # after) s" and "(dest, event) \<in> set requests"
  shows "(\<exists>key. stored (contents (eng_db (sending_db s))) key (event_value event) \<and>
      parse_servercurrentevent I key (event_value event) = Inr (dest, event)) \<or>
    (\<exists>i events. Answered i dest events True \<in> set after \<and> event \<in> set events) \<or> Cleaned dest \<in> set after"
  by (rule rocks_io.run_keeps [OF assms(1,3) start_okD [OF assms(2)] refl assms(4)])

text \<open>
  C7: No worker panics. In every state of a run, in debug and release builds, the worker whose channel holds a
  message handles it, and every outcome of a transaction under way is handled: rows parse, no transaction is
  empty, no failure arrives for a destination that was not being sent to, and the counters agree.
\<close>

theorem sending_never_panics:
  assumes "rocks_io R contents ahead" and "start_ok contents I N order srv n"
    and "counts_ok (contents (eng_db (srv_db srv))) (srv_count srv)" and "receipts_complete E"
    and "sending_run dbg I R E N hash order srv n lbls s" and "i < length (sn_workers s)"
  shows "(\<forall>m ms. sn_channels s ! i = m # ms \<longrightarrow>
      (\<exists>s'. on_worker i (handle_request dbg I R E N now m) (s\<lparr>sn_channels := (sn_channels s)[i := ms]\<rparr>) = (s', Inr ()))) \<and>
    (\<forall>j < length (snd (sn_workers s ! i)).
      \<exists>s'. on_worker i (\<lambda>w. handle_response dbg I R now (fst (snd (sn_workers s ! i) ! j)) answered (take_future j w)) s = (s', Inr ()))"
proof -
  note start = start_okD [OF assms(2)]
  note ok = rocks_io.run_in_order [OF assms(1,5) start]
  note counts = rocks_io.run_counts [OF assms(1,5) start assms(3,4)]
  have "\<exists>s'. on_worker i (handle_request dbg I R E N now m) (s\<lparr>sn_channels := (sn_channels s)[i := ms]\<rparr>) = (s', Inr ())"
    if "sn_channels s ! i = m # ms" for m ms
    using rocks_io.receive_total [OF assms(1) ok counts assms(4,6) that] by blast
  moreover have "\<exists>s'. on_worker i (\<lambda>w. handle_response dbg I R now (fst (snd (sn_workers s ! i) ! j)) answered (take_future j w)) s = (s', Inr ())"
    if "j < length (snd (sn_workers s ! i))" for j
    using rocks_io.answer_total [OF assms(1) ok counts assms(6) that, of _ _ dbg now answered]
    by (cases "snd (sn_workers s ! i) ! j") auto
  ultimately show ?thesis by blast
qed

text \<open>
  C5: A destination that answers is sent everything. From any state of a run in which a transaction to it is under
  way, as long as it answers, its next transactions are the rows of its queue in the order of their keys, at most
  \<open>DEQUEUE_LIMIT\<close> at a time and none empty; the last answer leaves it idle with no row in either table.
\<close>

theorem destination_drained:
  assumes "rocks_io R contents ahead" and "start_ok contents I N order srv n"
    and "sending_run dbg I R E N hash order srv n lbls s"
    and "i < length (sn_workers s)" and "(dest, events) \<in> set (snd (sn_workers s ! i))"
  shows "\<exists>items txns s'. parse_rows I (under (get_prefix dest) (contents (eng_db (sending_db s)) SERVERNAMEEVENT_DATA)) = Inr items \<and>
    sending_run dbg I R E N hash order srv n (lbls @ map (\<lambda>events. Answered i dest events True) (events # txns)) s' \<and>
    concat txns = map snd items \<and> (\<forall>t \<in> set txns. t \<noteq> [] \<and> length t \<le> DEQUEUE_LIMIT) \<and>
    fst (sn_workers s' ! i) dest = None \<and>
    (\<forall>key val. prefix (get_prefix dest) key \<longrightarrow> \<not> stored (contents (eng_db (sending_db s'))) key val)"
proof -
  note start = start_okD [OF assms(2)]
  note ok = rocks_io.run_in_order [OF assms(1,3) start]
  have "wf_dest I dest" using worker_okD(3) [OF service_okD(7) [OF ok assms(4)] assms(5)] .
  then obtain items where "parse_rows I (under (get_prefix dest) (contents (eng_db (sending_db s)) SERVERNAMEEVENT_DATA)) = Inr items"
    using rocks_io.queue_parses [OF assms(1) service_okD(4) [OF ok]] by blast
  then show ?thesis using rocks_io.drained [OF assms(1,3) start assms(4,5)] by blast
qed

subsection \<open>A destination that failed\<close>

definition retries :: "sender_config \<Rightarrow> duration \<Rightarrow> duration \<Rightarrow> msg \<Rightarrow> bool" where
  "retries N now at m \<longleftrightarrow>
     msg_revive m \<or> is_Appservice (msg_dest m) \<or> from_secs (sender_retry_backoff_limit N) \<le> now - at"

lemma backoff_over: "from_secs most \<le> elapsed \<Longrightarrow> \<not> continue_exponential_backoff_secs least most elapsed tries"
  by (simp add: continue_exponential_backoff_secs_def continue_exponential_backoff_def)

context rocks_io
begin

lemma handle_request_failed:
  assumes "statuses s (msg_dest m) = Some (Failed tries at)" and "retries N now at m"
    and items: "parse_rows I (under (get_prefix (msg_dest m)) (stab s SERVERCURRENTEVENT_DATA)) = Inr items"
  defines "s1 \<equiv> set_sender_db (engine_uncork (engine_cork (sender_db s))) (set_status (msg_dest m) (Some (Retrying tries)) s)"
  shows "handle_request dbg I R E N now m s =
    (if items \<noteq> [] then s1\<lparr>futures := futures s @ [(msg_dest m, map snd items)]\<rparr>
     else set_status (msg_dest m) None s1, Inr ())"
proof -
  have go: "\<not> (\<not> msg_revive m \<and> continue_exponential_backoff_secs (sender_timeout N) (sender_retry_backoff_limit N) (now - at) tries \<and>
      \<not> is_Appservice (msg_dest m))"
    using assms(2) backoff_over unfolding retries_def by blast
  then have "select_events_current N now (msg_dest m) (msg_revive m) s = (set_status (msg_dest m) (Some (Retrying tries)) s, True, True)"
    by (simp only: select_events_current_def assms(1) option.case transaction_status.case if_False)
  from handle_request_retry [OF this, where I = I and E = E] show ?thesis by (simp add: items s1_def)
qed

end

text \<open>
  C10: A destination that failed is tried again. When a message for it arrives after the limit of the backoff, or
  asks to skip the backoff, or the destination is an appservice, the worker sends its active events again, all of
  them, in the order of their keys and nothing else, and keeps the count of its tries.
\<close>

theorem failed_destination_retried:
  assumes "rocks_io R contents ahead" and "start_ok contents I N order srv n"
    and "sending_run dbg I R E N hash order srv n lbls s" and "i < length (sn_workers s)"
    and "sn_channels s ! i = m # ms" and "fst (sn_workers s ! i) (msg_dest m) = Some (Failed tries at)" and "retries N now at m"
    and "under (get_prefix (msg_dest m)) (contents (eng_db (sending_db s)) SERVERCURRENTEVENT_DATA) \<noteq> []"
  shows "\<exists>items s'. parse_rows I (under (get_prefix (msg_dest m)) (contents (eng_db (sending_db s)) SERVERCURRENTEVENT_DATA)) = Inr items \<and>
    sending_step dbg I R E N hash s (Received i m) s' \<and>
    sn_workers s' ! i = ((fst (sn_workers s ! i))(msg_dest m \<mapsto> Retrying tries),
      snd (sn_workers s ! i) @ [(msg_dest m, map snd items)]) \<and>
    contents (eng_db (sending_db s')) = contents (eng_db (sending_db s))"
proof -
  note ok = rocks_io.run_in_order [OF assms(1,3) start_okD [OF assms(2)]]
  let ?w = "\<lparr>sd_srv = sn_srv s, statuses = fst (sn_workers s ! i), futures = snd (sn_workers s ! i)\<rparr>"
  have wf: "wf_dest I (msg_dest m)" using service_okD(5) [OF ok assms(4), of m] assms(5) by (simp add: msg_ok_def)
  obtain items where items: "parse_rows I (under (get_prefix (msg_dest m)) (contents (eng_db (sending_db s)) SERVERCURRENTEVENT_DATA)) = Inr items"
    using rocks_io.queue_parses [OF assms(1) service_okD(4) [OF ok] wf] by blast
  have some: "items \<noteq> []" using parse_rows_length [OF items] assms(8) by auto
  have status: "statuses ?w (msg_dest m) = Some (Failed tries at)" using assms(6) by simp
  have "parse_rows I (under (get_prefix (msg_dest m)) (contents (eng_db (sender_db ?w)) SERVERCURRENTEVENT_DATA)) = Inr items"
    using items by (simp add: sending_db_def)
  note handled = rocks_io.handle_request_failed [OF assms(1) status assms(7) this, where dbg = dbg and E = E]
  let ?s' = "fst (on_worker i (handle_request dbg I R E N now m) (s\<lparr>sn_channels := (sn_channels s)[i := ms]\<rparr>))"
  have s': "on_worker i (handle_request dbg I R E N now m) (s\<lparr>sn_channels := (sn_channels s)[i := ms]\<rparr>) = (?s', Inr ())"
      "sn_workers ?s' ! i = ((fst (sn_workers s ! i))(msg_dest m \<mapsto> Retrying tries), snd (sn_workers s ! i) @ [(msg_dest m, map snd items)])"
      "contents (eng_db (sending_db ?s')) = contents (eng_db (sending_db s))"
    using assms(4) some by (simp_all add: on_worker_def handled sending_db_def set_sender_db_def set_status_def sender_db_def)
  have "sending_step dbg I R E N hash s (Received i m) ?s'"
    by (rule sending_step.receive [OF assms(4) _ assms(5) s'(1)]) (use service_okD(2) [OF ok] assms(4) in simp)
  then show ?thesis using items s'(2,3) by blast
qed

text \<open>
  C38: A failed destination without active rows, for example after a transaction of ephemeral events only, does not
  send the event that wakes it. The message leaves it idle: no transaction is started, and the event of the message
  stays in the queue until some other message for this destination comes.
\<close>

theorem failed_destination_stalls:
  assumes "rocks_io R contents ahead" and "statuses s (msg_dest m) = Some (Failed tries at)" and "retries N now at m"
    and "under (get_prefix (msg_dest m)) (contents (eng_db (sender_db s)) SERVERCURRENTEVENT_DATA) = []"
  shows "\<exists>s'. handle_request dbg I R E N now m s = (s', Inr ()) \<and> statuses s' = (statuses s)(msg_dest m := None) \<and>
    futures s' = futures s \<and> contents (eng_db (sender_db s')) = contents (eng_db (sender_db s))"
proof -
  have "parse_rows I (under (get_prefix (msg_dest m)) (contents (eng_db (sender_db s)) SERVERCURRENTEVENT_DATA)) = Inr []"
    by (simp add: assms(4))
  from rocks_io.handle_request_failed [OF assms(1-3) this, where dbg = dbg and E = E] show ?thesis by simp
qed

subsection \<open>A write that fails\<close>

text \<open>
  C39: When the write that marks an event as active fails, the worker has already recorded that the destination is
  being sent to, but starts no transaction: no answer will ever clear the record, and every later message for the
  destination is dropped without effect.
\<close>

theorem failed_write_stops_destination:
  assumes "\<And>db. \<exists>db' e. mark_as_active R [(msg_queue_id m, msg_event m)] db = (db', Inl e)" and "statuses s (msg_dest m) = None"
  shows "\<exists>s'. handle_request dbg I R E N now m s = (s', Inr ()) \<and> statuses s' (msg_dest m) = Some Running \<and>
    futures s' = futures s \<and>
    (\<forall>later m'. msg_dest m' = msg_dest m \<longrightarrow> handle_request dbg I R E N later m' s' = (s', Inr ()))"
proof -
  have "\<forall>db. \<exists>p. mark_as_active R [(msg_queue_id m, msg_event m)] db = (fst p, Inl (snd p))"
    using assms(1) by fastforce
  then obtain mark where mark: "mark_as_active R [(msg_queue_id m, msg_event m)] db = (fst (mark db), Inl (snd (mark db)))" for db
    by metis
  have skip: "handle_request dbg I R E N later m' s' = (s', Inr ())"
    if "statuses s' (msg_dest m') = Some Running" for later m' s'
    using that by (simp add: handle_request_def select_events_def select_events_current_def)
  have "\<exists>s'. handle_request dbg I R E N now m s = (s', Inr ()) \<and> statuses s' (msg_dest m) = Some Running \<and> futures s' = futures s"
    using assms(2)
    by (simp add: handle_request_def select_events_def select_events_current_def corked_sender select_fresh_def
        mark_new_events_def mark fatal_def)
  then show ?thesis using skip by metis
qed

subsection \<open>A run\<close>

text \<open>An appservice with one active and one queued event, left by an earlier run.\<close>

definition run_ids :: id_checks where
  "run_ids = \<lparr>parses_user_id = \<lambda>_. True, parses_server_name = \<lambda>_. True\<rparr>"

definition run_config :: sender_config where
  "run_config = \<lparr>sender_timeout = 180, sender_retry_backoff_limit = 86400, startup_netburst_on = True,
     startup_netburst_keep = -1, sender_workers = 1\<rparr>"

definition run_dest :: destination where
  "run_dest = Appservice [0x61]"

definition run_key :: "u64 \<Rightarrow> bytes" where
  "run_key k = get_prefix run_dest @ to_be_bytes k"

definition run_server :: "mem_db server" where
  "run_server = \<lparr>srv_db = empty_db\<lparr>eng_db := [((SERVERCURRENTEVENT_DATA, run_key 1), [0x31]),
     ((SERVERNAMEEVENT_DATA, run_key 2), [0x32]), ((GLOBAL, COUNTER), to_be_bytes 2)]\<rparr>, srv_count = 2\<rparr>"

lemma run_rows: "1 \<le> k \<Longrightarrow> k \<le> 2 \<Longrightarrow> val \<noteq> [] \<Longrightarrow> row_for run_ids 2 run_dest (Edu val) (run_key k) val"
  by (auto simp: row_for_def run_dest_def run_key_def run_ids_def)

lemma run_tables:
  "mem_contents (eng_db (srv_db run_server)) SERVERCURRENTEVENT_DATA = [run_key 1 \<mapsto> [0x31]]"
  "mem_contents (eng_db (srv_db run_server)) SERVERNAMEEVENT_DATA = [run_key 2 \<mapsto> [0x32]]"
  "mem_contents (eng_db (srv_db run_server)) GLOBAL = [COUNTER \<mapsto> to_be_bytes 2]"
  "mem_contents (eng_db (srv_db run_server)) SERVERNAME_EDUCOUNT = Map.empty"
  by (auto simp: run_server_def mem_contents_def fun_eq_iff)

lemma run_start_ok: "start_ok mem_contents run_ids run_config id run_server 1"
proof -
  have "run_key 1 \<noteq> run_key 2" by (simp add: run_key_def)
  then have "single_valued {(key, val). stored (mem_contents (eng_db (srv_db run_server))) key val}"
    by (auto simp: single_valued_def stored_def run_tables split: if_splits)
  moreover have "rows_ok run_ids 2 (mem_contents (eng_db (srv_db run_server)))"
    using run_rows [of 1 "[0x31]"] run_rows [of 2 "[0x32]"]
    by (fastforce simp: rows_ok_def stored_def run_tables split: if_splits)
  ultimately show ?thesis
    by (simp add: start_ok_def left_over_def run_config_def) (simp add: run_server_def)
qed

lemma run_counts_ok: "counts_ok (mem_contents (eng_db (srv_db run_server))) (srv_count run_server)"
  by (simp add: counts_ok_def run_tables) (simp add: run_server_def)

definition run_started :: "mem_db sending" where
  "run_started = \<lparr>sn_srv = run_server, sn_channels = [[]], sn_closed = False,
     sn_workers = [([run_dest \<mapsto> Running], [(run_dest, [Edu [0x31]])])]\<rparr>"

lemma entries_single: "entries [k \<mapsto> v] = [(k, v)]"
  by (simp add: entries_def)

lemma run_start: "sending_run True run_ids mem_rocks busy_env run_config (\<lambda>_. 0) id run_server 1 [] run_started"
proof (rule sending_run.start)
  have rows: "active_requests mem_rocks (srv_db run_server) = Some [(run_key 1, [0x31])]"
    by (simp add: active_requests_def mem_io.scan_all run_tables entries_single ok_items_def)
  show "start_workers True run_ids mem_rocks run_config (\<lambda>_. 0) id [0..<1] (new_sending 1 run_server) = (run_started, Inr ())"
    using row_for_parse_row [OF run_rows [of 1 "[0x31]"]]
    by (simp add: new_sending_def on_worker_def startup_netburst_def rows run_config_def txn_entry_def shard_id_def push_transaction_def
        run_started_def set_sender_db_def sender_db_def set_status_def)
qed

lemma run_queue:
  "\<exists>s m. sending_run True run_ids mem_rocks busy_env run_config (\<lambda>_. 0) id run_server 1 [Queued [(run_dest, Edu [0x33])]] s \<and>
     sn_channels s = [[m]] \<and> msg_dest m = run_dest \<and> sn_workers s = sn_workers run_started \<and>
     mem_contents (eng_db (sending_db s)) SERVERCURRENTEVENT_DATA = [run_key 1 \<mapsto> [0x31]]"
proof -
  let ?srv = "run_server\<lparr>srv_db := engine_cork (srv_db run_server)\<rparr>"
  have "count_matches True mem_rocks ?srv"
    using mem_io.counts_readable(1) [of ?srv True] run_counts_ok by (simp add: server_counter_current_def split: if_splits)
  then obtain srv1 where srv1: "server_counter_next True mem_rocks ?srv = (srv1, Inr 3)"
    using mem.server_next_ok [OF mem_io_ok, of True ?srv] by (auto simp: run_server_def)
  obtain srv2 where srv2: "queue_requests True mem_rocks [(Edu [0x33], run_dest)] ?srv = (srv2, Inr [run_key 3])"
    using mem_io.insert_batch_table [of SERVERNAMEEVENT_DATA "[(run_key 3, [0x33])]" "srv_db srv1"]
    by (auto simp: queue_requests_def srv1 run_key_def)
  have table: "mem_contents (eng_db (srv_db srv2)) SERVERCURRENTEVENT_DATA = [run_key 1 \<mapsto> [0x31]]"
    using mem_io.queue_requests_table(2) [OF srv2, of run_ids SERVERCURRENTEVENT_DATA] run_rows [of 1 "[0x31]"]
    by (simp add: wf_request_def run_tables row_for_def)
  let ?m = "\<lparr>msg_dest = run_dest, msg_event = Edu [0x33], msg_queue_id = run_key 3, msg_revive = False\<rparr>"
  let ?s = "run_started\<lparr>sn_srv := srv2\<lparr>srv_db := engine_uncork (srv_db srv2)\<rparr>, sn_channels := [[?m]]\<rparr>"
  have "queue_each True mem_rocks (\<lambda>_. 0) [(run_dest, Edu [0x33])] run_started = (?s, Inr ())"
    using srv2 by (simp add: queue_each_def corked_sending run_started_def sending_db_def set_sending_db_def dispatch_msg_def shard_id_def)
  then have "sending_run True run_ids mem_rocks busy_env run_config (\<lambda>_. 0) id run_server 1 ([] @ [Queued [(run_dest, Edu [0x33])]]) ?s"
    using run_rows [of 1 "[0x31]"] by (intro sending_run.step [OF run_start] sending_step.queue) (auto simp: row_for_def)
  then show ?thesis using table by (intro exI [of _ ?s] exI [of _ ?m]) (simp add: sending_db_def)
qed

lemma run_failed:
  "\<exists>s m. sending_run True run_ids mem_rocks busy_env run_config (\<lambda>_. 0) id run_server 1
       [Queued [(run_dest, Edu [0x33])], Answered 0 run_dest [Edu [0x31]] False] s \<and>
     sn_channels s = [[m]] \<and> msg_dest m = run_dest \<and> sn_workers s = [([run_dest \<mapsto> Failed 1 0], [])] \<and>
     mem_contents (eng_db (sending_db s)) SERVERCURRENTEVENT_DATA = [run_key 1 \<mapsto> [0x31]]"
proof -
  obtain s m where s: "sending_run True run_ids mem_rocks busy_env run_config (\<lambda>_. 0) id run_server 1 [Queued [(run_dest, Edu [0x33])]] s"
      "sn_channels s = [[m]]" "msg_dest m = run_dest" "sn_workers s = sn_workers run_started"
      "mem_contents (eng_db (sending_db s)) SERVERCURRENTEVENT_DATA = [run_key 1 \<mapsto> [0x31]]"
    using run_queue by blast
  let ?s = "s\<lparr>sn_workers := [([run_dest \<mapsto> Failed 1 0], [])]\<rparr>"
  have "sending_step True run_ids mem_rocks busy_env run_config (\<lambda>_. 0) s (Answered 0 run_dest [Edu [0x31]] False) ?s"
    by (rule sending_step.answer [where j = 0 and now = 0])
      (simp_all add: s(4) run_started_def on_worker_def handle_response_def handle_response_err_def take_future_def set_status_def)
  then have "sending_run True run_ids mem_rocks busy_env run_config (\<lambda>_. 0) id run_server 1
      ([Queued [(run_dest, Edu [0x33])]] @ [Answered 0 run_dest [Edu [0x31]] False]) ?s"
    by (intro sending_run.step [OF s(1)]) simp_all
  then show ?thesis using s by (intro exI [of _ ?s] exI [of _ m]) (simp add: sending_db_def)
qed

subsection \<open>Witnesses\<close>

theorem sending_invariant_witness:
  "\<exists>s. sending_run True run_ids mem_rocks busy_env run_config (\<lambda>_. 0) id run_server 1 [] s \<and>
     (case sn_workers s ! 0 of (st, fut) \<Rightarrow> distinct (map fst fut) \<and> (\<forall>dest. in_flight (st dest) \<longleftrightarrow> dest \<in> fst ` set fut))"
  using sending_invariant [OF mem_io.rocks_io_axioms run_start_ok run_start, of 0] run_start
  by (intro exI [of _ run_started]) (simp add: run_started_def)

theorem sending_loses_nothing_witness:
  "\<exists>s key. sending_run True run_ids mem_rocks busy_env run_config (\<lambda>_. 0) id run_server 1 [Queued [(run_dest, Edu [0x33])]] s \<and>
     stored (mem_contents (eng_db (sending_db s))) key [0x33] \<and> parse_servercurrentevent run_ids key [0x33] = Inr (run_dest, Edu [0x33])"
proof -
  obtain s where s: "sending_run True run_ids mem_rocks busy_env run_config (\<lambda>_. 0) id run_server 1 [Queued [(run_dest, Edu [0x33])]] s"
    using run_queue by blast
  then show ?thesis
    using sending_loses_nothing [where before = "[]" and after = "[]", OF mem_io.rocks_io_axioms run_start_ok] by fastforce
qed

theorem sending_never_panics_witness:
  "\<exists>s'. on_worker 0 (\<lambda>w. handle_response True run_ids mem_rocks 0 run_dest False (take_future 0 w)) run_started = (s', Inr ())"
proof -
  have "receipts_complete busy_env" by (simp add: receipts_complete_def busy_env_def)
  from sending_never_panics [OF mem_io.rocks_io_axioms run_start_ok run_counts_ok this run_start, of 0 0 False]
  show ?thesis by (simp add: run_started_def)
qed

theorem destination_drained_witness:
  "\<exists>txns s'. sending_run True run_ids mem_rocks busy_env run_config (\<lambda>_. 0) id run_server 1
       (map (\<lambda>events. Answered 0 run_dest events True) ([Edu [0x31]] # txns)) s' \<and>
     concat txns = [Edu [0x32]] \<and> fst (sn_workers s' ! 0) run_dest = None"
proof -
  have "parse_rows run_ids (under (get_prefix run_dest) (mem_contents (eng_db (sending_db run_started)) SERVERNAMEEVENT_DATA)) = Inr [(run_key 2, Edu [0x32])]"
    using row_for_parse_row [OF run_rows [of 2 "[0x32]"]]
    by (simp add: run_started_def sending_db_def run_tables under_def entries_single run_key_def)
  then show ?thesis
    using destination_drained [OF mem_io.rocks_io_axioms run_start_ok run_start, of 0 run_dest "[Edu [0x31]]"]
    by (auto simp: run_started_def)
qed

theorem failed_destination_retried_witness:
  "\<exists>s m s'. sending_step True run_ids mem_rocks busy_env run_config (\<lambda>_. 0) s (Received 0 m) s' \<and>
     sn_workers s' ! 0 = ([run_dest \<mapsto> Retrying 1], [(run_dest, [Edu [0x31]])])"
proof -
  obtain s m where s: "sending_run True run_ids mem_rocks busy_env run_config (\<lambda>_. 0) id run_server 1
       [Queued [(run_dest, Edu [0x33])], Answered 0 run_dest [Edu [0x31]] False] s"
      "sn_channels s = [[m]]" "msg_dest m = run_dest" "sn_workers s = [([run_dest \<mapsto> Failed 1 0], [])]"
      "mem_contents (eng_db (sending_db s)) SERVERCURRENTEVENT_DATA = [run_key 1 \<mapsto> [0x31]]"
    using run_failed by blast
  have under: "under (get_prefix run_dest) [run_key 1 \<mapsto> [0x31]] = [(run_key 1, [0x31])]"
    by (simp add: under_def entries_single run_key_def)
  have parse: "parse_row run_ids (run_key 1, [0x31]) = Inr (run_key 1, Edu [0x31], run_dest)"
    by (rule row_for_parse_row [OF run_rows]) simp_all
  have "retries run_config 0 0 m" by (simp add: retries_def s(3) run_dest_def)
  from failed_destination_retried [OF mem_io.rocks_io_axioms run_start_ok s(1) _ _ _ this, of 0 "[]" 1]
  show ?thesis by (simp add: s under parse) blast
qed

definition stalled :: "mem_db sender" where
  "stalled = \<lparr>sd_srv = sample_server, statuses = [run_dest \<mapsto> Failed 1 0], futures = []\<rparr>"

definition run_msg :: msg where
  "run_msg = \<lparr>msg_dest = run_dest, msg_event = Edu [0x33], msg_queue_id = run_key 3, msg_revive = False\<rparr>"

lemma mem_contents_Nil: "mem_contents [] c = Map.empty"
  by (simp add: mem_contents_def fun_eq_iff)

theorem failed_destination_stalls_witness:
  "\<exists>s'. handle_request True run_ids mem_rocks busy_env run_config 0 run_msg stalled = (s', Inr ()) \<and>
     statuses s' run_dest = None \<and> futures s' = []"
proof -
  have "under (get_prefix (msg_dest run_msg)) (mem_contents (eng_db (sender_db stalled)) SERVERCURRENTEVENT_DATA) = []"
    by (simp add: stalled_def sample_server_def empty_db_def mem_contents_Nil under_def entries_def)
  moreover have "retries run_config 0 0 run_msg" by (simp add: retries_def run_msg_def run_dest_def)
  ultimately show ?thesis
    using failed_destination_stalls [OF mem_io.rocks_io_axioms, of stalled run_msg 1 0 run_config 0 True run_ids busy_env]
    by (auto simp: stalled_def run_msg_def)
qed

definition writes_fail :: "(mem_db, mem_it) rocksdb" where
  "writes_fail = mem_rocks\<lparr>write_batch := \<lambda>_ _. Inl \<lparr>re_kind = KIncomplete, re_text = []\<rparr>\<rparr>"

theorem failed_write_stops_destination_witness:
  "\<exists>s'. handle_request True run_ids writes_fail busy_env run_config 0 run_msg (stalled\<lparr>statuses := Map.empty\<rparr>) = (s', Inr ()) \<and>
     statuses s' run_dest = Some Running \<and> futures s' = [] \<and>
     handle_request True run_ids writes_fail busy_env run_config 86400 run_msg s' = (s', Inr ())"
proof -
  have "\<exists>db' e. mark_as_active writes_fail [(msg_queue_id run_msg, msg_event run_msg)] db = (db', Inl e)" for db
    by (simp add: mark_as_active_def txn_execute_def writes_fail_def run_msg_def run_key_def run_dest_def txn_insert_def txn_remove_def
        txn_new_def engine_write_def)
  from failed_write_stops_destination [OF this, of "stalled\<lparr>statuses := Map.empty\<rparr>" True run_ids busy_env run_config 0]
  show ?thesis by (auto simp: stalled_def run_msg_def)
qed

end
