(* ===== verification/Rate_Limit.thy ===== *)
theory Rate_Limit
  imports Backoff "HOL-Library.AList" "HOL-Library.Log_Nat"
begin

section \<open>Rate limits\<close>

text \<open>
  \<open>ratelimit.rs\<close> and \<open>auth/attempts.rs\<close> of \<open>phantom-service\<close>: one token bucket per key, and the limits on
  logins, wrong passwords and registrations built on it. An \<open>Instant\<close> is its distance from some moment in
  nanoseconds. A table lists its buckets once per key; the order in which a hash map goes through them is
  the argument \<open>order\<close>.
\<close>

subsection \<open>Floating point\<close>

text \<open>
  An \<open>f64\<close> is the rational number it stands for, rounded after every operation to 53 significant bits,
  ties to even. Infinities, NaN and numbers below \<open>2 ^ -1022\<close> do not arise from the operations here.
\<close>

type_synonym f64 = rat

definition round_even :: "rat \<Rightarrow> int" where
  "round_even q =
     (let f = \<lfloor>q\<rfloor>; r = q - of_int f in
      if r < 1 / 2 \<or> r = 1 / 2 \<and> even f then f else f + 1)"

text \<open>\<open>e\<close> with \<open>2 ^ e \<le> x < 2 ^ (e + 1)\<close>, for a positive \<open>x\<close>.\<close>

definition exponent :: "rat \<Rightarrow> int" where
  "exponent x =
     (case quotient_of x of (n, d) \<Rightarrow>
        let e = int (floorlog 2 (nat n)) - int (floorlog 2 (nat d)) in
        if 2 powi e \<le> x then e else e - 1)"

definition f64_round :: "rat \<Rightarrow> f64" where
  "f64_round x =
     (if x = 0 then 0
      else let ulp = 2 powi (exponent \<bar>x\<bar> - 52) in of_int (round_even (x / ulp)) * ulp)"

definition f64_add :: "f64 \<Rightarrow> f64 \<Rightarrow> f64" where
  "f64_add x y = f64_round (x + y)"

definition f64_sub :: "f64 \<Rightarrow> f64 \<Rightarrow> f64" where
  "f64_sub x y = f64_round (x - y)"

definition f64_mul :: "f64 \<Rightarrow> f64 \<Rightarrow> f64" where
  "f64_mul x y = f64_round (x * y)"

definition f64_div :: "f64 \<Rightarrow> f64 \<Rightarrow> f64" where
  "f64_div x y = f64_round (x / y)"

definition mul_add :: "f64 \<Rightarrow> f64 \<Rightarrow> f64 \<Rightarrow> f64" where
  "mul_add x y z = f64_round (x * y + z)"

definition as_secs_f64 :: "duration \<Rightarrow> f64" where
  "as_secs_f64 d = f64_add (f64_round (of_nat (d div 10 ^ 9))) (f64_div (of_nat (d mod 10 ^ 9)) (10 ^ 9))"

definition try_from_secs_f64 :: "f64 \<Rightarrow> duration option" where
  "try_from_secs_f64 secs =
     (if secs < 0 \<or> 2 ^ 64 \<le> secs then None
      else let nanos = nat (round_even (secs * 10 ^ 9)) in if DURATION_MAX < nanos then None else Some nanos)"

subsection \<open>Buckets\<close>

type_synonym instant = nat

type_synonym bucket = "instant \<times> f64"

record limit =
  rate :: f64
  burst_tokens :: f64
  message :: string

datatype limit_error = LimitExceeded "duration option" string | LimitPanic

definition DEFAULT_MAP_CAP :: nat where
  "DEFAULT_MAP_CAP = 2 ^ 16"

definition is_disabled :: "limit \<Rightarrow> bool" where
  "is_disabled L \<longleftrightarrow> rate L \<le> 0 \<or> burst_tokens L \<le> 0"

definition refill :: "instant \<Rightarrow> f64 \<Rightarrow> limit \<Rightarrow> instant \<Rightarrow> f64" where
  "refill since tokens L now = min (mul_add (as_secs_f64 (now - since)) (rate L) tokens) (burst_tokens L)"

definition retry_after :: "limit \<Rightarrow> f64 \<Rightarrow> duration option" where
  "retry_after L tokens =
     (if rate L \<le> 0 then None
      else let secs = max (f64_div (f64_sub 1 tokens) (rate L)) 0
           in try_from_secs_f64 (f64_div (of_int \<lceil>f64_mul secs 1000\<rceil>) 1000))"

definition exceeded :: "limit \<Rightarrow> f64 \<Rightarrow> limit_error" where
  "exceeded L tokens = LimitExceeded (retry_after L tokens) (message L)"

definition debit :: "bucket \<Rightarrow> limit \<Rightarrow> instant \<Rightarrow> bucket \<times> (limit_error, unit) result" where
  "debit b L now =
     (case b of (since, tokens) \<Rightarrow>
        let new_tokens = refill since tokens L now in
        if new_tokens < 1 then (b, Inl (exceeded L new_tokens))
        else ((now, f64_sub new_tokens 1), Inr ()))"

text \<open>The sweep of \<open>evict\<close>: what stays, and the oldest of it.\<close>

fun sweep ::
  "limit \<Rightarrow> instant \<Rightarrow> ('k \<times> bucket) list \<Rightarrow> ('k \<times> instant) option \<Rightarrow> ('k \<times> bucket) list \<times> ('k \<times> instant) option"
where
  "sweep L now [] oldest = ([], oldest)"
| "sweep L now ((key, since, tokens) # rest) oldest =
     (if mul_add (as_secs_f64 (now - since)) (rate L) tokens < burst_tokens L then
        let oldest = (case oldest of
            None \<Rightarrow> Some (key, since)
          | Some (_, oldest_at) \<Rightarrow> if since < oldest_at then Some (key, since) else oldest)
        in case sweep L now rest oldest of (kept, oldest) \<Rightarrow> ((key, since, tokens) # kept, oldest)
      else sweep L now rest oldest)"

definition evict ::
  "(('k \<times> bucket) list \<Rightarrow> ('k \<times> bucket) list) \<Rightarrow> limit \<Rightarrow> instant \<Rightarrow> nat \<Rightarrow> ('k \<times> bucket) list \<Rightarrow> ('k \<times> bucket) list"
where
  "evict order L now cap buckets =
     (case sweep L now (order buckets) None of
        (kept, Some (oldest, _)) \<Rightarrow> if cap \<le> length kept then AList.delete oldest kept else kept
      | (kept, None) \<Rightarrow> kept)"

definition check_at ::
  "bool \<Rightarrow> (('k \<times> bucket) list \<Rightarrow> ('k \<times> bucket) list) \<Rightarrow> 'k \<Rightarrow> limit \<Rightarrow> instant \<Rightarrow> nat \<Rightarrow> ('k \<times> bucket) list \<Rightarrow>
     ('k \<times> bucket) list \<times> (limit_error, unit) result"
where
  "check_at dbg order key L now cap buckets =
     (if dbg \<and> \<not> (0 < cap \<and> length buckets \<le> cap) then (buckets, Inl LimitPanic)
      else
        (case map_of buckets key of
           Some b \<Rightarrow> (case debit b L now of (b', r) \<Rightarrow> (AList.update key b' buckets, r))
         | None \<Rightarrow>
             let buckets = (if cap \<le> length buckets then evict order L now cap buckets else buckets)
             in case debit (now, burst_tokens L) L now of (b', r) \<Rightarrow> (AList.update key b' buckets, r)))"

definition check_limit ::
  "bool \<Rightarrow> (('k \<times> bucket) list \<Rightarrow> ('k \<times> bucket) list) \<Rightarrow> 'k \<Rightarrow> limit \<Rightarrow> instant \<Rightarrow> ('k \<times> bucket) list \<Rightarrow>
     ('k \<times> bucket) list \<times> (limit_error, unit) result"
where
  "check_limit dbg order key L now buckets = check_at dbg order key L now DEFAULT_MAP_CAP buckets"

definition refund :: "'k \<Rightarrow> limit \<Rightarrow> ('k \<times> bucket) list \<Rightarrow> ('k \<times> bucket) list" where
  "refund key L buckets =
     (case map_of buckets key of
        None \<Rightarrow> buckets
      | Some (since, tokens) \<Rightarrow> AList.update key (since, min (f64_add tokens 1) (burst_tokens L)) buckets)"

subsection \<open>Attempts\<close>

text \<open>An IPv4 address mapped into IPv6 counts as the IPv4 address.\<close>

datatype ip_addr = V4 "32 word" | V6 "128 word"

fun to_canonical :: "ip_addr \<Rightarrow> ip_addr" where
  "to_canonical (V4 a) = V4 a"
| "to_canonical (V6 a) = (if drop_bit 32 a = 0xFFFF then V4 (ucast a) else V6 a)"

record auth_config =
  login_rc_per_second :: f64
  login_rc_burst_count :: u32
  login_rc_failed_per_second :: f64
  login_rc_failed_burst_count :: u32
  registration_rc_per_second :: f64
  registration_rc_burst_count :: u32

record attempt_tables =
  login :: "(ip_addr \<times> bucket) list"
  failed :: "(bytes \<times> bucket) list"
  session_failed :: "((bytes \<times> bytes) \<times> bucket) list"
  registration :: "(ip_addr \<times> bucket) list"

datatype attempt_key = Account bytes | Session bytes bytes

record hash_orders =
  ip_order :: "(ip_addr \<times> bucket) list \<Rightarrow> (ip_addr \<times> bucket) list"
  user_order :: "(bytes \<times> bucket) list \<Rightarrow> (bytes \<times> bucket) list"
  session_order :: "((bytes \<times> bytes) \<times> bucket) list \<Rightarrow> ((bytes \<times> bytes) \<times> bucket) list"

definition make_limit :: "f64 \<Rightarrow> u32 \<Rightarrow> string \<Rightarrow> limit" where
  "make_limit r b text = \<lparr>rate = r, burst_tokens = of_nat (unat b), message = text\<rparr>"

definition login_limit :: "auth_config \<Rightarrow> limit" where
  "login_limit auth =
     make_limit (login_rc_per_second auth) (login_rc_burst_count auth) ''Too many login attempts from this address.''"

definition failed_limit :: "auth_config \<Rightarrow> limit" where
  "failed_limit auth =
     make_limit (login_rc_failed_per_second auth) (login_rc_failed_burst_count auth)
       ''Too many failed login attempts for this account.''"

definition registration_limit :: "auth_config \<Rightarrow> limit" where
  "registration_limit auth =
     make_limit (registration_rc_per_second auth) (registration_rc_burst_count auth)
       ''Too many registrations from this address.''"

definition check_login ::
  "bool \<Rightarrow> hash_orders \<Rightarrow> ip_addr \<Rightarrow> limit \<Rightarrow> instant \<Rightarrow> attempt_tables \<Rightarrow> attempt_tables \<times> (limit_error, unit) result"
where
  "check_login dbg H client L now t =
     (if is_disabled L then (t, Inr ())
      else case check_limit dbg (ip_order H) (to_canonical client) L now (login t) of (b, r) \<Rightarrow> (t\<lparr>login := b\<rparr>, r))"

definition check_password ::
  "bool \<Rightarrow> hash_orders \<Rightarrow> bytes \<Rightarrow> limit \<Rightarrow> instant \<Rightarrow> attempt_tables \<Rightarrow> attempt_tables \<times> (limit_error, unit) result"
where
  "check_password dbg H user L now t =
     (if is_disabled L then (t, Inr ())
      else case check_limit dbg (user_order H) user L now (failed t) of (b, r) \<Rightarrow> (t\<lparr>failed := b\<rparr>, r))"

definition refund_password :: "bytes \<Rightarrow> limit \<Rightarrow> attempt_tables \<Rightarrow> attempt_tables" where
  "refund_password user L t = (if is_disabled L then t else t\<lparr>failed := refund user L (failed t)\<rparr>)"

definition check_session_password ::
  "bool \<Rightarrow> hash_orders \<Rightarrow> bytes \<Rightarrow> bytes \<Rightarrow> limit \<Rightarrow> instant \<Rightarrow> attempt_tables \<Rightarrow>
     attempt_tables \<times> (limit_error, unit) result"
where
  "check_session_password dbg H user device L now t =
     (if is_disabled L then (t, Inr ())
      else
        case check_limit dbg (session_order H) (user, device) L now (session_failed t) of
          (b, r) \<Rightarrow> (t\<lparr>session_failed := b\<rparr>, r))"

definition refund_session_password :: "bytes \<Rightarrow> bytes \<Rightarrow> limit \<Rightarrow> attempt_tables \<Rightarrow> attempt_tables" where
  "refund_session_password user device L t =
     (if is_disabled L then t else t\<lparr>session_failed := refund (user, device) L (session_failed t)\<rparr>)"

definition reserve_registration ::
  "bool \<Rightarrow> hash_orders \<Rightarrow> ip_addr \<Rightarrow> limit \<Rightarrow> instant \<Rightarrow> attempt_tables \<Rightarrow> attempt_tables \<times> (limit_error, unit) result"
where
  "reserve_registration dbg H client L now t =
     (if is_disabled L then (t, Inr ())
      else
        case check_limit dbg (ip_order H) (to_canonical client) L now (registration t) of
          (b, r) \<Rightarrow> (t\<lparr>registration := b\<rparr>, r))"

definition refund_registration :: "ip_addr \<Rightarrow> limit \<Rightarrow> attempt_tables \<Rightarrow> attempt_tables" where
  "refund_registration client L t =
     (if is_disabled L then t else t\<lparr>registration := refund (to_canonical client) L (registration t)\<rparr>)"

text \<open>
  The service: the operations with the limits of the configuration. An attempt that was let in is a value
  that gives its token back when it is dropped, unless it was marked: a wrong password, an account that
  was created.
\<close>

definition service_check_login ::
  "bool \<Rightarrow> hash_orders \<Rightarrow> auth_config \<Rightarrow> ip_addr \<Rightarrow> instant \<Rightarrow> attempt_tables \<Rightarrow>
     attempt_tables \<times> (limit_error, unit) result"
where
  "service_check_login dbg H auth client now t = check_login dbg H client (login_limit auth) now t"

definition service_check_password ::
  "bool \<Rightarrow> hash_orders \<Rightarrow> auth_config \<Rightarrow> bytes \<Rightarrow> instant \<Rightarrow> attempt_tables \<Rightarrow>
     attempt_tables \<times> (limit_error, attempt_key) result"
where
  "service_check_password dbg H auth user now t =
     st_bind (check_password dbg H user (failed_limit auth) now t) (\<lambda>_ t. (t, Inr (Account user)))"

definition service_check_session_password ::
  "bool \<Rightarrow> hash_orders \<Rightarrow> auth_config \<Rightarrow> bytes \<Rightarrow> bytes \<Rightarrow> instant \<Rightarrow> attempt_tables \<Rightarrow>
     attempt_tables \<times> (limit_error, attempt_key) result"
where
  "service_check_session_password dbg H auth user device now t =
     st_bind (check_session_password dbg H user device (failed_limit auth) now t) (\<lambda>_ t. (t, Inr (Session user device)))"

definition service_reserve_registration ::
  "bool \<Rightarrow> hash_orders \<Rightarrow> auth_config \<Rightarrow> ip_addr \<Rightarrow> instant \<Rightarrow> attempt_tables \<Rightarrow>
     attempt_tables \<times> (limit_error, ip_addr) result"
where
  "service_reserve_registration dbg H auth client now t =
     st_bind (reserve_registration dbg H client (registration_limit auth) now t) (\<lambda>_ t. (t, Inr client))"

fun drop_attempt :: "auth_config \<Rightarrow> attempt_key \<Rightarrow> bool \<Rightarrow> attempt_tables \<Rightarrow> attempt_tables" where
  "drop_attempt auth key True t = t"
| "drop_attempt auth (Account user) False t = refund_password user (failed_limit auth) t"
| "drop_attempt auth (Session user device) False t = refund_session_password user device (failed_limit auth) t"

definition drop_registration :: "auth_config \<Rightarrow> ip_addr \<Rightarrow> bool \<Rightarrow> attempt_tables \<Rightarrow> attempt_tables" where
  "drop_registration auth client committed t =
     (if committed then t else refund_registration client (registration_limit auth) t)"

end
