(* ===== verification/Rate_Limit_Props.thy ===== *)
theory Rate_Limit_Props
  imports Rate_Limit "HOL-Library.Multiset"
begin

section \<open>What the rate limits promise\<close>

text \<open>
  Rounding never carries a number across a whole number, so a bucket always holds between none and all
  of its tokens, whatever the rate. The tables stay within their cap, and attempts at one moment are let
  in exactly as long as tokens are left.
\<close>

subsection \<open>Rounding\<close>

lemma round_even_le: "q \<le> of_int k \<Longrightarrow> round_even q \<le> k"
proof -
  assume le: "q \<le> of_int k"
  then have "\<lfloor>q\<rfloor> \<le> k" by (simp add: floor_le_iff)
  moreover have "round_even q \<le> \<lfloor>q\<rfloor> + 1" by (simp add: round_even_def Let_def)
  moreover have "round_even q = k" if "\<lfloor>q\<rfloor> = k"
  proof -
    have "q = of_int k" using le that by (metis floor_correct order_antisym)
    then show ?thesis by (simp add: round_even_def)
  qed
  ultimately show ?thesis by linarith
qed

lemma round_even_ge: "of_int k \<le> q \<Longrightarrow> k \<le> round_even q"
proof -
  assume "of_int k \<le> q"
  then have "k \<le> \<lfloor>q\<rfloor>" by (simp add: le_floor_iff)
  then show ?thesis by (simp add: round_even_def Let_def)
qed

lemma exponent_le:
  assumes "0 < x"
  shows "2 powi exponent x \<le> x"
proof -
  obtain n d where nd: "quotient_of x = (n, d)" by (cases "quotient_of x")
  have d: "0 < d" using quotient_of_denom_pos [OF nd] .
  have x: "x = of_int n / of_int d" using quotient_of_div [OF nd] .
  then have n: "0 < n" using assms d by (simp add: zero_less_divide_iff)
  let ?fn = "floorlog 2 (nat n)" and ?fd = "floorlog 2 (nat d)"
  have "2 ^ (?fn - 1) \<le> nat n" "nat d < 2 ^ ?fd" "0 < ?fn"
    using floorlog_bounds [of "nat n" 2] floorlog_bounds [of "nat d" 2] n d by (auto simp: floorlog_def)
  then have low: "(2 :: rat) ^ (?fn - 1) \<le> of_int n" and high: "of_int d \<le> (2 :: rat) ^ ?fd"
    using n d by (simp_all add: le_nat_iff nat_less_iff)
  have "2 powi (int ?fn - int ?fd - 1) = (2 :: rat) ^ (?fn - 1) / 2 ^ ?fd"
    using \<open>0 < ?fn\<close> by (simp add: power_int_diff of_nat_diff power_diff)
  also have "\<dots> \<le> of_int n / of_int d"
    using low high n d by (intro frac_le) auto
  also have "\<dots> = x" using x by simp
  finally show ?thesis by (simp add: exponent_def nd Let_def)
qed

text \<open>A whole number up to \<open>2 ^ 52\<close> is a multiple of the last place of every smaller number.\<close>

lemma ulp_divides:
  assumes "e \<le> 52"
  shows "\<exists>k. of_nat n = of_int k * (2 :: rat) powi (e - 52)"
proof -
  have "(2 :: rat) powi (52 - e) * 2 powi (e - 52) = 1" by (simp flip: power_int_add)
  moreover have "(2 :: rat) powi (52 - e) = of_int (2 ^ nat (52 - e))" using assms by (simp add: power_int_def)
  ultimately show ?thesis
    by (intro exI [of _ "int n * 2 ^ nat (52 - e)"]) (simp add: mult.assoc)
qed

lemma exponent_small: "0 < x \<Longrightarrow> x \<le> 2 ^ 52 \<Longrightarrow> exponent x \<le> 52"
proof (rule ccontr)
  assume "0 < x" "x \<le> 2 ^ 52" "\<not> exponent x \<le> 52"
  then have "(2 :: rat) powi 52 < 2 powi exponent x" by (intro power_int_strict_increasing) auto
  then show False using exponent_le [OF \<open>0 < x\<close>] \<open>x \<le> 2 ^ 52\<close> by simp
qed

lemma f64_round_le:
  assumes "0 \<le> x" and "x \<le> of_nat n" and "n \<le> 2 ^ 52"
  shows "f64_round x \<le> of_nat n"
proof (cases "x = 0")
  case False
  let ?ulp = "(2 :: rat) powi (exponent x - 52)"
  have pos: "0 < ?ulp" by simp
  have "of_nat n \<le> (2 :: rat) ^ 52" using assms(3) by (metis of_nat_le_iff of_nat_numeral of_nat_power)
  then have "exponent x \<le> 52" using exponent_small [of x] False assms(1,2) by simp
  then obtain k where k: "of_nat n = of_int k * ?ulp" using ulp_divides by blast
  then have "x / ?ulp \<le> of_int k" using assms(2) pos by (simp add: pos_divide_le_eq)
  then have "of_int (round_even (x / ?ulp)) \<le> (of_int k :: rat)" using round_even_le of_int_le_iff by blast
  then have "of_int (round_even (x / ?ulp)) * ?ulp \<le> of_int k * ?ulp" using pos by (simp add: mult_right_mono)
  then show ?thesis using False assms(1) k by (simp add: f64_round_def Let_def)
qed (simp add: f64_round_def)

lemma f64_round_ge:
  assumes "of_nat n \<le> x" and "n \<le> 2 ^ 52"
  shows "of_nat n \<le> f64_round x"
proof (cases "x = 0")
  case False
  then have x: "0 < x" using assms(1) by (metis of_nat_0_le_iff order_le_less order_trans)
  let ?ulp = "(2 :: rat) powi (exponent x - 52)"
  have pos: "0 < ?ulp" by simp
  obtain k where k: "of_nat n \<le> of_int k * ?ulp" "of_int k \<le> x / ?ulp"
  proof (cases "exponent x \<le> 52")
    case True
    then obtain k where "of_nat n = of_int k * ?ulp" using ulp_divides by blast
    then show ?thesis using that [of k] assms(1) pos by (simp add: pos_le_divide_eq)
  next
    case False
    have "of_nat n \<le> (2 :: rat) ^ 52" using assms(2) by (metis of_nat_le_iff of_nat_numeral of_nat_power)
    moreover have "1 \<le> ?ulp" using False power_int_increasing [of 0 "exponent x - 52" "2 :: rat"] by simp
    moreover have "2 ^ 52 * ?ulp \<le> x"
      using exponent_le [OF x] power_int_add [of "2 :: rat" 52 "exponent x - 52"] by simp
    ultimately show ?thesis using that [of "2 ^ 52"] pos by (simp add: pos_le_divide_eq)
  qed
  then have "of_int k \<le> (of_int (round_even (x / ?ulp)) :: rat)" using round_even_ge of_int_le_iff by blast
  then have "of_int k * ?ulp \<le> of_int (round_even (x / ?ulp)) * ?ulp" using pos by (simp add: mult_right_mono)
  with k(1) have "of_nat n \<le> of_int (round_even (x / ?ulp)) * ?ulp" by (rule order_trans)
  then show ?thesis using False x by (simp add: f64_round_def Let_def)
qed (use assms in \<open>simp add: f64_round_def\<close>)

lemma f64_round_nonneg: "0 \<le> x \<Longrightarrow> 0 \<le> f64_round x"
  using f64_round_ge [of 0 x] by simp

lemma f64_round_nat: "n \<le> 2 ^ 52 \<Longrightarrow> f64_round (of_nat n) = of_nat n"
  using f64_round_le [of "of_nat n" n] f64_round_ge [of n "of_nat n"] by simp

lemma f64_round_numeral: "numeral k \<le> (2 :: nat) ^ 52 \<Longrightarrow> f64_round (numeral k) = numeral k"
  using f64_round_nat [of "numeral k"] by simp

lemma f64_round_01: "f64_round 0 = 0" "f64_round 1 = 1"
  using f64_round_nat [of 0] f64_round_nat [of 1] by simp_all

lemma round_even_int: "round_even (of_int k) = k"
  using round_even_le [of "of_int k" k] round_even_ge [of k "of_int k"] by simp

lemma round_even_numeral: "round_even (numeral k) = numeral k"
  using round_even_int [of "numeral k"] by simp

lemma as_secs_f64_zero: "as_secs_f64 0 = 0"
  by (simp add: as_secs_f64_def f64_add_def f64_div_def f64_round_def)

lemmas f64_exact = f64_add_def f64_sub_def f64_mul_def f64_div_def mul_add_def as_secs_f64_zero
  f64_round_numeral f64_round_01 round_even_numeral

subsection \<open>One bucket\<close>

text \<open>A limit as the configuration builds it: some refill, a whole number of tokens.\<close>

definition limit_ok :: "limit \<Rightarrow> nat \<Rightarrow> bool" where
  "limit_ok L b \<longleftrightarrow> 0 \<le> rate L \<and> burst_tokens L = of_nat b \<and> 0 < b \<and> b \<le> 2 ^ 52"

definition bucket_ok :: "limit \<Rightarrow> bucket \<Rightarrow> bool" where
  "bucket_ok L bk \<longleftrightarrow> 0 \<le> snd bk \<and> snd bk \<le> burst_tokens L"

lemma limit_okD:
  assumes "limit_ok L b"
  shows "0 \<le> rate L" and "burst_tokens L = of_nat b" and "1 \<le> b" and "b \<le> 2 ^ 52"
  using assms by (auto simp: limit_ok_def)

lemma as_secs_f64_nonneg: "0 \<le> as_secs_f64 d"
  by (simp add: as_secs_f64_def f64_add_def f64_div_def f64_round_nonneg)

lemma refill_bounds:
  assumes "limit_ok L b" and "bucket_ok L (since, tokens)"
  shows "0 \<le> refill since tokens L now" and "refill since tokens L now \<le> of_nat b"
  using assms
  by (auto simp: refill_def mul_add_def bucket_ok_def limit_ok_def intro!: f64_round_nonneg add_nonneg_nonneg mult_nonneg_nonneg as_secs_f64_nonneg)

lemma refill_same_instant:
  assumes "limit_ok L b" and "t \<le> b"
  shows "refill now (of_nat t) L now = of_nat t"
  using assms by (simp add: refill_def mul_add_def as_secs_f64_zero f64_round_nat limit_ok_def)

lemma debit_bucket_ok:
  assumes L: "limit_ok L b" and bk: "bucket_ok L bk"
  shows "bucket_ok L (fst (debit bk L now))"
proof -
  obtain since tokens where eq: "bk = (since, tokens)" by (cases bk)
  let ?n = "refill since tokens L now"
  have "0 \<le> ?n" "?n \<le> of_nat b" using refill_bounds [OF L] bk eq by auto
  moreover have "0 \<le> f64_sub ?n 1" "f64_sub ?n 1 \<le> of_nat b" if "1 \<le> ?n" "?n \<le> of_nat b"
    using that limit_okD [OF L] unfolding f64_sub_def by (auto intro!: f64_round_nonneg f64_round_le)
  ultimately show ?thesis
    using bk eq limit_okD(2) [OF L] by (auto simp: debit_def Let_def bucket_ok_def not_less)
qed

lemma new_bucket_ok: "limit_ok L b \<Longrightarrow> bucket_ok L (now, burst_tokens L)"
  by (simp add: bucket_ok_def limit_ok_def)

lemma refund_bucket_ok:
  assumes "limit_ok L b" and "bucket_ok L (since, tokens)"
  shows "bucket_ok L (since, min (f64_add tokens 1) (burst_tokens L))"
  using assms by (auto simp: bucket_ok_def limit_ok_def f64_add_def intro!: f64_round_nonneg)

subsection \<open>One table\<close>

definition table_ok :: "limit \<Rightarrow> nat \<Rightarrow> ('k \<times> bucket) list \<Rightarrow> bool" where
  "table_ok L cap buckets \<longleftrightarrow>
     distinct (map fst buckets) \<and> length buckets \<le> cap \<and> (\<forall>(_, bk) \<in> set buckets. bucket_ok L bk)"

definition in_debt :: "limit \<Rightarrow> instant \<Rightarrow> 'k \<times> bucket \<Rightarrow> bool" where
  "in_debt L now = (\<lambda>(_, since, tokens). mul_add (as_secs_f64 (now - since)) (rate L) tokens < burst_tokens L)"

lemma sweep_keeps: "fst (sweep L now xs oldest) = filter (in_debt L now) xs"
  by (induction L now xs oldest rule: sweep.induct) (auto simp: in_debt_def Let_def split: prod.splits)

lemma sweep_oldest:
  "snd (sweep L now xs oldest) = oldest \<or>
     (\<exists>k since. snd (sweep L now xs oldest) = Some (k, since) \<and> k \<in> fst ` set (filter (in_debt L now) xs))"
  "oldest \<noteq> None \<or> filter (in_debt L now) xs \<noteq> [] \<Longrightarrow> snd (sweep L now xs oldest) \<noteq> None"
  by (induction L now xs oldest rule: sweep.induct)
    (auto simp: in_debt_def Let_def split: prod.splits option.splits if_splits)

lemma length_delete_less: "k \<in> fst ` set xs \<Longrightarrow> length (AList.delete k xs) < length xs"
  by (auto simp: AList.delete_eq intro: length_filter_less)

lemma length_update: "length (AList.update k v xs) = (if k \<in> fst ` set xs then length xs else Suc (length xs))"
  by (induction xs) (auto simp: image_iff)

lemma set_update: "set (AList.update k v xs) \<subseteq> insert (k, v) (set xs)"
  by (induction xs) auto

lemma evict_cases:
  "\<exists>P. evict order L now cap xs = filter P (order xs)"
proof -
  obtain kept oldest where sw: "sweep L now (order xs) None = (kept, oldest)" by fastforce
  then have "kept = filter (in_debt L now) (order xs)" using sweep_keeps [of L now "order xs" None] by simp
  then have "evict order L now cap xs = filter (in_debt L now) (order xs) \<or>
      (\<exists>k. evict order L now cap xs = AList.delete k (filter (in_debt L now) (order xs)))"
    using sw by (auto simp: evict_def split: option.splits)
  then show ?thesis by (auto simp: AList.delete_eq)
qed

lemma evict_sub:
  assumes "mset (order xs) = mset xs"
  shows "set (evict order L now cap xs) \<subseteq> set xs"
proof -
  obtain P where "evict order L now cap xs = filter P (order xs)" using evict_cases by blast
  then show ?thesis using mset_eq_setD [OF assms] by (simp add: Collect_conj_eq)
qed

lemma evict_distinct:
  assumes "mset (order xs) = mset xs" and "distinct (map fst xs)"
  shows "distinct (map fst (evict order L now cap xs))"
proof -
  have "mset (map fst (order xs)) = mset (map fst xs)" using assms(1) by simp
  then have "distinct (map fst (order xs))" using assms(2) by (metis mset_eq_imp_distinct_iff)
  moreover obtain P where "evict order L now cap xs = filter P (order xs)" using evict_cases by blast
  ultimately show ?thesis by (simp add: distinct_map_filter)
qed

lemma evict_room:
  assumes "mset (order xs) = mset xs" and "0 < cap" and "length xs \<le> cap"
  shows "length (evict order L now cap xs) < cap"
proof -
  obtain kept oldest where sw: "sweep L now (order xs) None = (kept, oldest)" by fastforce
  have kept: "kept = filter (in_debt L now) (order xs)" using sweep_keeps [of L now "order xs" None] sw by simp
  have "length (order xs) = length xs" using assms(1) by (metis size_mset)
  then have len: "length kept \<le> cap" using kept assms(3) by (metis le_trans length_filter_le)
  show ?thesis
  proof (cases "cap \<le> length kept")
    case True
    then have "kept \<noteq> []" using assms(2) by auto
    then obtain k since where "oldest = Some (k, since)" and "k \<in> fst ` set kept"
      using sweep_oldest [where L = L and now = now and xs = "order xs" and oldest = None] unfolding kept [symmetric] sw snd_conv by blast
    then show ?thesis
      using True len length_delete_less [of k kept] sw by (simp add: evict_def)
  next
    case False
    then show ?thesis using sw by (auto simp: evict_def split: option.splits)
  qed
qed

lemma table_ok_update:
  assumes "table_ok L cap xs" and "bucket_ok L bk" and "k \<in> fst ` set xs \<or> length xs < cap"
  shows "table_ok L cap (AList.update k bk xs)"
  using assms set_update [of k bk xs]
  by (auto simp: table_ok_def distinct_update length_update)

lemma table_ok_evict:
  assumes "table_ok L cap xs" and "mset (order xs) = mset xs" and "0 < cap"
  shows "table_ok L cap (evict order L now cap xs)"
  using assms evict_sub [of order xs L now cap] evict_distinct [of order xs L now cap]
    evict_room [of order xs cap L now]
  by (fastforce simp: table_ok_def)

lemma check_at_ok:
  assumes L: "limit_ok L b" and ok: "table_ok L cap xs" and order: "mset (order xs) = mset xs" and cap: "0 < cap"
  shows "table_ok L cap (fst (check_at dbg order key L now cap xs))"
    and "snd (check_at dbg order key L now cap xs) \<noteq> Inl LimitPanic"
proof -
  have no_panic: "snd (debit bk L now) \<noteq> Inl LimitPanic" for bk
    by (simp add: debit_def exceeded_def Let_def split: prod.splits)
  have room: "\<not> (dbg \<and> \<not> (0 < cap \<and> length xs \<le> cap))" using ok cap by (simp add: table_ok_def)
  show "snd (check_at dbg order key L now cap xs) \<noteq> Inl LimitPanic"
    unfolding check_at_def if_not_P [OF room]
    by (simp add: no_panic Let_def case_prod_beta split: option.splits)
  show "table_ok L cap (fst (check_at dbg order key L now cap xs))"
  proof (cases "map_of xs key")
    case (Some bk)
    then have "(key, bk) \<in> set xs" by (rule map_of_SomeD)
    then have "bucket_ok L bk" and "key \<in> fst ` set xs" using ok by (auto simp: table_ok_def intro: rev_image_eqI)
    then have "table_ok L cap (AList.update key (fst (debit bk L now)) xs)"
      by (intro table_ok_update [OF ok] debit_bucket_ok [OF L]) simp_all
    then show ?thesis unfolding check_at_def if_not_P [OF room] by (simp add: Some case_prod_beta)
  next
    case None
    let ?ys = "if cap \<le> length xs then evict order L now cap xs else xs"
    have "table_ok L cap ?ys" and "length ?ys < cap"
      using table_ok_evict [of L cap xs order now] evict_room [of order xs cap L now] ok order cap
      by (simp_all add: table_ok_def)
    then have "table_ok L cap (AList.update key (fst (debit (now, burst_tokens L) L now)) ?ys)"
      by (intro table_ok_update debit_bucket_ok [OF L new_bucket_ok [OF L]]) simp_all
    then show ?thesis unfolding check_at_def if_not_P [OF room] by (simp add: None Let_def case_prod_beta)
  qed
qed

lemma refund_ok:
  assumes L: "limit_ok L b" and ok: "table_ok L cap xs"
  shows "table_ok L cap (refund key L xs)"
proof (cases "map_of xs key")
  case (Some bk)
  obtain since tokens where bk: "bk = (since, tokens)" by (cases bk)
  have "(key, bk) \<in> set xs" using Some by (rule map_of_SomeD)
  then have "bucket_ok L bk" and "key \<in> fst ` set xs" using ok by (auto simp: table_ok_def intro: rev_image_eqI)
  then have "table_ok L cap (AList.update key (since, min (f64_add tokens 1) (burst_tokens L)) xs)"
    unfolding bk by (intro table_ok_update [OF ok] refund_bucket_ok [OF L]) simp_all
  then show ?thesis by (simp add: refund_def Some bk)
qed (simp add: refund_def ok)

text \<open>What callers do with one table, in any order: every call, with what it answered.\<close>

datatype 'k limit_call = Check 'k instant | Refund 'k

fun limit_calls ::
  "bool \<Rightarrow> (('k \<times> bucket) list \<Rightarrow> ('k \<times> bucket) list) \<Rightarrow> limit \<Rightarrow> nat \<Rightarrow> 'k limit_call list \<Rightarrow> ('k \<times> bucket) list \<Rightarrow>
     ('k \<times> bucket) list \<times> (limit_error, unit) result list"
where
  "limit_calls dbg order L cap [] xs = (xs, [])"
| "limit_calls dbg order L cap (Check key now # calls) xs =
     (case check_at dbg order key L now cap xs of (ys, r) \<Rightarrow>
        case limit_calls dbg order L cap calls ys of (zs, rs) \<Rightarrow> (zs, r # rs))"
| "limit_calls dbg order L cap (Refund key # calls) xs = limit_calls dbg order L cap calls (refund key L xs)"

lemma limit_calls_ok:
  assumes "limit_ok L b" and "0 < cap" and "\<And>ys. mset (order ys) = mset ys" and "table_ok L cap xs"
  shows "table_ok L cap (fst (limit_calls dbg order L cap calls xs)) \<and>
    Inl LimitPanic \<notin> set (snd (limit_calls dbg order L cap calls xs))"
  using assms(4)
proof (induction calls arbitrary: xs)
  case (Cons call calls)
  show ?case
  proof (cases call)
    case (Check key now)
    obtain ys r where c: "check_at dbg order key L now cap xs = (ys, r)" by fastforce
    have "table_ok L cap ys" and "r \<noteq> Inl LimitPanic"
      using check_at_ok [of L b cap xs order dbg key now] assms(1-3) Cons.prems c by auto
    then show ?thesis using Cons.IH [of ys] Check c by (auto split: prod.splits)
  next
    case (Refund key)
    then show ?thesis using Cons.IH refund_ok [OF assms(1) Cons.prems] by simp
  qed
qed simp

text \<open>
  C14: whatever calls are made on a limit's table, in whatever order and at whatever times, the debug
  assertions of \<open>check_at\<close> hold: the table never grows beyond its cap. Every bucket in it holds between
  zero tokens and the limit's burst, rounding included.
\<close>

theorem rate_limit_bounds:
  assumes "0 \<le> rate L" and "burst_tokens L = of_nat b" and "0 < b" and "b \<le> 2 ^ 52"
    and "0 < cap" and "\<And>xs. mset (order xs) = mset xs"
  shows "case limit_calls True order L cap calls [] of (buckets, answers) \<Rightarrow>
    Inl LimitPanic \<notin> set answers \<and> length buckets \<le> cap \<and> distinct (map fst buckets) \<and>
    (\<forall>(_, _, tokens) \<in> set buckets. 0 \<le> tokens \<and> tokens \<le> of_nat b)"
proof -
  have "table_ok L cap (fst (limit_calls True order L cap calls [])) \<and>
      Inl LimitPanic \<notin> set (snd (limit_calls True order L cap calls []))"
    using assms by (intro limit_calls_ok [of L b]) (simp_all add: limit_ok_def table_ok_def)
  then show ?thesis using assms(2) by (auto simp: table_ok_def bucket_ok_def split: prod.splits)
qed

theorem rate_limit_bounds_witness:
  "snd (limit_calls True rev (make_limit 1 2 ''slow down'') 2
      [Check (1 :: nat) 0, Check 1 0, Check 1 0, Check 2 0, Check 3 0] []) =
     [Inr (), Inr (), Inl (LimitExceeded (Some (10 ^ 9)) ''slow down''), Inr (), Inr ()] \<and>
   length (fst (limit_calls True rev (make_limit 1 2 ''slow down'') 2
      [Check (1 :: nat) 0, Check 1 0, Check 1 0, Check 2 0, Check 3 0] [])) \<le> 2"
proof
  let ?calls = "[Check (1 :: nat) 0, Check 1 0, Check 1 0, Check 2 0, Check 3 0]"
  have "case limit_calls True rev (make_limit 1 2 ''slow down'') 2 ?calls [] of (buckets, answers) \<Rightarrow>
      Inl LimitPanic \<notin> set answers \<and> length buckets \<le> 2 \<and> distinct (map fst buckets) \<and>
      (\<forall>(_, _, tokens) \<in> set buckets. 0 \<le> tokens \<and> tokens \<le> of_nat 2)"
    by (rule rate_limit_bounds) (simp_all add: make_limit_def)
  then show "length (fst (limit_calls True rev (make_limit 1 2 ''slow down'') 2 ?calls [])) \<le> 2"
    by (simp add: case_prod_beta)
  show "snd (limit_calls True rev (make_limit 1 2 ''slow down'') 2 ?calls []) =
     [Inr (), Inr (), Inl (LimitExceeded (Some (10 ^ 9)) ''slow down''), Inr (), Inr ()]"
    by (simp add: check_at_def debit_def refill_def exceeded_def retry_after_def try_from_secs_f64_def evict_def
        f64_exact make_limit_def DURATION_MAX_def Let_def)
qed

subsection \<open>Password attempts\<close>

text \<open>
  Attempts on one account at one moment, some of them at work at the same time: each begins by asking for a
  token, and ends with a wrong password or not. Every answer of \<open>check_password\<close> is listed.
\<close>

datatype attempt_event = Begin | End bool

fun attempts ::
  "bool \<Rightarrow> hash_orders \<Rightarrow> auth_config \<Rightarrow> bytes \<Rightarrow> instant \<Rightarrow> attempt_event list \<Rightarrow> nat \<Rightarrow> attempt_tables \<Rightarrow> bool list"
where
  "attempts dbg H auth user now [] in_flight t = []"
| "attempts dbg H auth user now (Begin # events) in_flight t =
     (case service_check_password dbg H auth user now t of
        (t', Inr _) \<Rightarrow> True # attempts dbg H auth user now events (Suc in_flight) t'
      | (t', Inl _) \<Rightarrow> False # attempts dbg H auth user now events in_flight t')"
| "attempts dbg H auth user now (End wrong # events) in_flight t =
     (if in_flight = 0 then attempts dbg H auth user now events 0 t
      else attempts dbg H auth user now events (in_flight - 1) (drop_attempt auth (Account user) wrong t))"

text \<open>What they should answer: an attempt is let in while wrong ones and those at work are fewer than the burst.\<close>

fun allowed :: "nat \<Rightarrow> nat \<Rightarrow> nat \<Rightarrow> attempt_event list \<Rightarrow> bool list" where
  "allowed b wrong_ones in_flight [] = []"
| "allowed b wrong_ones in_flight (Begin # events) =
     (if wrong_ones + in_flight < b then True # allowed b wrong_ones (Suc in_flight) events
      else False # allowed b wrong_ones in_flight events)"
| "allowed b wrong_ones in_flight (End wrong # events) =
     (if in_flight = 0 then allowed b wrong_ones 0 events
      else allowed b (if wrong then Suc wrong_ones else wrong_ones) (in_flight - 1) events)"

definition tokens_left :: "bytes \<Rightarrow> instant \<Rightarrow> nat \<Rightarrow> attempt_tables \<Rightarrow> nat \<Rightarrow> bool" where
  "tokens_left user now b t n \<longleftrightarrow>
     map_of (failed t) user = Some (now, of_nat n) \<or> n = b \<and> map_of (failed t) user = None"

lemma debit_same_instant:
  assumes "limit_ok L b" and "n \<le> b"
  shows "debit (now, of_nat n) L now =
    (if n = 0 then ((now, of_nat n), Inl (exceeded L (of_nat n))) else ((now, of_nat (n - 1)), Inr ()))"
proof -
  have "f64_sub (of_nat n) 1 = of_nat (n - 1)" if "n \<noteq> 0"
    using f64_round_nat [of "n - 1"] limit_okD [OF assms(1)] assms(2) that by (simp add: f64_sub_def of_nat_diff)
  then show ?thesis using refill_same_instant [OF assms] by (simp add: debit_def)
qed

abbreviation failed_burst :: "auth_config \<Rightarrow> nat" where
  "failed_burst auth \<equiv> unat (login_rc_failed_burst_count auth)"

lemma failed_limit_ok: "\<not> is_disabled (failed_limit auth) \<Longrightarrow> limit_ok (failed_limit auth) (failed_burst auth)"
  using unsigned_less [of "login_rc_failed_burst_count auth", where 'a = nat]
  by (auto simp: is_disabled_def failed_limit_def make_limit_def limit_ok_def not_le unat_gt_0)

lemma check_at_same_instant:
  assumes L: "limit_ok L b" and ok: "table_ok L cap xs" and cap: "0 < cap"
    and n: "map_of xs key = Some (now, of_nat n) \<and> n \<le> b \<or> n = b \<and> map_of xs key = None"
  shows "map_of (fst (check_at dbg order key L now cap xs)) key = Some (now, of_nat (n - 1)) \<and>
    (snd (check_at dbg order key L now cap xs) = Inr () \<longleftrightarrow> 0 < n)"
proof -
  have room: "\<not> (dbg \<and> \<not> (0 < cap \<and> length xs \<le> cap))" using ok cap by (simp add: table_ok_def)
  have "n \<le> b" and "burst_tokens L = of_nat b" using n limit_okD(2) [OF L] by auto
  then show ?thesis
    unfolding check_at_def if_not_P [OF room]
    using n debit_same_instant [OF L \<open>n \<le> b\<close>, of now] limit_okD(3) [OF L]
    by (cases "n = 0") (auto simp: Let_def update_conv')
qed

lemma service_check_password_ok:
  assumes on: "\<not> is_disabled (failed_limit auth)" and order: "\<And>xs. mset (user_order H xs) = mset xs"
    and ok: "table_ok (failed_limit auth) DEFAULT_MAP_CAP (failed t)"
    and n: "tokens_left user now (failed_burst auth) t n" and le: "n \<le> failed_burst auth"
    and out: "service_check_password dbg H auth user now t = (t', r)"
  shows "table_ok (failed_limit auth) DEFAULT_MAP_CAP (failed t') \<and>
    tokens_left user now (failed_burst auth) t' (n - 1) \<and>
    (if n = 0 then \<exists>e. r = Inl e else r = Inr (Account user))"
proof -
  let ?c = "check_at dbg (user_order H) user (failed_limit auth) now DEFAULT_MAP_CAP (failed t)"
  have cap: "0 < DEFAULT_MAP_CAP" by (simp add: DEFAULT_MAP_CAP_def)
  note L = failed_limit_ok [OF on]
  have "table_ok (failed_limit auth) DEFAULT_MAP_CAP (fst ?c)" by (rule check_at_ok(1) [OF L ok _ cap]) (rule order)
  moreover have "map_of (fst ?c) user = Some (now, of_nat (n - 1)) \<and> (snd ?c = Inr () \<longleftrightarrow> 0 < n)"
    using n le by (intro check_at_same_instant [OF L ok cap]) (auto simp: tokens_left_def)
  ultimately show ?thesis
    using out on
    by (cases "snd ?c")
      (auto simp: service_check_password_def check_password_def check_limit_def st_bind_def tokens_left_def case_prod_beta split: if_splits)
qed

lemma refund_adds_one:
  assumes "limit_ok L b" and "n < b" and "map_of xs key = Some (since, of_nat n)"
  shows "map_of (refund key L xs) key = Some (since, of_nat (Suc n))"
proof -
  have "f64_add (of_nat n) 1 = of_nat (Suc n)"
    using f64_round_nat [of "Suc n"] limit_okD(4) [OF assms(1)] assms(2) by (simp add: f64_add_def add.commute)
  moreover have "min (of_nat (Suc n)) (burst_tokens L) = of_nat (Suc n)"
    using limit_okD(2) [OF assms(1)] assms(2) by (simp add: min_def flip: of_nat_Suc)
  ultimately show ?thesis by (simp add: refund_def assms(3) update_conv' del: of_nat_Suc)
qed

lemma drop_attempt_ok:
  assumes on: "\<not> is_disabled (failed_limit auth)"
    and ok: "table_ok (failed_limit auth) DEFAULT_MAP_CAP (failed t)"
    and n: "tokens_left user now (failed_burst auth) t n" and less: "n < failed_burst auth"
  shows "table_ok (failed_limit auth) DEFAULT_MAP_CAP (failed (drop_attempt auth (Account user) wrong t)) \<and>
    tokens_left user now (failed_burst auth) (drop_attempt auth (Account user) wrong t) (if wrong then n else Suc n)"
proof (cases wrong)
  case False
  note L = failed_limit_ok [OF on]
  have "map_of (failed t) user = Some (now, of_nat n)" using n less by (auto simp: tokens_left_def)
  then have "map_of (refund user (failed_limit auth) (failed t)) user = Some (now, of_nat (Suc n))"
    by (rule refund_adds_one [OF L less])
  then show ?thesis using on False refund_ok [OF L ok] by (simp add: refund_password_def tokens_left_def)
qed (use ok n in simp)

lemma attempts_allowed:
  assumes "\<not> is_disabled (failed_limit auth)" and "\<And>xs. mset (user_order H xs) = mset xs"
    and "table_ok (failed_limit auth) DEFAULT_MAP_CAP (failed t)"
    and "tokens_left user now (failed_burst auth) t (failed_burst auth - w - f)"
    and "w + f \<le> failed_burst auth"
  shows "attempts dbg H auth user now events f t = allowed (failed_burst auth) w f events"
  using assms(3-)
proof (induction "failed_burst auth" w f events arbitrary: t rule: allowed.induct)
  case (2 w f events)
  obtain t' r where out: "service_check_password dbg H auth user now t = (t', r)" by fastforce
  note step = service_check_password_ok [OF assms(1,2) 2(3,4) _ out]
  show ?case
  proof (cases "w + f < failed_burst auth")
    case True
    then show ?thesis using step 2(1) [of t'] out by (auto split: if_splits)
  next
    case False
    then show ?thesis using step 2(2) [of t'] 2(5) out by (auto split: if_splits)
  qed
next
  case (3 w f wrong events)
  show ?case
  proof (cases "f = 0")
    case False
    let ?n = "failed_burst auth - w - f"
    have "?n < failed_burst auth" using False 3(5) by simp
    note step = drop_attempt_ok [OF assms(1) 3(3,4) this, of wrong]
    have "(if wrong then ?n else Suc ?n) = failed_burst auth - (if wrong then Suc w else w) - (f - 1)"
      using False 3(5) by auto
    then show ?thesis using step 3(2) [of "drop_attempt auth (Account user) wrong t"] 3(5) False by auto
  qed (use 3 in simp)
qed simp

text \<open>
  C13: at one moment, an account that has no bucket yet lets an attempt in exactly when the wrong passwords
  so far, together with the attempts still at work, are fewer than the configured burst. Right passwords
  cost nothing, and attempts made side by side cannot try more wrong passwords than the burst. The
  table may already be full of other accounts.
\<close>

theorem only_failures_count:
  assumes "\<not> is_disabled (failed_limit auth)" and "\<And>xs. mset (user_order H xs) = mset xs"
    and "table_ok (failed_limit auth) DEFAULT_MAP_CAP (failed t)" and "map_of (failed t) user = None"
  shows "attempts dbg H auth user now events 0 t = allowed (unat (login_rc_failed_burst_count auth)) 0 0 events"
  using assms by (intro attempts_allowed) (simp_all add: tokens_left_def)

definition sample_auth :: auth_config where
  "sample_auth =
     \<lparr>login_rc_per_second = 1, login_rc_burst_count = 5, login_rc_failed_per_second = 1,
      login_rc_failed_burst_count = 2, registration_rc_per_second = 1, registration_rc_burst_count = 1\<rparr>"

definition sample_orders :: hash_orders where
  "sample_orders = \<lparr>ip_order = rev, user_order = rev, session_order = rev\<rparr>"

theorem only_failures_count_witness:
  "attempts True sample_orders sample_auth [1] 7
     [Begin, End False, Begin, Begin, Begin, End True, Begin, End False, Begin, End True, Begin] 0
     \<lparr>login = [], failed = [], session_failed = [], registration = []\<rparr> =
   [True, True, True, False, False, True, False]"
proof -
  have "attempts True sample_orders sample_auth [1] 7
     [Begin, End False, Begin, Begin, Begin, End True, Begin, End False, Begin, End True, Begin] 0
     \<lparr>login = [], failed = [], session_failed = [], registration = []\<rparr> =
    allowed (unat (login_rc_failed_burst_count sample_auth)) 0 0
      [Begin, End False, Begin, Begin, Begin, End True, Begin, End False, Begin, End True, Begin]"
    by (rule only_failures_count)
      (simp_all add: sample_auth_def sample_orders_def is_disabled_def failed_limit_def make_limit_def table_ok_def)
  then show ?thesis by (simp add: sample_auth_def)
qed

end
