(* ===== verification/Spec2Isabelle.thy ===== *)
theory Spec2Isabelle
  imports Two_Phase_Counter Room_Version Event_Auth_Rules State_Sort_Props State_Res_Props
    Db_Codec_Props Db_Map_Props Server_Counter Short_Ids_Props State_Compressor_Lost Sending_Theorems
    Rate_Limit_Props
begin

text \<open>
  A verification library of \<^bold>\<open>phantom\<close>, a Matrix homeserver in Rust. Paths are relative to \<open>src/crates/\<close>.

  \<^bold>\<open>The program.\<close> \<open>phantom-core\<close> holds what does not touch the network or the disk: event positions and
  their keys, counters, room versions, the authorization rules and state resolution. \<open>phantom-database\<close> wraps
  RocksDB: a codec for keys and values, maps with watchers, cursors and prefix scans, corks and transactions.
  \<open>phantom-service\<close> builds on both: a server-wide counter, short ids drawn from it, and the compressed states of
  rooms, which name events and state keys by their short ids and states by a digest with a short id of its own. Its
  sending service keeps what other servers, appservices and pushers still have to be sent in two tables, queued and
  active, and a set of workers sends it, one transaction per destination at a time.
  \<open>phantom-api\<close> and \<open>phantom-server\<close> are the HTTP handlers and the process around them.

  \<^bold>\<open>Conventions\<close> (\<open>Prelude\<close>). Machine integers are words at their width; \<open>checked_\<close> and \<open>saturating_\<close>
  arithmetic is Rust's. \<open>Result\<close> is a sum with the error on the left, \<open>res_bind\<close> is the question mark, and
  \<open>st_bind\<close> the question mark of an operation that changes a state. A panic is an error constructor or \<open>None\<close>,
  named where it is defined. A boolean \<open>dbg\<close> selects the debug build, whose assertions panic. Loops over data the
  program does not control are \<open>partial_function (option)\<close>: \<open>None\<close> is a run that does not end, and the theorems
  state that the run ends. Strings are bytes where the code treats them as bytes. An \<open>f64\<close> is a rational number, rounded to 53 bits after
  every operation (\<open>Rate_Limit\<close>). No fuel is used. The one numeric
  bound is in \<open>wf_state\<close>: a room state has fewer than \<open>2 ^ 30\<close> entries, so that the products of the merge rule stay
  below the range of \<open>usize\<close>.

  Code that is not in the repository is a parameter: \<open>ruma\<close> (JSON contents and their parsers, signatures) is the
  record of \<open>Matrix_Event\<close>; RocksDB is the record \<open>rocksdb\<close> of \<open>Db_Map\<close> with the laws of the locale \<open>rocks\<close>;
  documents in the codec are the record \<open>foreign\<close>; the cache of the state compressor is the record \<open>lru\<close> with the laws
  of \<open>lru_laws\<close>; SHA-256 is a function, assumed not to give a state the digest of another state recorded already. The order in which hash
  containers list their elements, the hash that assigns a destination to a worker, the clock, and what the other side
  of a connection answers are arguments or choices of a step. Each parameter has an executable instance that the witnesses run
  on: \<open>Sample_Codec\<close>, \<open>mem_rocks\<close>, \<open>sample_foreign\<close>, \<open>list_lru\<close>, the identity.

  \<^bold>\<open>The theories.\<close>

  \<^item> \<open>Number_Source\<close>: the locale of counters that hand out increasing numbers; interpreted by the two-phase counter
    and the server counter.

  \<^item> \<open>Pdu_Count\<close>: \<open>phantom-core/src/bytes.rs\<close>, \<open>matrix/pdu/count.rs\<close>, \<open>id.rs\<close>, \<open>raw_id.rs\<close>. Raw keys read back
    as the ids they were made from and sort as the counts they encode; steps of a count are by one or fail.

  \<^item> \<open>Two_Phase_Counter\<close>: \<open>sync/two_phase_counter.rs\<close> as a step relation. In every reachable state the retired
    frontier is exactly below the first pending number, it never moves back, and releases are in order.

  \<^item> \<open>Room_Version\<close>, \<open>Matrix_Event\<close>: \<open>matrix/state_res/room_version.rs\<close>, \<open>matrix/event.rs\<close>, \<open>error.rs\<close>,
    \<open>event_type_ext.rs\<close>, \<open>power_levels.rs\<close>.

  \<^item> \<open>Event_Auth\<close> with \<open>Event_Auth_Rules\<close>: \<open>matrix/state_res/event_auth.rs\<close> and its submodules, every rule of
    \<open>auth_check\<close>. No event escalates power, bans hold, kicks and bans need rank, joins need a reason, third-party
    invites a signature, other events a joined sender; and the check reads only the state it asks for.

  \<^item> \<open>State_Sort\<close> with \<open>State_Sort_Props\<close>: \<open>matrix/state_res/sort.rs\<close>. The sort ends, lists exactly the events it
    should, each after its dependencies and the least available one first, and does not depend on hash order.

  \<^item> \<open>State_Res\<close> with \<open>State_Res_Props\<close>: \<open>matrix/state_res/mod.rs\<close>, \<open>mainline.rs\<close>, \<open>auth_check.rs\<close>: the whole of
    \<open>resolve\<close>. The split into conflicted and unconflicted state, the difference of auth chains and the conflicted
    subgraph are what their specifications say.

  \<^item> \<open>Db_Codec\<close> with \<open>Db_Codec_Props\<close>: \<open>phantom-database/src/codec/\<close> as two state machines. Tuples of the shapes
    the maps use read back as written, prefixes select exactly their keys; two shapes that do not survive.

  \<^item> \<open>Db_Map\<close> with \<open>Db_Map_Props\<close>: \<open>phantom-database/src/map/\<close>, \<open>engine/\<close>, \<open>store/\<close>. The locale \<open>rocks\<close> gives the
    locale \<open>kv_map\<close> of a map that reads back what was written. Scans under a prefix yield exactly its entries and
    end, transactions are all or nothing, watchers wake exactly whom a write concerns.

  \<^item> \<open>Server_Counter\<close>: \<open>phantom-service/src/ops/server_state/counter.rs\<close>. Numbers are fresh across restarts; a
    failed write leaves memory ahead of the database. The poisoning of its lock by a panic is not modelled.

  \<^item> \<open>Short_Ids\<close> with \<open>Short_Ids_Props\<close>: \<open>rooms/short.rs\<close>. The locale \<open>interner\<close> of tables that hand out numbers is
    interpreted on the four tables taken together: one number per key, one key per number, kept for good, with a way
    back; a batch does what single calls do. The code holds no lock between looking a key up and creating its number;
    here each call is one step, so two concurrent misses of one key are left out.

  \<^item> \<open>State_Compressor\<close> with \<open>State_Compressor_Props\<close>: \<open>rooms/state_compressor/mod.rs\<close>. The predicate \<open>chain\<close> is the
    abstract view of the stored differences: a stack of states, each with its exact difference to the one below.
    Merging is exact, saving adds one state and keeps all others, chains are at most four long, loading ends and
    returns what was saved. \<open>State_Compressor_Lost\<close>: a difference whose write fails is lost for good, whatever is
    saved afterwards.

  \<^item> \<open>Send_Queue\<close> with \<open>Send_Queue_Props\<close>: \<open>net/sending/dest.rs\<close> and \<open>data.rs\<close>, over
    \<open>Backoff\<close>: \<open>time/exponential_backoff.rs\<close> of the core. Rows read back as the event and the destination they were queued for, destinations do not mix, and
    each operation is described by its effect on the two tables.

  \<^item> \<open>Send_Edus\<close> with \<open>Send_Edus_Props\<close>: \<open>net/sending/sender/edus.rs\<close>. A selection of ephemeral events stays within
    its limit and, below it, passes over nobody; at the limit it does.

  \<^item> \<open>Sender\<close>: \<open>net/sending/mod.rs\<close>, \<open>sender/mod.rs\<close>, \<open>sender/select.rs\<close>: the handlers of a worker, the calls of
    the other services, and the step relation \<open>sending_step\<close> of all workers and channels. \<open>Sender_Props\<close> has the
    invariant of a worker, \<open>Sending_Props\<close> that of the service, \<open>Sending_Run\<close> the start and the runs,
    \<open>Sending_Safe\<close> the absence of panics, and \<open>Sending_Theorems\<close> the theorems: no event of the run is lost, one
    transaction per destination, a destination that answers is drained, one that failed is retried; and two states
    from which a destination does not recover by itself. A run starts with \<open>startup_netburst\<close> on, or without active
    rows; rows beyond \<open>startup_netburst_keep\<close> are dropped by the start. Each handler is one step, shutdown is not a step.

  \<^item> \<open>Rate_Limit\<close> with \<open>Rate_Limit_Props\<close>: \<open>phantom-service/src/ratelimit.rs\<close> and \<open>auth/attempts.rs\<close>. Rounding
    included, a bucket holds between none and all of its tokens and a table stays within its cap; attempts on an
    account are let in as long as wrong passwords and attempts at work are fewer than the burst.

  \<^bold>\<open>Not modelled.\<close> Configuration, logging, metrics, the thread pool, opening and backing up the database, and the
  process itself are calls of libraries and of the operating system. The other services (accounts, most of authentication,
  media, federation requests, timeline and the remaining room services) and the HTTP handlers are not modelled yet; most of
  their work is I/O over the tables modelled here. What a worker puts on the wire (\<open>sender/dispatch.rs\<close>) is JSON
  and HTTP. The Go client, the website and the test harness are separate programs. Concurrency is modelled where the
  code relies on it (the two-phase counter, the read-ahead of batches, the workers of the sending service, password
  attempts at work side by side); elsewhere an operation that holds a lock is one step.
\<close>

end
